(* ===== verification/Prelude.thy ===== *)
theory Prelude
  imports Main "HOL-Library.Word" "HOL-Library.AList"
begin

text \<open>
  Shared vocabulary of the development: Python text as lists of code points, bytes as 8-bit
  words, results of code that may raise as sums, decimal and hexadecimal rendering, and the
  UTF-8 codec of \<^verbatim>\<open>str.encode\<close> and \<^verbatim>\<open>bytes.decode\<close>. The collections \<open>text_simps\<close> and
  \<open>res_simps\<close> hold the rewriting rules the component theories pass to the simplifier.
\<close>

named_theorems text_simps "rewriting of Python text, digits and bytes"
named_theorems res_simps "rewriting of computations that may raise"

section \<open>Types\<close>

type_synonym pystr = "nat list"
type_synonym byte = "8 word"
type_synonym bytestr = "byte list"

section \<open>Computations that may raise\<close>

text \<open>
  A Python computation that returns or raises is a value of a sum type: \<open>Inl\<close> the exception,
  \<open>Inr\<close> the result. \<open>rbind\<close> runs the next statement on the result, as a statement after a
  call that did not raise; \<open>guard\<close> is \<^verbatim>\<open>if cond: raise e\<close>; \<open>rmap_err\<close> is an \<^verbatim>\<open>except\<close> clause
  that raises another exception.
\<close>

definition rbind :: "'e + 'a \<Rightarrow> ('a \<Rightarrow> 'e + 'b) \<Rightarrow> 'e + 'b" where
  "rbind m f = (case m of Inl e \<Rightarrow> Inl e | Inr x \<Rightarrow> f x)"

definition raise_if :: "bool \<Rightarrow> 'e \<Rightarrow> 'e + unit" where
  "raise_if b e = (if b then Inl e else Inr ())"

definition rmap_err :: "('e \<Rightarrow> 'f) \<Rightarrow> 'e + 'a \<Rightarrow> 'f + 'a" where
  "rmap_err h m = (case m of Inl e \<Rightarrow> Inl (h e) | Inr x \<Rightarrow> Inr x)"

fun rfold :: "('s \<Rightarrow> 'a \<Rightarrow> 'e + 's) \<Rightarrow> 's \<Rightarrow> 'a list \<Rightarrow> 'e + 's" where
  "rfold f s [] = Inr s"
| "rfold f s (x # xs) = rbind (f s x) (\<lambda>s'. rfold f s' xs)"

fun rall :: "('a \<Rightarrow> 'e + unit) \<Rightarrow> 'a list \<Rightarrow> 'e + unit" where
  "rall f [] = Inr ()"
| "rall f (x # xs) = rbind (f x) (\<lambda>_. rall f xs)"

lemma rbind_Inl [simp, res_simps]: "rbind (Inl e) f = Inl e"
  by (simp add: rbind_def)

lemma rbind_Inr [simp, res_simps]: "rbind (Inr x) f = f x"
  by (simp add: rbind_def)

lemma rbind_eq_Inr [res_simps]: "rbind m f = Inr y \<longleftrightarrow> (\<exists>x. m = Inr x \<and> f x = Inr y)"
  by (cases m) auto

lemma rbind_eq_Inl [res_simps]:
  "rbind m f = Inl e \<longleftrightarrow> m = Inl e \<or> (\<exists>x. m = Inr x \<and> f x = Inl e)"
  by (cases m) auto

lemma rbind_cong [fundef_cong]:
  "m = n \<Longrightarrow> (\<And>x. n = Inr x \<Longrightarrow> f x = g x) \<Longrightarrow> rbind m f = rbind n g"
  by (cases n) auto

lemma raise_if_simps [simp]: "raise_if True e = Inl e" "raise_if False e = Inr ()"
  by (simp_all add: raise_if_def)

lemma raise_if_eq_Inr [res_simps, simp]: "raise_if b e = Inr u \<longleftrightarrow> \<not> b"
  by (simp add: raise_if_def)

lemma raise_if_eq_Inl [res_simps, simp]: "raise_if b e = Inl e' \<longleftrightarrow> b \<and> e' = e"
  by (auto simp: raise_if_def)

lemma rmap_err_Inr [simp, res_simps]: "rmap_err h (Inr x) = Inr x"
  by (simp add: rmap_err_def)

lemma rmap_err_Inl [simp, res_simps]: "rmap_err h (Inl e) = Inl (h e)"
  by (simp add: rmap_err_def)

lemma rmap_err_eq_Inr [simp, res_simps]: "rmap_err h m = Inr y \<longleftrightarrow> m = Inr y"
  by (cases m) auto

lemma rmap_err_eq_Inl [res_simps]: "rmap_err h m = Inl f \<longleftrightarrow> (\<exists>e. m = Inl e \<and> f = h e)"
  by (cases m) auto

lemma rall_eq_Inr [res_simps]: "rall f xs = Inr u \<longleftrightarrow> (\<forall>x \<in> set xs. f x = Inr ())"
  by (induction xs) (auto simp: rbind_eq_Inr)

lemma rfold_append [simp]: "rfold f s (xs @ ys) = rbind (rfold f s xs) (\<lambda>t. rfold f t ys)"
proof (induction xs arbitrary: s)
  case (Cons x xs)
  then show ?case by (cases "f s x") auto
qed simp

text \<open>\<open>raises P m\<close>: whatever exception \<open>m\<close> ends with satisfies \<open>P\<close>.\<close>

definition raises :: "('e \<Rightarrow> bool) \<Rightarrow> 'e + 'a \<Rightarrow> bool" where
  "raises P m \<longleftrightarrow> (\<forall>e. m = Inl e \<longrightarrow> P e)"

lemma raises_Inr [intro, simp]: "raises P (Inr x)"
  by (simp add: raises_def)

lemma raises_rbind [intro]: "raises P m \<Longrightarrow> (\<And>x. m = Inr x \<Longrightarrow> raises P (f x)) \<Longrightarrow> raises P (rbind m f)"
  by (auto simp: raises_def rbind_eq_Inl)

lemma raises_rall [intro]: "(\<And>x. x \<in> set xs \<Longrightarrow> raises P (f x)) \<Longrightarrow> raises P (rall f xs)"
  by (induction xs) auto

section \<open>Literals, digits and hexadecimal text\<close>

text \<open>\<open>byte_of\<close> is the byte of a number below 256.\<close>

definition byte_of :: "nat \<Rightarrow> byte" where
  "byte_of n = word_of_nat n"

text \<open>\<open>lit\<close> reads an ASCII literal as Python text.\<close>

definition lit :: "string \<Rightarrow> pystr" where
  "lit s = map of_char s"

definition is_digit :: "nat \<Rightarrow> bool" where
  "is_digit c \<longleftrightarrow> 48 \<le> c \<and> c \<le> 57"

definition is_hex :: "nat \<Rightarrow> bool" where
  "is_hex c \<longleftrightarrow> (48 \<le> c \<and> c \<le> 57) \<or> (97 \<le> c \<and> c \<le> 102)"

definition hex_digit :: "nat \<Rightarrow> nat" where
  "hex_digit n = (if n < 10 then 48 + n else 87 + n)"

text \<open>The characters \<^verbatim>\<open>str.strip\<close> removes.\<close>

definition is_space :: "nat \<Rightarrow> bool" where
  "is_space c \<longleftrightarrow> (9 \<le> c \<and> c \<le> 13) \<or> (28 \<le> c \<and> c \<le> 32) \<or> c = 133 \<or> c = 160 \<or> c = 5760 \<or>
     (8192 \<le> c \<and> c \<le> 8202) \<or> c = 8232 \<or> c = 8233 \<or> c = 8239 \<or> c = 8287 \<or> c = 12288"

text \<open>\<open>dec n\<close> is \<^verbatim>\<open>str(n)\<close> of a natural number; \<open>undec\<close> is the value of a digit string.\<close>

fun dec :: "nat \<Rightarrow> pystr" where
  "dec n = (if n < 10 then [48 + n] else dec (n div 10) @ [48 + n mod 10])"

declare dec.simps [simp del]

definition undec :: "pystr \<Rightarrow> nat" where
  "undec ds = foldl (\<lambda>n c. 10 * n + (c - 48)) 0 ds"

text \<open>\<open>hexlify\<close> is \<^verbatim>\<open>bytes.hex()\<close>; \<open>fromhex\<close> is \<^verbatim>\<open>bytes.fromhex\<close> on lowercase pairs.\<close>

definition hex_byte :: "byte \<Rightarrow> pystr" where
  "hex_byte b = [hex_digit (unat b div 16), hex_digit (unat b mod 16)]"

definition hexlify :: "bytestr \<Rightarrow> pystr" where
  "hexlify bs = concat (map hex_byte bs)"

definition unhex :: "nat \<Rightarrow> nat" where
  "unhex c = (if c < 58 then c - 48 else c - 87)"

fun fromhex :: "pystr \<Rightarrow> bytestr" where
  "fromhex (a # b # r) = byte_of (16 * unhex a + unhex b) # fromhex r"
| "fromhex _ = []"

lemma lit_Nil [simp]: "lit [] = []"
  by (simp add: lit_def)

lemma lit_inject [simp, text_simps]: "lit s = lit t \<longleftrightarrow> s = t"
  by (simp add: lit_def inj_map_eq_map inj_on_def)

lemma lit_eq_Nil [simp]: "lit s = [] \<longleftrightarrow> s = []" "[] = lit s \<longleftrightarrow> s = []"
  by (auto simp: lit_def)

lemma length_lit [simp]: "length (lit s) = length s"
  by (simp add: lit_def)

lemma lit_bound: "c \<in> set (lit s) \<Longrightarrow> c < 256"
  by (auto simp: lit_def)

lemma dec_not_Nil [simp]: "dec n \<noteq> []"
  by (subst dec.simps) simp

lemma dec_digits: "c \<in> set (dec n) \<Longrightarrow> is_digit c"
proof (induction n arbitrary: c rule: dec.induct)
  case (1 n)
  then show ?case
    by (subst (asm) dec.simps) (auto simp: is_digit_def split: if_splits)
qed

lemma length_dec: "n < 10 ^ k \<Longrightarrow> 0 < k \<Longrightarrow> length (dec n) \<le> k"
proof (induction k arbitrary: n)
  case (Suc k)
  show ?case
  proof (cases "n < 10")
    case False
    then have "0 < k" "n div 10 < 10 ^ k" using Suc.prems by (auto intro: Suc_lessI gr0I)
    then have "length (dec (n div 10)) \<le> k" by (rule Suc.IH [rotated])
    with False show ?thesis by (subst dec.simps) simp
  qed (subst dec.simps, simp)
qed simp

lemma undec_append: "undec (xs @ [c]) = 10 * undec xs + (c - 48)"
  by (simp add: undec_def)

lemma undec_dec [simp, text_simps]: "undec (dec n) = n"
proof (induction n rule: dec.induct)
  case (1 n)
  show ?case
  proof (cases "n < 10")
    case True
    then show ?thesis by (subst dec.simps) (simp add: undec_def)
  next
    case False
    with 1 show ?thesis by (subst dec.simps) (simp add: undec_append)
  qed
qed

lemma hd_dec: "0 < n \<Longrightarrow> hd (dec n) \<noteq> 48"
proof (induction n rule: dec.induct)
  case (1 n)
  show ?case
  proof (cases "n < 10")
    case True
    with 1 show ?thesis by (subst dec.simps) simp
  next
    case False
    with 1 have "hd (dec (n div 10)) \<noteq> 48" by simp
    with False show ?thesis by (subst dec.simps) simp
  qed
qed

lemma is_hex_hex_digit: "n < 16 \<Longrightarrow> is_hex (hex_digit n)"
  by (auto simp: is_hex_def hex_digit_def)

lemma unhex_hex_digit [simp]: "n < 16 \<Longrightarrow> unhex (hex_digit n) = n"
  by (auto simp: unhex_def hex_digit_def)

lemma unat_byte_bound: "unat (b :: byte) < 256"
  using unsigned_less [of b] by simp

lemma unat_byte_of [simp, text_simps]: "n < 256 \<Longrightarrow> unat (byte_of n) = n"
  by (simp add: byte_of_def unat_of_nat take_bit_nat_eq_self)

lemma byte_of_unat [simp, text_simps]: "byte_of (unat b) = b"
  by (simp add: byte_of_def)

lemma length_hexlify [simp, text_simps]: "length (hexlify bs) = 2 * length bs"
  by (induction bs) (simp_all add: hexlify_def hex_byte_def)

lemma hexlify_hex: "c \<in> set (hexlify bs) \<Longrightarrow> is_hex c"
proof (induction bs)
  case (Cons b bs)
  have "unat b div 16 < 16" using unat_byte_bound [of b] by simp
  with Cons show ?case by (auto simp: hexlify_def hex_byte_def intro: is_hex_hex_digit)
qed (simp add: hexlify_def)

lemma fromhex_hexlify [simp, text_simps]: "fromhex (hexlify bs) = bs"
proof (induction bs)
  case (Cons b bs)
  have "unat b div 16 < 16" using unat_byte_bound [of b] by simp
  then have "byte_of (16 * unhex (hex_digit (unat b div 16)) + unhex (hex_digit (unat b mod 16))) = b"
    by simp
  with Cons show ?case by (simp add: hexlify_def hex_byte_def)
qed (simp add: hexlify_def)

section \<open>UTF-8\<close>

definition is_surrogate :: "nat \<Rightarrow> bool" where
  "is_surrogate c \<longleftrightarrow> 0xD800 \<le> c \<and> c \<le> 0xDFFF"

definition wf_char :: "nat \<Rightarrow> bool" where
  "wf_char c \<longleftrightarrow> c < 0x110000"

text \<open>A text of Unicode scalar values: code points that are not surrogates.\<close>

definition scalar_str :: "pystr \<Rightarrow> bool" where
  "scalar_str s \<longleftrightarrow> list_all (\<lambda>c. c < 0x110000 \<and> \<not> is_surrogate c) s"

definition utf8_char :: "nat \<Rightarrow> bytestr" where
  "utf8_char c =
     (if c < 0x80 then [byte_of c]
      else if c < 0x800 then
        [byte_of (0xC0 + c div 64), byte_of (0x80 + c mod 64)]
      else if c < 0x10000 then
        [byte_of (0xE0 + c div 4096), byte_of (0x80 + c div 64 mod 64),
         byte_of (0x80 + c mod 64)]
      else
        [byte_of (0xF0 + c div 262144), byte_of (0x80 + c div 4096 mod 64),
         byte_of (0x80 + c div 64 mod 64), byte_of (0x80 + c mod 64)])"

text \<open>\<^verbatim>\<open>s.encode("utf-8")\<close>; \<open>None\<close> is \<^verbatim>\<open>UnicodeEncodeError\<close>.\<close>

definition encode_utf8 :: "pystr \<Rightarrow> bytestr option" where
  "encode_utf8 s =
     (if list_ex is_surrogate s then None else Some (concat (map utf8_char s)))"

definition is_cont :: "byte \<Rightarrow> bool" where
  "is_cont b \<longleftrightarrow> 0x80 \<le> unat b \<and> unat b < 0xC0"

text \<open>
  \<^verbatim>\<open>b.decode("utf-8")\<close>, with the error handler \<^verbatim>\<open>surrogatepass\<close> when the first argument is
  true; \<open>None\<close> is \<^verbatim>\<open>UnicodeDecodeError\<close>. Overlong forms and values past U+10FFFF are errors.
\<close>

fun decode_utf8 :: "bool \<Rightarrow> bytestr \<Rightarrow> pystr option" where
  "decode_utf8 sp [] = Some []"
| "decode_utf8 sp (b # bs) =
     (let x = unat b in
      if x < 0x80 then map_option (Cons x) (decode_utf8 sp bs)
      else if x < 0xC2 then None
      else if x < 0xE0 then
        (case bs of
           b1 # r \<Rightarrow>
             if is_cont b1
             then map_option (Cons ((x - 0xC0) * 64 + (unat b1 - 0x80))) (decode_utf8 sp r)
             else None
         | _ \<Rightarrow> None)
      else if x < 0xF0 then
        (case bs of
           b1 # b2 # r \<Rightarrow>
             (let c = (x - 0xE0) * 4096 + (unat b1 - 0x80) * 64 + (unat b2 - 0x80) in
              if is_cont b1 \<and> is_cont b2 \<and> 0x800 \<le> c \<and> (sp \<or> \<not> is_surrogate c)
              then map_option (Cons c) (decode_utf8 sp r) else None)
         | _ \<Rightarrow> None)
      else if x < 0xF5 then
        (case bs of
           b1 # b2 # b3 # r \<Rightarrow>
             (let c = (x - 0xF0) * 262144 + (unat b1 - 0x80) * 4096
                        + (unat b2 - 0x80) * 64 + (unat b3 - 0x80) in
              if is_cont b1 \<and> is_cont b2 \<and> is_cont b3 \<and> 0x10000 \<le> c \<and> c < 0x110000
              then map_option (Cons c) (decode_utf8 sp r) else None)
         | _ \<Rightarrow> None)
      else None)"

lemma split64_3: "c div 4096 * 4096 + c div 64 mod 64 * 64 + c mod 64 = (c :: nat)"
proof -
  have "c div 4096 = c div 64 div 64" by (simp add: div_mult2_eq [symmetric])
  moreover have "c div 64 div 64 * 64 + c div 64 mod 64 = c div 64" and "c div 64 * 64 + c mod 64 = c"
    by simp_all
  ultimately show ?thesis by linarith
qed

lemma split64_4:
  "c div 262144 * 262144 + c div 4096 mod 64 * 4096 + c div 64 mod 64 * 64 + c mod 64 = (c :: nat)"
proof -
  have "c div 64 div 4096 = c div 262144" and "c div 64 div 64 = c div 4096"
    by (simp_all add: div_mult2_eq [symmetric])
  with split64_3 [of "c div 64"] have
    "c div 262144 * 4096 + c div 4096 mod 64 * 64 + c div 64 mod 64 = c div 64" by simp
  moreover have "c div 64 * 64 + c mod 64 = c" by simp
  ultimately show ?thesis by linarith
qed

lemma decode_utf8_char:
  assumes "c < 0x110000" and "\<not> is_surrogate c"
  shows "decode_utf8 sp (utf8_char c @ bs) = map_option (Cons c) (decode_utf8 sp bs)"
proof -
  have m: "k mod 64 < 64" for k :: nat by simp
  consider "c < 0x80" | "0x80 \<le> c" "c < 0x800" | "0x800 \<le> c" "c < 0x10000" | "0x10000 \<le> c"
    by linarith
  then show ?thesis
  proof cases
    case 1
    then show ?thesis by (simp add: utf8_char_def)
  next
    case 2
    then have "c div 64 < 32" "2 \<le> c div 64" by auto
    with 2 show ?thesis by (simp add: utf8_char_def is_cont_def Let_def)
  next
    case 3
    then have "c div 4096 < 16" by auto
    with 3 assms m [of c] m [of "c div 64"] show ?thesis
      by (simp add: utf8_char_def is_cont_def split64_3 Let_def)
  next
    case 4
    then have "c div 262144 < 5" using assms by auto
    with 4 assms m [of c] m [of "c div 64"] m [of "c div 4096"] show ?thesis
      by (simp add: utf8_char_def is_cont_def split64_4 Let_def)
  qed
qed

lemma decode_concat_utf8:
  "scalar_str s \<Longrightarrow> decode_utf8 sp (concat (map utf8_char s)) = Some s"
  by (induction s) (auto simp: scalar_str_def decode_utf8_char)

lemma encode_utf8_scalar:
  "scalar_str s \<Longrightarrow> encode_utf8 s = Some (concat (map utf8_char s))"
  by (auto simp: encode_utf8_def scalar_str_def list_ex_iff list_all_iff)

lemma scalar_str_append [simp]: "scalar_str (s @ t) \<longleftrightarrow> scalar_str s \<and> scalar_str t"
  by (simp add: scalar_str_def)

lemma scalar_str_Cons [simp]:
  "scalar_str (c # s) \<longleftrightarrow> (c < 0x110000 \<and> \<not> is_surrogate c) \<and> scalar_str s"
  by (simp add: scalar_str_def)

lemma scalar_str_Nil [simp]: "scalar_str []"
  by (simp add: scalar_str_def)

lemma scalar_str_ascii: "(\<And>c. c \<in> set s \<Longrightarrow> c < 256) \<Longrightarrow> scalar_str s"
  by (force simp: scalar_str_def list_all_iff is_surrogate_def)

lemma scalar_lit [simp, intro]: "scalar_str (lit s)"
  by (rule scalar_str_ascii) (rule lit_bound)

lemma scalar_dec [simp, intro]: "scalar_str (dec n)"
  by (rule scalar_str_ascii) (auto dest!: dec_digits simp: is_digit_def)

lemma scalar_hexlify [simp, intro]: "scalar_str (hexlify bs)"
  by (rule scalar_str_ascii) (auto dest!: hexlify_hex simp: is_hex_def)

lemma byte_of_eq_iff: "m < 256 \<Longrightarrow> n < 256 \<Longrightarrow> byte_of m = byte_of n \<longleftrightarrow> m = n"
  using unat_byte_of by metis

lemma utf8_char_no_lf:
  assumes "c \<noteq> 10" and "c < 0x110000"
  shows "byte_of 10 \<notin> set (utf8_char c)"
proof -
  have m: "k mod 64 < 64" for k :: nat by simp
  have "c div 64 < 32" if "c < 0x800" using that by auto
  moreover have "c div 4096 < 16" if "c < 0x10000" using that by auto
  moreover have "c div 262144 < 5" using assms by auto
  ultimately show ?thesis
    using assms m [of c] m [of "c div 64"] m [of "c div 4096"]
    by (simp add: utf8_char_def byte_of_eq_iff)
qed

end
