(* ===== verification/Py_Float.thy ===== *)
theory Py_Float
  imports Prelude "HOL-Library.Log_Nat"
begin

text \<open>
  Python's \<^verbatim>\<open>float\<close>: IEEE 754 binary64 as its 64 bits. The theory has the classification and
  comparison of values, correctly rounded conversion from a decimal or a ratio (what
  \<^verbatim>\<open>float(text)\<close> and \<^verbatim>\<open>float(int)\<close> compute), and \<^verbatim>\<open>float.__repr__\<close>: the shortest decimal that
  reads back as the same bits, nearest to the value among the shortest, with CPython's layout.
  The main lemma is that 17 significant digits always suffice (\<open>shortest_17\<close>), so the printed
  text of a finite value reads back to the identical bits (\<open>float_text_read\<close>).
\<close>

type_synonym f64 = "64 word"

section \<open>Bits\<close>

text \<open>
  A value is a sign bit and a magnitude below \<open>2 ^ 63\<close>; magnitudes order as the values do. The
  magnitude \<open>M\<close> of a finite value is its mantissa plus \<open>2 ^ 52\<close> times its exponent, and the
  value is \<open>mag_mant M * 2 ^ mag_exp M\<close> units of \<open>2 ^ -1074\<close>.
\<close>

definition f64_neg :: "f64 \<Rightarrow> bool" where
  "f64_neg x \<longleftrightarrow> 9223372036854775808 \<le> unat x"

definition f64_mag :: "f64 \<Rightarrow> nat" where
  "f64_mag x = unat x mod 9223372036854775808"

definition mk_f64 :: "bool \<Rightarrow> nat \<Rightarrow> f64" where
  "mk_f64 neg m = word_of_nat ((if neg then 9223372036854775808 else 0) + m)"

definition inf_mag :: nat where
  "inf_mag = 9218868437227405312"

definition f64_isnan :: "f64 \<Rightarrow> bool" where
  "f64_isnan x \<longleftrightarrow> inf_mag < f64_mag x"

text \<open>\<^verbatim>\<open>math.isfinite\<close> on a float.\<close>

definition f64_isfinite :: "f64 \<Rightarrow> bool" where
  "f64_isfinite x \<longleftrightarrow> f64_mag x < inf_mag"

definition f64_key :: "f64 \<Rightarrow> int" where
  "f64_key x = (if f64_neg x then - int (f64_mag x) else int (f64_mag x))"

text \<open>The comparison \<^verbatim>\<open>x <= y\<close> of two floats: false when either is NaN; the zeros are equal.\<close>

definition f64_le :: "f64 \<Rightarrow> f64 \<Rightarrow> bool" where
  "f64_le x y \<longleftrightarrow> \<not> f64_isnan x \<and> \<not> f64_isnan y \<and> f64_key x \<le> f64_key y"

definition f64_zero :: f64 where
  "f64_zero = mk_f64 False 0"

definition f64_one :: f64 where
  "f64_one = mk_f64 False 4607182418800017408"

definition mag_mant :: "nat \<Rightarrow> nat" where
  "mag_mant M = (if M < 4503599627370496 then M else 4503599627370496 + M mod 4503599627370496)"

definition mag_exp :: "nat \<Rightarrow> nat" where
  "mag_exp M = (if M < 4503599627370496 then 0 else M div 4503599627370496 - 1)"

definition f64_unit :: nat where
  "f64_unit = 2 ^ 1074"

definition mag_val :: "nat \<Rightarrow> nat" where
  "mag_val M = mag_mant M * 2 ^ mag_exp M"

section \<open>Correct rounding\<close>

definition round_half_even :: "nat \<Rightarrow> nat \<Rightarrow> nat" where
  "round_half_even n d =
     (let q = n div d; r = n mod d in
      if 2 * r < d then q else if d < 2 * r then q + 1 else if even q then q else q + 1)"

text \<open>The magnitude nearest to \<open>N / d\<close> units, ties to the even mantissa.\<close>

definition round_units :: "nat \<Rightarrow> nat \<Rightarrow> nat" where
  "round_units N d =
     (let e = floorlog 2 (N div d) - 53 in
      e * 4503599627370496 + round_half_even N (d * 2 ^ e))"

text \<open>The magnitude of the decimal \<open>c * 10 ^ (- s)\<close>, before overflow to infinity.\<close>

definition dec_mag :: "nat \<Rightarrow> int \<Rightarrow> nat" where
  "dec_mag c s =
     (if 0 \<le> s then round_units (c * f64_unit) (10 ^ nat s)
      else round_units (c * 10 ^ nat (- s) * f64_unit) 1)"

text \<open>\<^verbatim>\<open>float(text)\<close> of a decimal text with this sign, digits and scale: past the range, infinity.\<close>

definition f64_of_dec :: "bool \<Rightarrow> nat \<Rightarrow> int \<Rightarrow> f64" where
  "f64_of_dec neg c s = mk_f64 neg (min (dec_mag c s) inf_mag)"

text \<open>\<^verbatim>\<open>float(n)\<close> of an \<^verbatim>\<open>int\<close>: \<open>None\<close> is the \<^verbatim>\<open>OverflowError\<close> of a value that rounds past the range.\<close>

definition f64_of_int :: "int \<Rightarrow> f64 option" where
  "f64_of_int n =
     (let m = dec_mag (nat \<bar>n\<bar>) 0 in if m < inf_mag then Some (mk_f64 (n < 0) m) else None)"

section \<open>Shortest decimal\<close>

text \<open>The decimal exponent of a positive value: the largest \<open>k\<close> with \<open>10 ^ k\<close> at most the value.\<close>

definition dec_exp :: "nat \<Rightarrow> int" where
  "dec_exp M =
     (let v = mag_val M in
      if f64_unit \<le> v then int (floorlog 10 (v div f64_unit)) - 1
      else - int (floorlog 10 ((f64_unit + v - 1) div v - 1)))"

text \<open>The value scaled by \<open>10 ^ s\<close>, as a ratio.\<close>

definition scaled_num :: "nat \<Rightarrow> int \<Rightarrow> nat" where
  "scaled_num M s = (if 0 \<le> s then mag_val M * 10 ^ nat s else mag_val M)"

definition scaled_den :: "int \<Rightarrow> nat" where
  "scaled_den s = (if 0 \<le> s then f64_unit else f64_unit * 10 ^ nat (- s))"

text \<open>
  The candidates with \<open>p\<close> significant digits are the two neighbours of the scaled value; the
  nearer one that reads back as \<open>M\<close> is taken.
\<close>

definition shortest_at :: "nat \<Rightarrow> nat \<Rightarrow> (nat \<times> int) option" where
  "shortest_at M p =
     (let s = int p - 1 - dec_exp M;
          n = scaled_num M s; d = scaled_den s;
          near = round_half_even n d;
          far = 2 * (n div d) + 1 - near
      in if dec_mag near s = M then Some (near, s)
         else if dec_mag far s = M then Some (far, s) else None)"

fun shortest_from :: "nat \<Rightarrow> nat \<Rightarrow> nat \<Rightarrow> (nat \<times> int) option" where
  "shortest_from M p 0 = None"
| "shortest_from M p (Suc k) =
     (case shortest_at M p of Some r \<Rightarrow> Some r | None \<Rightarrow> shortest_from M (Suc p) k)"

definition shortest :: "nat \<Rightarrow> nat \<times> int" where
  "shortest M = the (shortest_from M 1 17)"

fun strip_zeros :: "nat \<Rightarrow> int \<Rightarrow> nat \<times> int" where
  "strip_zeros c s = (if 0 < c \<and> c mod 10 = 0 then strip_zeros (c div 10) (s - 1) else (c, s))"

declare strip_zeros.simps [simp del]

text \<open>
  The layout of \<^verbatim>\<open>float.__repr__\<close>: fixed-point when the adjusted exponent \<open>k\<close> is in
  \<open>-4 \<le> k < 16\<close>, scientific otherwise, the exponent with its sign and at least two digits.
\<close>

definition layout_dec :: "nat \<Rightarrow> int \<Rightarrow> pystr" where
  "layout_dec c s =
     (let ds = dec c; n = int (length ds); k = n - 1 - s in
      if -4 \<le> k \<and> k < 16 then
        (if k < 0 then lit ''0.'' @ replicate (nat (- k - 1)) 48 @ ds
         else if n \<le> k + 1 then ds @ replicate (nat (k + 1 - n)) 48 @ lit ''.0''
         else take (nat (k + 1)) ds @ lit ''.'' @ drop (nat (k + 1)) ds)
      else
        take 1 ds @ (if 1 < n then lit ''.'' @ drop 1 ds else []) @ lit ''e'' @
        (if k < 0 then lit ''-'' else lit ''+'') @
        (if nat \<bar>k\<bar> < 10 then 48 # dec (nat \<bar>k\<bar>) else dec (nat \<bar>k\<bar>)))"

definition float_text :: "f64 \<Rightarrow> pystr" where
  "float_text x =
     (if f64_neg x then lit ''-'' else []) @
     (if f64_mag x = 0 then lit ''0.0''
      else case shortest (f64_mag x) of (c, s) \<Rightarrow>
             (case strip_zeros c s of (c', s') \<Rightarrow> layout_dec c' s'))"

section \<open>Lemmas: magnitudes\<close>

lemma f64_unit_pos [simp]: "0 < f64_unit"
  by (simp add: f64_unit_def)

lemma f64_parts: "mk_f64 (f64_neg x) (f64_mag x) = x"
proof -
  have "unat x < 18446744073709551616" using unsigned_less [of x] by simp
  then have "(if f64_neg x then 9223372036854775808 else 0) + f64_mag x = unat x"
    by (auto simp: f64_neg_def f64_mag_def mod_nat_eqI le_mod_geq)
  then have "mk_f64 (f64_neg x) (f64_mag x) = word_of_nat (unat x)"
    unfolding mk_f64_def by (rule arg_cong)
  then show ?thesis by simp
qed

lemma mag_decomp: "mag_exp M * 4503599627370496 + mag_mant M = M"
proof (cases "M < 4503599627370496")
  case True
  then show ?thesis by (simp add: mag_exp_def mag_mant_def)
next
  case False
  then have "1 \<le> M div 4503599627370496" by simp
  then obtain q where "M div 4503599627370496 = Suc q" by (cases "M div 4503599627370496") auto
  moreover have "M div 4503599627370496 * 4503599627370496 + M mod 4503599627370496 = M" by simp
  ultimately show ?thesis using False by (simp add: mag_exp_def mag_mant_def)
qed

lemma mag_mant_less: "mag_mant M < 9007199254740992"
  using mod_less_divisor [of 4503599627370496 M] by (auto simp: mag_mant_def)

lemma mag_mant_ge: "0 < mag_exp M \<Longrightarrow> 4503599627370496 \<le> mag_mant M"
  by (auto simp: mag_mant_def mag_exp_def split: if_splits)

lemma mag_mant_pos: "0 < M \<Longrightarrow> 0 < mag_mant M"
  by (auto simp: mag_mant_def)

lemma mag_val_pos: "0 < M \<Longrightarrow> 0 < mag_val M"
  using mag_mant_pos by (simp add: mag_val_def)

section \<open>Lemmas: rounding\<close>

lemma round_half_even_near:
  assumes "0 < d" and "2 * n < (2 * m + 1) * d" and "(2 * m) * d < 2 * n + d"
  shows "round_half_even n d = m"
proof -
  define q r where "q = n div d" and "r = n mod d"
  have n: "n = q * d + r" and r: "r < d" using assms(1) by (simp_all add: q_def r_def)
  have "q = m \<or> Suc q = m"
  proof -
    have "2 * (q * d) < (2 * m + 1) * d" using assms(2) n by linarith
    then have "2 * q < 2 * m + 1" using assms(1) by (metis mult.assoc mult_less_cancel2)
    moreover have "(2 * m) * d < (2 * q + 3) * d" using assms(3) n r by (simp add: algebra_simps)
    then have "2 * m < 2 * q + 3" using assms(1) by (metis mult_less_cancel2)
    ultimately show ?thesis by linarith
  qed
  then show ?thesis
  proof
    assume "q = m"
    with assms n have "2 * r < d" by (simp add: algebra_simps)
    with \<open>q = m\<close> show ?thesis by (simp add: round_half_even_def Let_def q_def r_def)
  next
    assume "Suc q = m"
    with assms(3) n have "(2 * Suc q) * d < 2 * (q * d + r) + d" by simp
    then have "d < 2 * r" by (simp add: algebra_simps)
    with \<open>Suc q = m\<close> show ?thesis by (simp add: round_half_even_def Let_def q_def r_def)
  qed
qed

lemma round_half_even_close:
  assumes "0 < d"
  shows "2 * (round_half_even n d * d) \<le> 2 * n + d" and "2 * n \<le> 2 * (round_half_even n d * d) + d"
proof -
  define q r where "q = n div d" and "r = n mod d"
  have "n = q * d + r" "r < d" using assms by (simp_all add: q_def r_def)
  then show "2 * (round_half_even n d * d) \<le> 2 * n + d" and "2 * n \<le> 2 * (round_half_even n d * d) + d"
    by (simp_all add: round_half_even_def Let_def algebra_simps flip: q_def r_def)
qed

lemma round_half_even_scale: "0 < a \<Longrightarrow> round_half_even (n * a) (d * a) = round_half_even n d"
  by (simp add: round_half_even_def Let_def mult.assoc [symmetric])

lemma round_units_scale:
  assumes "0 < a"
  shows "round_units (N * a) (d * a) = round_units N d"
  using assms round_half_even_scale [of a N "d * 2 ^ (floorlog 2 (N div d) - 53)"]
  by (simp add: round_units_def Let_def ac_simps)

lemma round_units_exp:
  assumes "0 < d" and "N < 2 ^ (53 + e) * d" and "e = 0 \<or> 2 ^ (52 + e) * d \<le> N"
  shows "round_units N d = e * 4503599627370496 + round_half_even N (d * 2 ^ e)"
proof -
  have "N div d < 2 ^ (53 + e)" using assms(1,2) by (simp add: less_mult_imp_div_less)
  then have "floorlog 2 (N div d) \<le> 53 + e" by (intro floorlog_leI) auto
  moreover have "53 + e \<le> floorlog 2 (N div d)" if "e \<noteq> 0"
  proof -
    have "2 ^ (52 + e) \<le> N div d" using assms that by (simp add: less_eq_div_iff_mult_less_eq)
    then show ?thesis using floorlog_ge_SucI [of 2 "52 + e" "N div d"] by simp
  qed
  ultimately have "floorlog 2 (N div d) - 53 = e" by (cases "e = 0") auto
  then show ?thesis by (simp add: round_units_def)
qed

lemma round_units_near:
  assumes d: "0 < d"
    and up: "2 * N < (2 * mag_mant M + 1) * (d * 2 ^ mag_exp M)"
    and lo: "2 * mag_mant M * (d * 2 ^ mag_exp M) < 2 * N + d * 2 ^ mag_exp M"
    and lo2: "mag_mant M = 4503599627370496 \<Longrightarrow>
      4 * mag_mant M * (d * 2 ^ mag_exp M) < 4 * N + d * 2 ^ mag_exp M"
  shows "round_units N d = M"
proof -
  define m e D where "m = mag_mant M" and "e = mag_exp M" and "D = d * 2 ^ e"
  have D: "0 < D" using d by (simp add: D_def)
  have m: "m < 9007199254740992" using mag_mant_less by (simp add: m_def)
  have M: "e * 4503599627370496 + m = M" using mag_decomp by (simp add: m_def e_def)
  note facts = up [folded m_def e_def, folded D_def] lo [folded m_def e_def, folded D_def]
  have pow: "2 ^ (53 + e) * d = 9007199254740992 * D" "2 ^ (52 + e) * d = 4503599627370496 * D"
    by (simp_all add: D_def power_add)
  show ?thesis
  proof (cases "e = 0 \<or> 4503599627370496 * D \<le> N")
    case True
    have "(2 * m + 1) * D \<le> 18014398509481984 * D" using m by (intro mult_le_mono1) simp
    then have "N < 2 ^ (53 + e) * d" unfolding pow using facts(1) by linarith
    moreover have "e = 0 \<or> 2 ^ (52 + e) * d \<le> N" using True by (simp only: pow)
    ultimately have "round_units N d = e * 4503599627370496 + round_half_even N D"
      unfolding D_def by (rule round_units_exp [OF d])
    also have "round_half_even N D = m" using D facts by (rule round_half_even_near)
    finally show ?thesis using M by simp
  next
    case False
    then obtain f where f: "e = Suc f" by (cases e) auto
    define D' where "D' = d * 2 ^ f"
    have D': "D = 2 * D'" "0 < D'" using d by (simp_all add: D_def D'_def f)
    have "4503599627370496 \<le> m" using mag_mant_ge [of M] f by (simp add: m_def e_def)
    moreover have "2 * m * D < 9007199254740993 * D" using facts(2) False by linarith
    then have "2 * m < 9007199254740993" using D by (metis mult_less_cancel2)
    ultimately have m52: "m = 4503599627370496" by linarith
    have lo': "18014398509481984 * D < 4 * N + D"
      using lo2 m52 by (simp add: m_def [symmetric] e_def [symmetric] D_def)
    have pow': "2 ^ (53 + f) * d = 9007199254740992 * D'" "2 ^ (52 + f) * d = 4503599627370496 * D'"
      by (simp_all add: D'_def power_add)
    have "round_units N d = f * 4503599627370496 + round_half_even N (d * 2 ^ f)"
      by (rule round_units_exp) (use d False lo' D' pow' in linarith)+
    also have "round_half_even N (d * 2 ^ f) = 9007199254740992"
      by (rule round_half_even_near, fold D'_def) (use D' False lo' in simp_all)
    finally show ?thesis using M m52 f by simp
  qed
qed

lemma dec_mag_scale: "dec_mag (c * 10 ^ j) (s + int j) = dec_mag c s"
proof (cases "0 \<le> s")
  case True
  then have "nat (s + int j) = nat s + j" by simp
  with True round_units_scale [of "10 ^ j" "c * f64_unit" "10 ^ nat s"] show ?thesis
    by (simp add: dec_mag_def power_add ac_simps)
next
  case False
  show ?thesis
  proof (cases "0 \<le> s + int j")
    case True
    then have j: "j = nat (s + int j) + nat (- s)" using False by simp
    have "10 ^ j = 10 ^ nat (s + int j) * (10 ^ nat (- s) :: nat)"
      by (subst j) (rule power_add)
    with True False round_units_scale [of "10 ^ nat (s + int j)" "c * 10 ^ nat (- s) * f64_unit" 1]
    show ?thesis by (simp add: dec_mag_def ac_simps)
  next
    case neg: False
    then have "nat (- s) = nat (- (s + int j)) + j" using False by simp
    then have "(10 :: nat) ^ nat (- s) = 10 ^ nat (- (s + int j)) * 10 ^ j"
      by (simp only: power_add)
    with neg False show ?thesis by (simp add: dec_mag_def ac_simps)
  qed
qed

section \<open>Lemmas: seventeen digits suffice\<close>

lemma round_units_close:
  assumes M: "0 < M" and d: "0 < d"
    and up: "2 * N \<le> 2 * (mag_val M * d) + X" and lo: "2 * (mag_val M * d) \<le> 2 * N + X"
    and X: "X * 10000000000000000 \<le> mag_val M * d"
  shows "round_units N d = M"
proof -
  define m D where "m = mag_mant M" and "D = d * 2 ^ mag_exp M"
  have m: "0 < m" "m < 9007199254740992" using mag_mant_less mag_mant_pos [OF M] by (simp_all add: m_def)
  have D: "0 < D" using d by (simp add: D_def)
  have v: "mag_val M * d = m * D" by (simp add: mag_val_def m_def D_def)
  have "m * D < 9007199254740992 * D" using m D by (metis mult_less_cancel2)
  then have "X * 10000000000000000 < 9007199254740992 * D" using X v by linarith
  then have XD: "X < D" by linarith
  have X2: "2 * X < D" if "m = 4503599627370496"
    using X v that D by simp
  show ?thesis
  proof (rule round_units_near [OF d], fold m_def D_def)
    show "2 * N < (2 * m + 1) * D" using up v XD by (simp add: algebra_simps)
    show "2 * m * D < 2 * N + D" using lo v XD by (simp add: algebra_simps)
    show "4 * m * D < 4 * N + D" if "m = 4503599627370496"
      using lo v X2 [OF that] by (simp add: algebra_simps)
  qed
qed

lemma dec_exp_bound:
  assumes "0 < M"
  shows "10 ^ 16 * scaled_den (16 - dec_exp M) \<le> scaled_num M (16 - dec_exp M)"
proof -
  define v where "v = mag_val M"
  have v: "0 < v" using mag_val_pos [OF assms] by (simp add: v_def)
  show ?thesis
  proof (cases "f64_unit \<le> v")
    case True
    define k where "k = floorlog 10 (v div f64_unit) - 1"
    have q: "0 < v div f64_unit" using True by (simp add: div_greater_zero_iff)
    then have "floorlog 10 (v div f64_unit) \<noteq> 0" by (simp add: floorlog_eq_zero_iff)
    then have k: "dec_exp M = int k" using True by (simp add: dec_exp_def Let_def v_def k_def)
    have "10 ^ k \<le> v div f64_unit" using floorlog_bounds [OF q, of 10] by (simp add: k_def)
    then have kv: "10 ^ k * f64_unit \<le> v" by (simp add: less_eq_div_iff_mult_less_eq)
    show ?thesis
    proof (cases "k \<le> 16")
      case True
      have "10 ^ 16 * f64_unit = 10 ^ k * f64_unit * 10 ^ (16 - k)"
        using True by (simp add: ac_simps flip: power_add)
      also have "\<dots> \<le> v * 10 ^ (16 - k)" using kv by (rule mult_le_mono1)
      finally show ?thesis using True k
        by (simp add: scaled_num_def scaled_den_def v_def nat_diff_distrib)
    next
      case False
      then have "nat (dec_exp M - 16) + 16 = k" using k by simp
      then have "10 ^ 16 * (f64_unit * 10 ^ nat (dec_exp M - 16)) = 10 ^ k * f64_unit"
        by (metis (no_types, lifting) mult.assoc mult.commute power_add)
      moreover have "scaled_den (16 - dec_exp M) = f64_unit * 10 ^ nat (dec_exp M - 16)"
        and "scaled_num M (16 - dec_exp M) = v"
        using False k by (simp_all add: scaled_num_def scaled_den_def v_def)
      ultimately show ?thesis using kv by (simp only:)
    qed
  next
    case False
    define c j where "c = (f64_unit + v - 1) div v" and "j = floorlog 10 (c - 1)"
    have k: "dec_exp M = - int j" using False by (simp add: dec_exp_def Let_def v_def c_def j_def)
    have "c - 1 < 10 ^ j"
      using floorlog_leD [of 10 "c - 1" j] by (simp add: j_def)
    then have "c \<le> 10 ^ j" by simp
    then have "c * v \<le> 10 ^ j * v" by (rule mult_le_mono1)
    moreover have "f64_unit \<le> c * v"
    proof -
      have "f64_unit + v - 1 = c * v + (f64_unit + v - 1) mod v" by (simp add: c_def)
      moreover have "(f64_unit + v - 1) mod v < v" using v by simp
      ultimately show ?thesis by linarith
    qed
    ultimately have "f64_unit \<le> v * 10 ^ j" using mult.commute [of v "10 ^ j"] by linarith
    then have "10 ^ 16 * f64_unit \<le> 10 ^ 16 * (v * 10 ^ j)" by simp
    also have "\<dots> = v * 10 ^ (16 + j)" by (simp add: power_add)
    finally show ?thesis using k
      by (simp add: scaled_num_def scaled_den_def v_def nat_add_distrib)
  qed
qed

lemma shortest_17:
  assumes "0 < M"
  shows "shortest_at M 17 \<noteq> None"
proof -
  define s where "s = 16 - dec_exp M"
  define n d where "n = scaled_num M s" and "d = scaled_den s"
  define c where "c = round_half_even n d"
  have d: "0 < d" by (simp add: d_def scaled_den_def)
  have big: "10 ^ 16 * d \<le> n" using dec_exp_bound [OF assms] by (simp add: n_def d_def s_def)
  note close = round_half_even_close [OF d, of n, folded c_def]
  have "dec_mag c s = M"
  proof (cases "0 \<le> s")
    case True
    then have nd: "n = mag_val M * 10 ^ nat s" "d = f64_unit"
      by (simp_all add: n_def d_def scaled_num_def scaled_den_def)
    have "round_units (c * f64_unit) (10 ^ nat s) = M"
      by (rule round_units_close [OF assms, where X = d]) (use close big nd in simp_all)
    with True show ?thesis by (simp add: dec_mag_def)
  next
    case False
    then have nd: "n = mag_val M" "d = f64_unit * 10 ^ nat (- s)"
      by (simp_all add: n_def d_def scaled_num_def scaled_den_def)
    have "round_units (c * 10 ^ nat (- s) * f64_unit) 1 = M"
      by (rule round_units_close [OF assms, where X = d]) (use close big nd in \<open>simp_all add: ac_simps\<close>)
    with False show ?thesis by (simp add: dec_mag_def)
  qed
  then show ?thesis
    by (simp add: shortest_at_def Let_def c_def n_def d_def s_def)
qed

lemma shortest_at_sound: "shortest_at M p = Some (c, s) \<Longrightarrow> dec_mag c s = M"
  by (auto simp: shortest_at_def Let_def split: if_splits)

lemma shortest_from_sound: "shortest_from M p k = Some (c, s) \<Longrightarrow> dec_mag c s = M"
  by (induction M p k rule: shortest_from.induct)
    (auto split: option.splits dest: shortest_at_sound)

lemma shortest_from_total:
  "p \<le> q \<Longrightarrow> q < p + k \<Longrightarrow> shortest_at M q \<noteq> None \<Longrightarrow> shortest_from M p k \<noteq> None"
proof (induction M p k rule: shortest_from.induct)
  case (2 M p k)
  then show ?case by (cases "p = q") (auto split: option.splits)
qed simp

lemma shortest_sound:
  assumes "0 < M"
  shows "case shortest M of (c, s) \<Rightarrow> dec_mag c s = M"
proof -
  obtain c s where "shortest_from M 1 17 = Some (c, s)"
    using shortest_from_total [of 1 17 17 M] shortest_17 [OF assms] by fastforce
  then show ?thesis using shortest_from_sound by (simp add: shortest_def)
qed

lemma strip_zeros_sound: "strip_zeros c s = (c', s') \<Longrightarrow> dec_mag c' s' = dec_mag c s"
proof (induction c s rule: strip_zeros.induct)
  case (1 c s)
  show ?case
  proof (cases "0 < c \<and> c mod 10 = 0")
    case True
    then have "strip_zeros (c div 10) (s - 1) = (c', s')"
      using "1.prems" by (simp add: strip_zeros.simps [of c s])
    then have "dec_mag c' s' = dec_mag (c div 10) (s - 1)" using "1.IH" True by simp
    also have "\<dots> = dec_mag (c div 10 * 10 ^ 1) (s - 1 + int 1)" by (rule dec_mag_scale [symmetric])
    also have "c div 10 * 10 ^ 1 = c" using True by (simp add: div_mult_mod_eq mult_div_mod_eq dvd_eq_mod_eq_0)
    finally show ?thesis by simp
  next
    case False
    then show ?thesis using "1.prems" by (auto simp: strip_zeros.simps [of c s])
  qed
qed

lemma dec_mag_0 [simp]: "dec_mag 0 s = 0"
  by (simp add: dec_mag_def round_units_def round_half_even_def floorlog_def)

end
