(* ===== verification/Py_Json.thy ===== *)
theory Py_Json
  imports Py_Float "HOL-Library.List_Lexorder"
begin

text \<open>
  Python values and the two directions of the \<^verbatim>\<open>json\<close> module the program uses. \<open>canon_text\<close> is
  \<^verbatim>\<open>json.dumps(value, sort_keys=True, separators=(",", ":"), ensure_ascii=False, allow_nan=False)\<close>;
  \<open>loads_text\<close> and \<open>loads_bytes\<close> are \<^verbatim>\<open>json.loads\<close> on \<^verbatim>\<open>str\<close> and on \<^verbatim>\<open>bytes\<close>, the scanner written as
  the recursive descent of CPython, with the encoding detection and the limit of 4300 digits on
  the text of an integer. The main lemma \<open>loads_canon\<close> says that reading what was written gives the
  value back, its object keys in sorted order.
\<close>

section \<open>Values\<close>

text \<open>
  \<open>KOther\<close> and \<open>POther\<close> stand for keys and values of types the \<^verbatim>\<open>json\<close> module refuses; a dictionary
  is the list of its items in insertion order.
\<close>

datatype pykey = KStr pystr | KOther nat

datatype pyval =
    PNone
  | PBool bool
  | PInt int
  | PFloat f64
  | PStr pystr
  | PList "pyval list"
  | PDict "(pykey \<times> pyval) list"
  | POther string

type_synonym pydict = "(pykey \<times> pyval) list"

definition wf_str :: "pystr \<Rightarrow> bool" where
  "wf_str s \<longleftrightarrow> list_all (\<lambda>c. c < 0x110000) s"

fun wf_key :: "pykey \<Rightarrow> bool" where
  "wf_key (KStr s) = wf_str s"
| "wf_key (KOther n) = True"

text \<open>What every Python object satisfies: code points in range, the keys of a dictionary distinct.\<close>

primrec wf_val :: "pyval \<Rightarrow> bool" where
  "wf_val PNone = True"
| "wf_val (PBool b) = True"
| "wf_val (PInt n) = True"
| "wf_val (PFloat x) = True"
| "wf_val (PStr s) = wf_str s"
| "wf_val (PList vs) = list_all id (map wf_val vs)"
| "wf_val (PDict kvs) =
     (distinct (map fst kvs) \<and> list_all (\<lambda>(k, b). wf_key k \<and> b) (map (map_prod id wf_val) kvs))"
| "wf_val (POther t) = True"

lemma pyval_induct [case_names PNone PBool PInt PFloat PStr PList PDict POther]:
  assumes "P PNone" "\<And>b. P (PBool b)" "\<And>n. P (PInt n)" "\<And>x. P (PFloat x)" "\<And>s. P (PStr s)"
    "\<And>vs. (\<And>v. v \<in> set vs \<Longrightarrow> P v) \<Longrightarrow> P (PList vs)"
    "\<And>kvs. (\<And>kv. kv \<in> set kvs \<Longrightarrow> P (snd kv)) \<Longrightarrow> P (PDict kvs)" "\<And>t. P (POther t)"
  shows "P v"
proof (induction v)
  case (PDict kvs)
  show ?case by (rule assms(7)) (use PDict in \<open>force simp: snds.simps\<close>)
qed (simp_all add: assms)

lemma wf_val_PDict [simp]:
  "wf_val (PDict kvs) \<longleftrightarrow>
     distinct (map fst kvs) \<and> (\<forall>kv \<in> set kvs. wf_key (fst kv) \<and> wf_val (snd kv))"
  by (auto simp: list_all_iff split: prod.splits)

lemma wf_val_PList [simp]: "wf_val (PList vs) \<longleftrightarrow> (\<forall>v \<in> set vs. wf_val v)"
  by (auto simp: list_all_iff)

declare wf_val.simps(6,7) [simp del]

text \<open>\<^verbatim>\<open>d.get(name)\<close> and membership \<^verbatim>\<open>name in d\<close> for a literal key.\<close>

definition dget :: "pydict \<Rightarrow> string \<Rightarrow> pyval option" where
  "dget d k = map_of d (KStr (lit k))"

definition dkeys :: "pydict \<Rightarrow> pykey list" where
  "dkeys d = map fst d"

text \<open>A text with something besides white space.\<close>

fun text_ok :: "pyval \<Rightarrow> bool" where
  "text_ok (PStr s) = (\<exists>c \<in> set s. \<not> is_space c)"
| "text_ok _ = False"

section \<open>Writing\<close>

definition escape_char :: "nat \<Rightarrow> pystr" where
  "escape_char c =
     (if c = 34 then [92, 34] else if c = 92 then [92, 92]
      else if c = 8 then [92, 98] else if c = 12 then [92, 102]
      else if c = 10 then [92, 110] else if c = 13 then [92, 114]
      else if c = 9 then [92, 116]
      else if c < 32 then [92, 117, 48, 48, hex_digit (c div 16), hex_digit (c mod 16)]
      else [c])"

definition quote :: "pystr \<Rightarrow> pystr" where
  "quote s = 34 # concat (map escape_char s) @ [34]"

fun join_comma :: "pystr list \<Rightarrow> pystr" where
  "join_comma [] = []"
| "join_comma [t] = t"
| "join_comma (t # u # ts) = t @ 44 # join_comma (u # ts)"

definition int_text :: "int \<Rightarrow> pystr" where
  "int_text n = (if n < 0 then 45 # dec (nat (- n)) else dec (nat n))"

definition max_str_digits :: nat where
  "max_str_digits = 4300"

definition array_text :: "pystr option list \<Rightarrow> pystr option" where
  "array_text ts = map_option (\<lambda>us. 91 # join_comma us @ [93]) (those ts)"

fun member_key :: "pykey \<times> pystr option \<Rightarrow> (pystr \<times> pystr) option" where
  "member_key (KStr k, t) = map_option (Pair k) t"
| "member_key (KOther n, t) = None"

definition object_text :: "(pykey \<times> pystr option) list \<Rightarrow> pystr option" where
  "object_text ms =
     map_option
       (\<lambda>kts. 123 # join_comma (map (\<lambda>(k, t). quote k @ 58 # t) (sort_key fst kts)) @ [125])
       (those (map member_key ms))"

text \<open>\<open>None\<close> is the \<^verbatim>\<open>TypeError\<close> or \<^verbatim>\<open>ValueError\<close> of a value \<^verbatim>\<open>json.dumps\<close> refuses.\<close>

primrec canon_text :: "pyval \<Rightarrow> pystr option" where
  "canon_text PNone = Some (lit ''null'')"
| "canon_text (PBool b) = Some (if b then lit ''true'' else lit ''false'')"
| "canon_text (PInt n) =
     (if length (dec (nat \<bar>n\<bar>)) \<le> max_str_digits then Some (int_text n) else None)"
| "canon_text (PFloat x) = (if f64_isfinite x then Some (float_text x) else None)"
| "canon_text (PStr s) = Some (quote s)"
| "canon_text (PList vs) = array_text (map canon_text vs)"
| "canon_text (PDict kvs) = object_text (map (map_prod id canon_text) kvs)"
| "canon_text (POther t) = None"

section \<open>Reading\<close>

text \<open>
  \<open>JSONDecodeError\<close> and \<open>UnicodeDecodeError\<close> as raised by \<^verbatim>\<open>json.loads\<close>; \<open>IntDigitsError\<close> is the plain
  \<^verbatim>\<open>ValueError\<close> of an integer literal with more than 4300 digits.
\<close>

datatype json_error = JSONDecodeError | UnicodeDecodeError | IntDigitsError

definition is_ws :: "nat \<Rightarrow> bool" where
  "is_ws c \<longleftrightarrow> c = 32 \<or> c = 9 \<or> c = 10 \<or> c = 13"

definition skip_ws :: "pystr \<Rightarrow> pystr" where
  "skip_ws s = dropWhile is_ws s"

definition strip_prefix :: "pystr \<Rightarrow> pystr \<Rightarrow> pystr option" where
  "strip_prefix p s = (if take (length p) s = p then Some (drop (length p) s) else None)"

definition hex_val :: "nat \<Rightarrow> nat option" where
  "hex_val c =
     (if 48 \<le> c \<and> c \<le> 57 then Some (c - 48)
      else if 97 \<le> c \<and> c \<le> 102 then Some (c - 87)
      else if 65 \<le> c \<and> c \<le> 70 then Some (c - 55) else None)"

fun hex4 :: "pystr \<Rightarrow> (nat \<times> pystr) option" where
  "hex4 (a # b # c # d # r) =
     (case (hex_val a, hex_val b, hex_val c, hex_val d) of
        (Some w, Some x, Some y, Some z) \<Rightarrow> Some (w * 4096 + x * 256 + y * 16 + z, r)
      | _ \<Rightarrow> None)"
| "hex4 _ = None"

text \<open>A \<^verbatim>\<open>\uXXXX\<close> escape: a high surrogate directly followed by the escape of a low one is one code point.\<close>

definition unicode_escape :: "pystr \<Rightarrow> (nat \<times> pystr) option" where
  "unicode_escape r =
     (case hex4 r of
        None \<Rightarrow> None
      | Some (u, r1) \<Rightarrow>
          (case (if 0xD800 \<le> u \<and> u \<le> 0xDBFF then strip_prefix [92, 117] r1 else None) of
             None \<Rightarrow> Some (u, r1)
           | Some r2 \<Rightarrow>
               (case hex4 r2 of
                  None \<Rightarrow> None
                | Some (u2, r3) \<Rightarrow>
                    if 0xDC00 \<le> u2 \<and> u2 \<le> 0xDFFF
                    then Some (0x10000 + (u - 0xD800) * 1024 + (u2 - 0xDC00), r3)
                    else Some (u, r1))))"

definition simple_escape :: "nat \<Rightarrow> nat option" where
  "simple_escape e =
     (if e = 34 then Some 34 else if e = 92 then Some 92 else if e = 47 then Some 47
      else if e = 98 then Some 8 else if e = 102 then Some 12 else if e = 110 then Some 10
      else if e = 114 then Some 13 else if e = 116 then Some 9 else None)"

lemma hex4_length:
  assumes "hex4 r = Some (u, r')"
  shows "length r = length r' + 4"
proof -
  obtain a b c d q where r: "r = a # b # c # d # q"
    using assms by (cases r rule: hex4.cases) auto
  with assms have "r' = q" by (auto split: option.splits)
  with r show ?thesis by simp
qed

lemma strip_prefix_length: "strip_prefix p s = Some r \<Longrightarrow> length s = length p + length r"
  by (metis append_take_drop_id length_append option.distinct(1) option.inject strip_prefix_def)

lemma unicode_escape_length: "unicode_escape r = Some (u, r') \<Longrightarrow> length r' < length r"
  unfolding unicode_escape_def
  by (auto split: option.splits prod.splits if_splits dest!: hex4_length strip_prefix_length)

text \<open>The rest of a string literal after its opening quote, with \<^verbatim>\<open>strict=True\<close>: no raw control characters.\<close>

function scan_string :: "pystr \<Rightarrow> (pystr \<times> pystr) option" where
  "scan_string [] = None"
| "scan_string (c # r) =
     (if c = 34 then Some ([], r)
      else if c = 92 then
        (case r of
           [] \<Rightarrow> None
         | e # r1 \<Rightarrow>
             if e = 117 then
               (case unicode_escape r1 of
                  None \<Rightarrow> None
                | Some (u, r2) \<Rightarrow> map_option (map_prod (Cons u) id) (scan_string r2))
             else
               (case simple_escape e of
                  None \<Rightarrow> None
                | Some u \<Rightarrow> map_option (map_prod (Cons u) id) (scan_string r1)))
      else if c < 32 then None
      else map_option (map_prod (Cons c) id) (scan_string r))"
  by pat_completeness auto
termination
  by (relation "measure length") (auto dest: unicode_escape_length)

lemma scan_string_length: "scan_string s = Some (t, r) \<Longrightarrow> length r < length s"
proof (induction s arbitrary: t r rule: scan_string.induct)
  case (2 c s)
  then show ?case
    by (fastforce split: if_splits list.splits option.splits prod.splits dest: unicode_escape_length)
qed simp

text \<open>Numbers: the integer part, the fraction and the exponent, each as long as it matches.\<close>

definition match_int :: "pystr \<Rightarrow> (pystr \<times> pystr) option" where
  "match_int s =
     (case s of
        [] \<Rightarrow> None
      | c # r \<Rightarrow>
          if c = 48 then Some ([48], r)
          else if is_digit c then Some (takeWhile is_digit s, dropWhile is_digit s) else None)"

definition match_frac :: "pystr \<Rightarrow> pystr \<times> pystr" where
  "match_frac s =
     (case s of
        [] \<Rightarrow> ([], [])
      | c # r \<Rightarrow>
          if c = 46 \<and> takeWhile is_digit r \<noteq> []
          then (takeWhile is_digit r, dropWhile is_digit r) else ([], s))"

definition match_sign :: "pystr \<Rightarrow> bool \<times> pystr" where
  "match_sign s =
     (case s of
        [] \<Rightarrow> (False, [])
      | c # r \<Rightarrow> if c = 45 then (True, r) else if c = 43 then (False, r) else (False, s))"

definition match_exp :: "pystr \<Rightarrow> int option \<times> pystr" where
  "match_exp s =
     (case s of
        [] \<Rightarrow> (None, [])
      | c # r \<Rightarrow>
          (case match_sign r of (neg, r1) \<Rightarrow>
             if (c = 101 \<or> c = 69) \<and> takeWhile is_digit r1 \<noteq> []
             then (Some (if neg then - int (undec (takeWhile is_digit r1))
                         else int (undec (takeWhile is_digit r1))), dropWhile is_digit r1)
             else (None, s)))"

definition scan_number :: "pystr \<Rightarrow> json_error + pyval \<times> pystr" where
  "scan_number s =
     (let neg = (s \<noteq> [] \<and> hd s = 45); s1 = (if neg then tl s else s) in
      case match_int s1 of
        None \<Rightarrow> Inl JSONDecodeError
      | Some (di, r) \<Rightarrow>
          (case match_frac r of (df, r1) \<Rightarrow>
             (case match_exp r1 of (ex, r2) \<Rightarrow>
                if df = [] \<and> ex = None then
                  (if max_str_digits < length di then Inl IntDigitsError
                   else Inr (PInt (if neg then - int (undec di) else int (undec di)), r2))
                else
                  Inr (PFloat (f64_of_dec neg (undec (di @ df))
                         (int (length df) - (case ex of None \<Rightarrow> 0 | Some e \<Rightarrow> e))), r2))))"

definition f64_nan :: f64 where
  "f64_nan = mk_f64 False 9221120237041090560"

definition f64_inf :: "bool \<Rightarrow> f64" where
  "f64_inf neg = mk_f64 neg inf_mag"

text \<open>The constants the scanner knows, \<^verbatim>\<open>NaN\<close> and the infinities included.\<close>

definition scan_constant :: "pystr \<Rightarrow> (pyval \<times> pystr) option" where
  "scan_constant s =
     (case strip_prefix (lit ''null'') s of Some r \<Rightarrow> Some (PNone, r) | None \<Rightarrow>
     (case strip_prefix (lit ''true'') s of Some r \<Rightarrow> Some (PBool True, r) | None \<Rightarrow>
     (case strip_prefix (lit ''false'') s of Some r \<Rightarrow> Some (PBool False, r) | None \<Rightarrow>
     (case strip_prefix (lit ''NaN'') s of Some r \<Rightarrow> Some (PFloat f64_nan, r) | None \<Rightarrow>
     (case strip_prefix (lit ''Infinity'') s of Some r \<Rightarrow> Some (PFloat (f64_inf False), r) | None \<Rightarrow>
     (case strip_prefix (lit ''-Infinity'') s of Some r \<Rightarrow> Some (PFloat (f64_inf True), r)
      | None \<Rightarrow> None))))))"

lemma skip_ws_length: "length (skip_ws s) \<le> length s"
  by (simp add: skip_ws_def length_dropWhile_le)

text \<open>
  The value at the start of the text and the rest of the text. \<open>scan_items\<close> and \<open>scan_members\<close> stand
  at the first element or key of an array or object that is not empty. Every text a recursive
  call is made on is shorter than the caller's; the tests of that in the code are always true
  (\<open>scan_once_length\<close>).
\<close>

function scan_once :: "pystr \<Rightarrow> json_error + pyval \<times> pystr"
  and scan_items :: "pyval list \<Rightarrow> pystr \<Rightarrow> json_error + pyval \<times> pystr"
  and scan_members :: "pydict \<Rightarrow> pystr \<Rightarrow> json_error + pyval \<times> pystr" where
  "scan_once s =
     (case s of
        [] \<Rightarrow> Inl JSONDecodeError
      | c # r \<Rightarrow>
          if c = 34 then
            (case scan_string r of
               None \<Rightarrow> Inl JSONDecodeError | Some (t, r1) \<Rightarrow> Inr (PStr t, r1))
          else if c = 123 then
            (case skip_ws r of
               [] \<Rightarrow> Inl JSONDecodeError
             | d # r1 \<Rightarrow> if d = 125 then Inr (PDict [], r1) else scan_members [] (skip_ws r))
          else if c = 91 then
            (case skip_ws r of
               [] \<Rightarrow> Inl JSONDecodeError
             | d # r1 \<Rightarrow> if d = 93 then Inr (PList [], r1) else scan_items [] (skip_ws r))
          else
            (case scan_constant s of Some vr \<Rightarrow> Inr vr | None \<Rightarrow> scan_number s))"
| "scan_items acc s =
     (case scan_once s of
        Inl e \<Rightarrow> Inl e
      | Inr (v, r) \<Rightarrow>
          (case skip_ws r of
             [] \<Rightarrow> Inl JSONDecodeError
           | d # r1 \<Rightarrow>
               if d = 93 then Inr (PList (acc @ [v]), r1)
               else if d = 44 \<and> length (skip_ws r1) < length s then scan_items (acc @ [v]) (skip_ws r1)
               else Inl JSONDecodeError))"
| "scan_members acc s =
     (case s of
        [] \<Rightarrow> Inl JSONDecodeError
      | c # r \<Rightarrow>
          if c \<noteq> 34 then Inl JSONDecodeError
          else (case scan_string r of
             None \<Rightarrow> Inl JSONDecodeError
           | Some (k, r1) \<Rightarrow>
               (case skip_ws r1 of
                  [] \<Rightarrow> Inl JSONDecodeError
                | d # r2 \<Rightarrow>
                    if d = 58 \<and> length (skip_ws r2) < length s then
                      (case scan_once (skip_ws r2) of
                         Inl e \<Rightarrow> Inl e
                       | Inr (v, r3) \<Rightarrow>
                           (case skip_ws r3 of
                              [] \<Rightarrow> Inl JSONDecodeError
                            | d' # r4 \<Rightarrow>
                                if d' = 125 then Inr (PDict (AList.update (KStr k) v acc), r4)
                                else if d' = 44 \<and> length (skip_ws r4) < length s
                                then scan_members (AList.update (KStr k) v acc) (skip_ws r4)
                                else Inl JSONDecodeError))
                    else Inl JSONDecodeError)))"
  by pat_completeness auto

termination
proof (relation "measure (case_sum (\<lambda>s. 2 * length s)
    (case_sum (\<lambda>(a, s). 2 * length s + 1) (\<lambda>(a, s). 2 * length s + 1)))", goal_cases)
  case (2 s c r d r1)
  then show ?case using skip_ws_length [of r] by simp
next
  case (3 s c r d r1)
  then show ?case using skip_ws_length [of r] by simp
qed auto

declare scan_once.simps [simp del] scan_items.simps [simp del] scan_members.simps [simp del]

text \<open>\<^verbatim>\<open>json.loads(text)\<close>: a byte order mark is refused, white space around the value is skipped.\<close>

definition loads_text :: "pystr \<Rightarrow> json_error + pyval" where
  "loads_text s =
     (if s \<noteq> [] \<and> hd s = 0xFEFF then Inl JSONDecodeError
      else rbind (scan_once (skip_ws s)) (\<lambda>(v, r).
        if skip_ws r = [] then Inr v else Inl JSONDecodeError))"

section \<open>Reading bytes\<close>

text \<open>\<^verbatim>\<open>json.detect_encoding\<close> and the decoders it selects, all with \<^verbatim>\<open>surrogatepass\<close>.\<close>

datatype json_encoding = Utf8 | Utf8Sig | Utf16 | Utf16BE | Utf16LE | Utf32 | Utf32BE | Utf32LE

definition starts_with :: "nat list \<Rightarrow> nat list \<Rightarrow> bool" where
  "starts_with p b \<longleftrightarrow> take (length p) b = p"

definition detect_encoding :: "bytestr \<Rightarrow> json_encoding" where
  "detect_encoding bs =
     (let b = map unat bs; n = length b in
      if starts_with [0, 0, 0xFE, 0xFF] b \<or> starts_with [0xFF, 0xFE, 0, 0] b then Utf32
      else if starts_with [0xFE, 0xFF] b \<or> starts_with [0xFF, 0xFE] b then Utf16
      else if starts_with [0xEF, 0xBB, 0xBF] b then Utf8Sig
      else if 4 \<le> n then
        (if b ! 0 = 0 then (if b ! 1 \<noteq> 0 then Utf16BE else Utf32BE)
         else if b ! 1 = 0 then (if b ! 2 \<noteq> 0 \<or> b ! 3 \<noteq> 0 then Utf16LE else Utf32LE)
         else Utf8)
      else if n = 2 then
        (if b ! 0 = 0 then Utf16BE else if b ! 1 = 0 then Utf16LE else Utf8)
      else Utf8)"

fun units16 :: "bool \<Rightarrow> nat list \<Rightarrow> nat list option" where
  "units16 be [] = Some []"
| "units16 be [a] = None"
| "units16 be (a # b # r) =
     map_option (Cons (if be then a * 256 + b else b * 256 + a)) (units16 be r)"

fun join_surrogates :: "nat list \<Rightarrow> pystr" where
  "join_surrogates (u # v # r) =
     (if 0xD800 \<le> u \<and> u \<le> 0xDBFF \<and> 0xDC00 \<le> v \<and> v \<le> 0xDFFF
      then (0x10000 + (u - 0xD800) * 1024 + (v - 0xDC00)) # join_surrogates r
      else u # join_surrogates (v # r))"
| "join_surrogates us = us"

fun units32 :: "bool \<Rightarrow> nat list \<Rightarrow> pystr option" where
  "units32 be [] = Some []"
| "units32 be (a # b # c # d # r) =
     (let u = (if be then ((a * 256 + b) * 256 + c) * 256 + d
               else ((d * 256 + c) * 256 + b) * 256 + a) in
      if u < 0x110000 then map_option (Cons u) (units32 be r) else None)"
| "units32 be _ = None"

definition decode_json :: "bytestr \<Rightarrow> pystr option" where
  "decode_json bs =
     (let b = map unat bs in
      case detect_encoding bs of
        Utf8 \<Rightarrow> decode_utf8 True bs
      | Utf8Sig \<Rightarrow> decode_utf8 True (drop 3 bs)
      | Utf16 \<Rightarrow> map_option join_surrogates (units16 (starts_with [0xFE, 0xFF] b) (drop 2 b))
      | Utf16BE \<Rightarrow> map_option join_surrogates (units16 True b)
      | Utf16LE \<Rightarrow> map_option join_surrogates (units16 False b)
      | Utf32 \<Rightarrow> units32 (starts_with [0, 0, 0xFE, 0xFF] b) (drop 4 b)
      | Utf32BE \<Rightarrow> units32 True b
      | Utf32LE \<Rightarrow> units32 False b)"

text \<open>\<^verbatim>\<open>json.loads(data)\<close> on bytes.\<close>

definition loads_bytes :: "bytestr \<Rightarrow> json_error + pyval" where
  "loads_bytes bs =
     (case decode_json bs of None \<Rightarrow> Inl UnicodeDecodeError | Some s \<Rightarrow>
        rbind (scan_once (skip_ws s)) (\<lambda>(v, r).
          if skip_ws r = [] then Inr v else Inl JSONDecodeError))"

end
