(* ===== verification/Py_Json_Roundtrip.thy ===== *)
theory Py_Json_Roundtrip
  imports Py_Json
begin

text \<open>
  Reading what was written: \<open>scan_once\<close> on the canonical text of a value, followed by anything that
  cannot continue a number, returns the value with its object keys sorted and leaves exactly
  what followed. From it come \<open>loads_canon\<close> (bytes back to the value), the injectivity of the
  canonical encoding, and the facts about lines the chain store needs: canonical bytes hold no line
  feed and are never empty.
\<close>

section \<open>The value with its keys sorted\<close>

fun key_text :: "pykey \<Rightarrow> pystr" where
  "key_text (KStr s) = s"
| "key_text (KOther n) = []"

primrec norm_val :: "pyval \<Rightarrow> pyval" where
  "norm_val PNone = PNone"
| "norm_val (PBool b) = PBool b"
| "norm_val (PInt n) = PInt n"
| "norm_val (PFloat x) = PFloat x"
| "norm_val (PStr s) = PStr s"
| "norm_val (PList vs) = PList (map norm_val vs)"
| "norm_val (PDict kvs) =
     PDict (sort_key (\<lambda>kv. key_text (fst kv)) (map (map_prod id norm_val) kvs))"
| "norm_val (POther t) = POther t"

section \<open>The scanner always advances\<close>

lemma dropWhile_digit_length: "length (dropWhile is_digit s) \<le> length s"
  by (rule length_dropWhile_le)

lemma match_int_length: "match_int s = Some (di, r) \<Longrightarrow> length r < length s"
  by (auto simp: match_int_def split: list.splits if_splits)
    (metis le_imp_less_Suc length_dropWhile_le)

lemma match_frac_length: "match_frac s = (df, r) \<Longrightarrow> length r \<le> length s"
  by (auto simp: match_frac_def split: list.splits if_splits)
    (metis le_SucI length_dropWhile_le)

lemma match_sign_length: "match_sign s = (b, r) \<Longrightarrow> length r \<le> length s"
  by (auto simp: match_sign_def split: list.splits if_splits)

lemma match_exp_length: "match_exp s = (ex, r) \<Longrightarrow> length r \<le> length s"
  by (auto simp: match_exp_def split: list.splits if_splits prod.splits dest!: match_sign_length)
    (meson dropWhile_digit_length le_SucI le_trans)+

lemma scan_number_length: "scan_number s = Inr (v, r) \<Longrightarrow> length r < length s"
  by (force simp: scan_number_def Let_def split: option.splits prod.splits if_splits
      dest!: match_int_length match_frac_length match_exp_length)

lemma scan_constant_length: "scan_constant s = Some (v, r) \<Longrightarrow> length r < length s"
  by (auto simp: scan_constant_def split: option.splits dest!: strip_prefix_length)

lemma skip_ws_Cons_length: "skip_ws r = d # r1 \<Longrightarrow> length r1 < length r"
  by (metis Suc_le_lessD length_Cons skip_ws_length)

lemma scan_once_length:
  "scan_once s = Inr (v, r) \<Longrightarrow> length r < length s"
  "scan_items acc s = Inr (v, r) \<Longrightarrow> length r < length s"
  "scan_members d s = Inr (v, r) \<Longrightarrow> length r < length s"
proof (induction s and acc s and d s arbitrary: v r and v r and v r
    rule: scan_once_scan_items_scan_members.induct)
  case (1 s)
  show ?case
  proof (cases s)
    case Nil
    then show ?thesis using "1.prems" by (simp add: scan_once.simps)
  next
    case (Cons c q)
    note skip = skip_ws_length [of q]
    from "1.prems" 1(1,2) Cons skip show ?thesis
      by (subst (asm) (1) scan_once.simps)
        (fastforce split: if_splits option.splits list.splits prod.splits
          dest: scan_string_length scan_constant_length scan_number_length skip_ws_Cons_length)
  qed
next
  case (2 acc s)
  from "2.prems" 2(1,2) show ?case
    by (subst (asm) (1) scan_items.simps)
      (fastforce split: if_splits sum.splits list.splits prod.splits dest: skip_ws_Cons_length)
next
  case (3 acc s)
  from "3.prems" 3(1,2) show ?case
    by (subst (asm) (1) scan_members.simps)
      (fastforce split: if_splits sum.splits option.splits list.splits prod.splits
        dest: skip_ws_Cons_length)
qed

section \<open>Reading strings and numbers\<close>

lemma hex_val_hex_digit [simp]: "n < 16 \<Longrightarrow> hex_val (hex_digit n) = Some n"
  by (auto simp: hex_val_def hex_digit_def)

lemma unicode_escape_control:
  assumes "c < 32"
  shows "unicode_escape (48 # 48 # hex_digit (c div 16) # hex_digit (c mod 16) # s) = Some (c, s)"
proof -
  have "hex_val 48 = Some 0" by (simp add: hex_val_def)
  moreover have "c div 16 < 16" using assms by simp
  moreover have "c div 16 * 16 + c mod 16 = c" by simp
  ultimately show ?thesis using assms by (simp add: unicode_escape_def)
qed

lemma scan_string_escape:
  "scan_string (escape_char c @ s) = map_option (map_prod (Cons c) id) (scan_string s)"
proof (cases "c < 32 \<and> c \<noteq> 8 \<and> c \<noteq> 9 \<and> c \<noteq> 10 \<and> c \<noteq> 12 \<and> c \<noteq> 13")
  case True
  then show ?thesis by (simp add: escape_char_def unicode_escape_control)
next
  case False
  then show ?thesis by (auto simp: escape_char_def simple_escape_def)
qed

lemma scan_string_quoted: "scan_string (concat (map escape_char s) @ 34 # r) = Some (s, r)"
  by (induction s) (simp_all add: scan_string_escape)

definition stops :: "pystr \<Rightarrow> bool" where
  "stops r \<longleftrightarrow> r = [] \<or> \<not> is_digit (hd r) \<and> hd r \<noteq> 46 \<and> hd r \<noteq> 101 \<and> hd r \<noteq> 69"

definition all_digits :: "pystr \<Rightarrow> bool" where
  "all_digits ds \<longleftrightarrow> (\<forall>c \<in> set ds. is_digit c)"

definition int_digits :: "pystr \<Rightarrow> bool" where
  "int_digits ds \<longleftrightarrow> ds \<noteq> [] \<and> all_digits ds \<and> (hd ds = 48 \<longrightarrow> ds = [48])"

lemma take_digits:
  assumes "all_digits ds" and "r = [] \<or> \<not> is_digit (hd r)"
  shows "takeWhile is_digit (ds @ r) = ds" and "dropWhile is_digit (ds @ r) = r"
proof -
  have "takeWhile is_digit r = []" "dropWhile is_digit r = r" using assms(2) by (cases r; simp)+
  with assms(1) show "takeWhile is_digit (ds @ r) = ds" and "dropWhile is_digit (ds @ r) = r"
    by (simp_all add: all_digits_def)
qed

lemma match_int_digits:
  assumes "int_digits ds" and "r = [] \<or> \<not> is_digit (hd r)"
  shows "match_int (ds @ r) = Some (ds, r)"
proof -
  obtain c q where ds: "ds = c # q" using assms(1) by (cases ds) (auto simp: int_digits_def)
  show ?thesis
  proof (cases "c = 48")
    case True
    then show ?thesis using assms(1) ds by (simp add: int_digits_def match_int_def)
  next
    case False
    moreover have "all_digits ds" "is_digit c"
      using assms(1) ds by (simp_all add: int_digits_def all_digits_def)
    moreover note take_digits [of ds r]
    ultimately show ?thesis using assms(2) ds by (simp add: match_int_def)
  qed
qed

lemma match_frac_stop: "r = [] \<or> hd r \<noteq> 46 \<Longrightarrow> match_frac r = ([], r)"
  by (auto simp: match_frac_def split: list.splits)

lemma match_frac_digits:
  assumes "all_digits df" and "df \<noteq> []" and "r = [] \<or> \<not> is_digit (hd r)"
  shows "match_frac (46 # df @ r) = (df, r)"
  using assms take_digits [of df r] by (simp add: match_frac_def)

lemma match_exp_stop: "r = [] \<or> hd r \<noteq> 101 \<and> hd r \<noteq> 69 \<Longrightarrow> match_exp r = (None, r)"
  by (auto simp: match_exp_def split: list.splits prod.splits)

lemma match_exp_digits:
  assumes "all_digits ds" and "ds \<noteq> []" and "r = [] \<or> \<not> is_digit (hd r)"
  shows "match_exp (101 # (if neg then 45 else 43) # ds @ r) =
    (Some (if neg then - int (undec ds) else int (undec ds)), r)"
  using assms take_digits [of ds r] by (simp add: match_exp_def match_sign_def)

lemma hd_digits: "int_digits ds \<Longrightarrow> is_digit (hd ds) \<and> ds \<noteq> []"
  by (auto simp: int_digits_def all_digits_def)

lemma scan_number_int:
  assumes "int_digits ds" and "stops r" and "length ds \<le> max_str_digits"
  shows "scan_number ((if neg then [45] else []) @ ds @ r) =
    Inr (PInt (if neg then - int (undec ds) else int (undec ds)), r)"
proof -
  have "match_int (ds @ r) = Some (ds, r)"
    using assms by (intro match_int_digits) (auto simp: stops_def)
  moreover have "match_frac r = ([], r)" "match_exp r = (None, r)"
    using assms(2) by (auto simp: stops_def intro!: match_frac_stop match_exp_stop)
  ultimately show ?thesis
    using assms(3) hd_digits [OF assms(1)] by (cases neg) (auto simp: scan_number_def Let_def is_digit_def)
qed

lemma scan_number_fixed:
  assumes "int_digits di" and "all_digits df" and "df \<noteq> []" and "stops r"
  shows "scan_number ((if neg then [45] else []) @ di @ 46 # df @ r) =
    Inr (PFloat (f64_of_dec neg (undec (di @ df)) (int (length df))), r)"
proof -
  have "match_int (di @ 46 # df @ r) = Some (di, 46 # df @ r)"
    using assms(1) by (intro match_int_digits) (auto simp: is_digit_def)
  moreover have "match_frac (46 # df @ r) = (df, r)"
    using assms by (intro match_frac_digits) (auto simp: stops_def)
  moreover have "match_exp r = (None, r)"
    using assms(4) by (auto simp: stops_def intro!: match_exp_stop)
  ultimately show ?thesis
    using assms(3) hd_digits [OF assms(1)] by (cases neg) (auto simp: scan_number_def Let_def is_digit_def)
qed

lemma scan_number_scientific:
  assumes "int_digits di" and "all_digits df" and "all_digits de" and "de \<noteq> []" and "stops r"
  shows "scan_number ((if neg then [45] else []) @ di @ (if df = [] then [] else 46 # df) @
      101 # (if eneg then 45 else 43) # de @ r) =
    Inr (PFloat (f64_of_dec neg (undec (di @ df))
      (int (length df) - (if eneg then - int (undec de) else int (undec de)))), r)"
proof -
  let ?e = "101 # (if eneg then 45 else 43) # de @ r"
  have "match_int (di @ (if df = [] then [] else 46 # df) @ ?e) =
      Some (di, (if df = [] then [] else 46 # df) @ ?e)"
    using assms(1) by (intro match_int_digits) (auto simp: is_digit_def)
  moreover have "match_frac ((if df = [] then [] else 46 # df) @ ?e) = (df, ?e)"
    using match_frac_digits [of df ?e] assms(2) by (auto simp: is_digit_def match_frac_stop)
  moreover have "match_exp ?e = (Some (if eneg then - int (undec de) else int (undec de)), r)"
    using assms by (intro match_exp_digits) (auto simp: stops_def)
  ultimately show ?thesis
    using hd_digits [OF assms(1)] by (cases neg) (auto simp: scan_number_def Let_def is_digit_def)
qed

lemma undec_app: "undec (xs @ ys) = undec xs * 10 ^ length ys + undec ys"
proof (induction ys rule: rev_induct)
  case (snoc y ys)
  have "undec (xs @ ys @ [y]) = 10 * undec (xs @ ys) + (y - 48)"
    using undec_append [of "xs @ ys" y] by simp
  with snoc show ?case by (simp add: undec_append algebra_simps)
qed (simp add: undec_def)

lemma undec_zeros [simp]: "undec (replicate n 48) = 0"
  by (induction n) (simp_all add: undec_app replicate_append_same [symmetric] undec_def)

lemma undec_zero_prefix [simp]: "undec (48 # ds) = undec ds"
  using undec_app [of "[48]" ds] by (simp add: undec_def)

lemma all_digits_dec [simp]: "all_digits (dec n)"
  by (simp add: all_digits_def dec_digits)

lemma int_digits_dec [simp]: "int_digits (dec n)"
proof (cases "n = 0")
  case True
  then show ?thesis by (subst dec.simps) (simp add: int_digits_def all_digits_def is_digit_def)
next
  case False
  then show ?thesis using hd_dec [of n] by (simp add: int_digits_def)
qed

lemma all_digits_append [simp]: "all_digits (xs @ ys) \<longleftrightarrow> all_digits xs \<and> all_digits ys"
  by (auto simp: all_digits_def)

lemma all_digits_zeros [simp]: "all_digits (replicate n 48)"
  by (simp add: all_digits_def is_digit_def)

lemma all_digits_Nil [simp]: "all_digits []"
  by (simp add: all_digits_def)

lemma all_digits_Cons [simp]: "all_digits (c # ds) \<longleftrightarrow> is_digit c \<and> all_digits ds"
  by (auto simp: all_digits_def)

lemma is_digit_0 [simp]: "is_digit 48"
  by (simp add: is_digit_def)

lemma all_digits_take_drop: "all_digits ds \<Longrightarrow> all_digits (take n ds) \<and> all_digits (drop n ds)"
  by (auto simp: all_digits_def dest: in_set_takeD in_set_dropD)

lemma int_digits_take: "0 < c \<Longrightarrow> 0 < n \<Longrightarrow> int_digits (take n (dec c))"
  using hd_dec [of c] all_digits_take_drop [of "dec c" n] by (auto simp: int_digits_def)

lemma int_digits_pad: "0 < c \<Longrightarrow> int_digits (dec c @ replicate n 48)"
  using hd_dec [of c] by (auto simp: int_digits_def)

lemma lit_marks:
  "lit ''0.'' = [48, 46]" "lit ''.0'' = [46, 48]" "lit ''.'' = [46]" "lit ''e'' = [101]"
  "lit ''-'' = [45]" "lit ''+'' = [43]" "lit ''0.0'' = [48, 46, 48]"
  by (simp_all add: lit_def)

lemma f64_of_dec_scale: "f64_of_dec neg (c * 10 ^ j) (s + int j) = f64_of_dec neg c s"
  by (simp add: f64_of_dec_def dec_mag_scale)

lemma layout_read:
  assumes c: "0 < c" and r: "stops r"
  shows "scan_number ((if neg then [45] else []) @ layout_dec c s @ r) =
    Inr (PFloat (f64_of_dec neg c s), r)"
proof -
  define ds n k where "ds = dec c" and "n = int (length ds)" and "k = n - 1 - s"
  have ds: "ds \<noteq> []" "undec ds = c" "all_digits ds" by (simp_all add: ds_def)
  note lay = layout_dec_def [of c s, unfolded Let_def, folded ds_def, folded n_def, folded k_def]
  let ?sg = "if neg then [45] else []"
  consider (frac) "-4 \<le> k" "k < 0" | (whole) "0 \<le> k" "k < 16" "n \<le> k + 1"
    | (mixed) "0 \<le> k" "k < 16" "k + 1 < n" | (sci) "k < -4 \<or> 16 \<le> k" by linarith
  then show ?thesis
  proof cases
    case frac
    let ?df = "replicate (nat (- k - 1)) 48 @ ds"
    have "layout_dec c s = [48] @ 46 # ?df"
      using frac by (simp add: lay lit_marks)
    moreover have "scan_number (?sg @ [48] @ 46 # ?df @ r) =
        Inr (PFloat (f64_of_dec neg (undec ([48] @ ?df)) (int (length ?df))), r)"
      using ds r by (intro scan_number_fixed) (auto simp: int_digits_def)
    moreover have "int (length ?df) = s" using frac by (simp add: n_def k_def)
    moreover have "undec ([48] @ ?df) = c" using ds by (simp add: undec_app)
    ultimately show ?thesis by simp
  next
    case whole
    let ?z = "nat (k + 1 - n)" let ?di = "ds @ replicate ?z 48"
    have z: "s = - int ?z" using whole by (simp add: k_def)
    have "layout_dec c s = ?di @ 46 # [48]"
      using whole by (simp add: lay lit_marks)
    moreover have "scan_number (?sg @ ?di @ 46 # [48] @ r) =
        Inr (PFloat (f64_of_dec neg (undec (?di @ [48])) (int (length [48 :: nat]))), r)"
      using c r int_digits_pad by (intro scan_number_fixed) (auto simp: ds_def)
    moreover have "undec (?di @ [48]) = c * 10 ^ (?z + 1)"
      using ds by (simp add: undec_app) (simp add: undec_def)
    moreover have "f64_of_dec neg (c * 10 ^ (?z + 1)) (s + int (?z + 1)) = f64_of_dec neg c s"
      by (rule f64_of_dec_scale)
    ultimately show ?thesis using z by simp
  next
    case mixed
    let ?di = "take (nat (k + 1)) ds" and ?df = "drop (nat (k + 1)) ds"
    have "layout_dec c s = ?di @ 46 # ?df"
      using mixed by (simp add: lay lit_marks)
    moreover have "scan_number (?sg @ ?di @ 46 # ?df @ r) =
        Inr (PFloat (f64_of_dec neg (undec (?di @ ?df)) (int (length ?df))), r)"
      using c r mixed int_digits_take [of c "nat (k + 1)"] all_digits_take_drop [OF ds(3)]
      by (intro scan_number_fixed) (auto simp: ds_def n_def)
    moreover have "int (length ?df) = s" using mixed by (simp add: n_def k_def)
    ultimately show ?thesis using ds by simp
  next
    case sci
    let ?de = "if nat \<bar>k\<bar> < 10 then 48 # dec (nat \<bar>k\<bar>) else dec (nat \<bar>k\<bar>)"
    have dr: "drop 1 ds = [] \<longleftrightarrow> \<not> 1 < n" by (auto simp: n_def)
    have "layout_dec c s = take 1 ds @ (if drop 1 ds = [] then [] else 46 # drop 1 ds) @
        101 # (if k < 0 then 45 else 43) # ?de"
      using sci dr by (auto simp: lay lit_marks)
    moreover have "scan_number (?sg @ take 1 ds @ (if drop 1 ds = [] then [] else 46 # drop 1 ds) @
        101 # (if k < 0 then 45 else 43) # ?de @ r) =
      Inr (PFloat (f64_of_dec neg (undec (take 1 ds @ drop 1 ds))
        (int (length (drop 1 ds)) - (if k < 0 then - int (undec ?de) else int (undec ?de)))), r)"
      using c r int_digits_take [of c 1] all_digits_take_drop [OF ds(3), of 1]
      by (intro scan_number_scientific) (auto simp: ds_def)
    moreover have "int (length (drop 1 ds)) - (if k < 0 then - int (undec ?de) else int (undec ?de)) = s"
      using ds(1) by (cases ds) (auto simp: n_def k_def)
    ultimately show ?thesis using ds(2) by simp
  qed
qed

lemma strip_zeros_pos: "0 < c \<Longrightarrow> strip_zeros c s = (c', s') \<Longrightarrow> 0 < c'"
proof (induction c s rule: strip_zeros.induct)
  case (1 c s)
  show ?case
  proof (cases "c mod 10 = 0")
    case True
    then have "0 < c div 10" using "1.prems"(1) by (metis div_greater_zero_iff less_numeral_extra(3)
      mod_less not_less zero_less_numeral)
    with True 1 show ?thesis by (simp add: strip_zeros.simps [of c s])
  next
    case False
    with 1 show ?thesis by (simp add: strip_zeros.simps [of c s])
  qed
qed

theorem float_text_read:
  assumes "f64_isfinite x" and "stops r"
  shows "scan_number (float_text x @ r) = Inr (PFloat x, r)"
proof (cases "f64_mag x = 0")
  case True
  have "scan_number ((if f64_neg x then [45] else []) @ [48] @ 46 # [48] @ r) =
      Inr (PFloat (f64_of_dec (f64_neg x) (undec ([48] @ [48])) (int (length [48 :: nat]))), r)"
    using assms(2) by (intro scan_number_fixed) (auto simp: int_digits_def)
  moreover have "f64_of_dec (f64_neg x) (undec [48, 48]) 1 = x"
    using f64_parts [of x] True by (simp add: f64_of_dec_def) (simp add: undec_def)
  ultimately show ?thesis using True by (auto simp: float_text_def lit_marks)
next
  case False
  obtain c s where cs: "shortest (f64_mag x) = (c, s)" by fastforce
  then have m: "dec_mag c s = f64_mag x" using shortest_sound [of "f64_mag x"] False by simp
  then have "0 < c" using False by (cases c) auto
  obtain c' s' where st: "strip_zeros c s = (c', s')" by fastforce
  then have m': "dec_mag c' s' = f64_mag x" using strip_zeros_sound m by simp
  have "f64_of_dec (f64_neg x) c' s' = x"
    using m' assms(1) f64_parts [of x] by (simp add: f64_of_dec_def f64_isfinite_def)
  then show ?thesis
    using layout_read [OF strip_zeros_pos [OF \<open>0 < c\<close> st] assms(2), of "f64_neg x" s'] cs st False
    by (auto simp: float_text_def lit_marks)
qed

section \<open>Reading arrays and objects\<close>

text \<open>\<open>reads t v\<close>: the scanner reads \<open>t\<close> as \<open>v\<close>, whatever follows that does not continue a number.\<close>

definition reads :: "pystr \<Rightarrow> pyval \<Rightarrow> bool" where
  "reads t v \<longleftrightarrow>
     t \<noteq> [] \<and> \<not> is_ws (hd t) \<and> hd t \<noteq> 93 \<and> (\<forall>r. stops r \<longrightarrow> scan_once (t @ r) = Inr (v, r))"

lemma skip_ws_hd: "s \<noteq> [] \<Longrightarrow> \<not> is_ws (hd s) \<Longrightarrow> skip_ws s = s"
  by (cases s) (simp_all add: skip_ws_def)

lemma skip_ws_Cons [simp]: "\<not> is_ws c \<Longrightarrow> skip_ws (c # r) = c # r"
  by (simp add: skip_ws_def)

lemma not_ws_marks [simp]:
  "\<not> is_ws 34" "\<not> is_ws 44" "\<not> is_ws 58" "\<not> is_ws 93" "\<not> is_ws 125" "\<not> is_ws 123" "\<not> is_ws 91"
  by (simp_all add: is_ws_def)

lemma skip_ws_reads: "reads t v \<Longrightarrow> skip_ws (t @ r) = t @ r"
  by (simp add: reads_def skip_ws_hd)

lemma stops_marks [simp]: "stops (44 # r)" "stops (93 # r)" "stops (125 # r)" "stops []"
  by (simp_all add: stops_def is_digit_def)

lemma join_comma_Cons: "ts \<noteq> [] \<Longrightarrow> join_comma (t # ts) = t @ 44 # join_comma ts"
  by (cases ts) simp_all

lemma scan_items_join:
  assumes "list_all2 reads ts vs" and "ts \<noteq> []"
  shows "scan_items acc (join_comma ts @ 93 # r) = Inr (PList (acc @ vs), r)"
  using assms
proof (induction arbitrary: acc rule: list_all2_induct)
  case (Cons t ts v vs)
  show ?case
  proof (cases "ts = []")
    case True
    moreover from this have "vs = []" using Cons by simp
    ultimately show ?thesis using Cons.hyps(1) by (simp add: scan_items.simps reads_def)
  next
    case False
    then obtain u us where us: "ts = u # us" by (cases ts) auto
    then obtain w where "reads u w" using Cons.hyps(2) by (auto simp: list_all2_Cons1)
    then have "skip_ws (join_comma ts @ 93 # r) = join_comma ts @ 93 # r"
      using skip_ws_reads us by (cases us) (simp_all add: reads_def skip_ws_hd)
    moreover have "scan_once (t @ 44 # join_comma ts @ 93 # r) = Inr (v, 44 # join_comma ts @ 93 # r)"
      using Cons.hyps(1) by (simp add: reads_def)
    ultimately show ?thesis
      using Cons.IH [OF False, of "acc @ [v]"] False
      by (simp add: scan_items.simps [of acc] join_comma_Cons)
  qed
qed simp

lemma update_new: "k \<notin> set (map fst d) \<Longrightarrow> AList.update k v d = d @ [(k, v)]"
  by (induction d) auto

lemma scan_quote: "scan_string (concat (map escape_char k) @ 34 # r) = Some (k, r)"
  by (rule scan_string_quoted)

text \<open>\<open>quotes q k\<close>: the literal \<open>q\<close> reads as the text \<open>k\<close>; \<open>member_reads m kv\<close>: \<open>m\<close> reads as the member \<open>kv\<close>.\<close>

definition quotes :: "pystr \<Rightarrow> pystr \<Rightarrow> bool" where
  "quotes q k \<longleftrightarrow> (\<exists>b. q = 34 # b \<and> (\<forall>r. scan_string (b @ r) = Some (k, r)))"

definition member_reads :: "pystr \<Rightarrow> pykey \<times> pyval \<Rightarrow> bool" where
  "member_reads m kv \<longleftrightarrow> (\<exists>q k t. m = q @ 58 # t \<and> quotes q k \<and> fst kv = KStr k \<and> reads t (snd kv))"

lemma quotes_quote: "quotes (quote k) k"
  by (simp add: quotes_def quote_def scan_quote)

lemma member_reads_hd: "member_reads m kv \<Longrightarrow> \<exists>b. m = 34 # b"
  by (auto simp: member_reads_def quotes_def)

lemma scan_members_last:
  assumes "member_reads m kv" and "fst kv \<notin> set (map fst acc)"
  shows "scan_members acc (m @ 125 # r) = Inr (PDict (acc @ [kv]), r)"
proof -
  obtain b k t where m: "m = (34 # b) @ 58 # t" "\<And>r. scan_string (b @ r) = Some (k, r)" "kv = (KStr k, snd kv)" "reads t (snd kv)"
    using assms(1) by (cases kv) (auto simp: member_reads_def quotes_def)
  have "KStr k \<notin> set (map fst acc)" using assms(2) m(3) by (metis fst_conv)
  then have "scan_members acc (m @ 125 # r) = Inr (PDict (acc @ [(KStr k, snd kv)]), r)"
    using m(1,2,4) skip_ws_reads [OF m(4)]
    by (simp add: scan_members.simps [of acc] update_new reads_def)
  with m(3) show ?thesis by simp
qed

lemma scan_members_more:
  assumes "member_reads m kv" and "fst kv \<notin> set (map fst acc)" and "rest \<noteq> []" and "\<not> is_ws (hd rest)"
  shows "scan_members acc (m @ 44 # rest) = scan_members (acc @ [kv]) rest"
proof -
  obtain b k t where m: "m = (34 # b) @ 58 # t" "\<And>r. scan_string (b @ r) = Some (k, r)" "kv = (KStr k, snd kv)" "reads t (snd kv)"
    using assms(1) by (cases kv) (auto simp: member_reads_def quotes_def)
  have "KStr k \<notin> set (map fst acc)" using assms(2) m(3) by (metis fst_conv)
  then have "scan_members acc (m @ 44 # rest) = scan_members (acc @ [(KStr k, snd kv)]) rest"
    using m(1,2,4) skip_ws_reads [OF m(4)] skip_ws_hd [of rest] assms(3,4)
    by (simp add: scan_members.simps [of acc] update_new reads_def)
  with m(3) show ?thesis by simp
qed

lemma scan_members_join:
  assumes "list_all2 member_reads ms kvs" and "ms \<noteq> []" and "distinct (map fst (acc @ kvs))"
  shows "scan_members acc (join_comma ms @ 125 # r) = Inr (PDict (acc @ kvs), r)"
  using assms
proof (induction arbitrary: acc rule: list_all2_induct)
  case (Cons m ms kv kvs)
  have new: "fst kv \<notin> set (map fst acc)" using Cons.prems(2) by auto
  show ?case
  proof (cases "ms = []")
    case True
    moreover from this have "kvs = []" using Cons by simp
    ultimately show ?thesis using scan_members_last [OF Cons.hyps(1) new, of r] by simp
  next
    case False
    let ?rest = "join_comma ms @ 125 # r"
    obtain a as where a: "ms = a # as" using False by (cases ms) auto
    then obtain kv' where "member_reads a kv'" using Cons.hyps(2) by (auto simp: list_all2_Cons1)
    then obtain b where "a = 34 # b" using member_reads_hd by blast
    then have rest: "?rest \<noteq> []" "\<not> is_ws (hd ?rest)"
      using a by (cases as; simp)+
    have "scan_members acc (m @ 44 # ?rest) = scan_members (acc @ [kv]) ?rest"
      using Cons.hyps(1) new rest by (rule scan_members_more)
    also have "\<dots> = Inr (PDict ((acc @ [kv]) @ kvs), r)"
      using False Cons.prems by (intro Cons.IH) simp_all
    finally show ?thesis using False by (simp add: join_comma_Cons)
  qed
qed simp

lemma reads_array:
  assumes "list_all2 reads ts vs"
  shows "reads (91 # join_comma ts @ [93]) (PList vs)"
proof (cases "ts = []")
  case True
  then show ?thesis using assms by (simp add: reads_def scan_once.simps is_ws_def)
next
  case False
  then obtain u us where us: "ts = u # us" by (cases ts) auto
  then obtain w where w: "reads u w" using assms by (auto simp: list_all2_Cons1)
  obtain c q where cq: "u = c # q" "\<not> is_ws c" "c \<noteq> 93" using w by (cases u) (auto simp: reads_def)
  have "\<exists>q'. join_comma ts = c # q'" using us cq by (cases us) auto
  then obtain q' where q': "join_comma ts = c # q'" by blast
  then have "scan_once (91 # join_comma ts @ 93 # r) = Inr (PList vs, r)" for r
    using scan_items_join [OF assms False, of "[]" r] cq by (simp add: scan_once.simps)
  then show ?thesis by (simp add: reads_def is_ws_def)
qed

lemma reads_object:
  assumes "list_all2 member_reads ms kvs" and "distinct (map fst kvs)"
  shows "reads (123 # join_comma ms @ [125]) (PDict kvs)"
proof (cases "ms = []")
  case True
  then show ?thesis using assms by (simp add: reads_def scan_once.simps is_ws_def)
next
  case False
  then obtain a as where a: "ms = a # as" by (cases ms) auto
  then obtain kv where "member_reads a kv" using assms(1) by (auto simp: list_all2_Cons1)
  then have "\<exists>q. join_comma ms = 34 # q" using a member_reads_hd by (cases as) fastforce+
  then obtain q where "join_comma ms = 34 # q" by blast
  then have "scan_once (123 # join_comma ms @ 125 # r) = Inr (PDict kvs, r)" for r
    using scan_members_join [OF assms(1) False, of "[]" r] assms(2) by (simp add: scan_once.simps)
  then show ?thesis by (simp add: reads_def is_ws_def)
qed

section \<open>Reading the canonical text of a value\<close>

lemma those_Some_iff: "those xs = Some ys \<longleftrightarrow> list_all2 (\<lambda>x y. x = Some y) xs ys"
  by (induction xs arbitrary: ys) (auto simp: list_all2_Cons1 split: option.splits)

lemma those_None_iff: "those xs = None \<longleftrightarrow> None \<in> set xs"
  by (induction xs) (auto split: option.splits)

lemma list_all2_insort:
  assumes "list_all2 Q xs ys" and "Q x y" and "\<And>x y. Q x y \<Longrightarrow> f x = g y"
  shows "list_all2 Q (insort_key f x xs) (insort_key g y ys)"
  using assms(1) assms(3) [OF assms(2)] assms(2)
  by (induction rule: list_all2_induct) (auto dest!: assms(3))

lemma list_all2_sort:
  assumes "list_all2 Q xs ys" and "\<And>x y. Q x y \<Longrightarrow> f x = g y"
  shows "list_all2 Q (sort_key f xs) (sort_key g ys)"
  using assms(1) by (induction rule: list_all2_induct) (auto intro: list_all2_insort assms(2))

lemma list_all2_left: "list_all2 Q xs ys \<Longrightarrow> y \<in> set ys \<Longrightarrow> \<exists>x \<in> set xs. Q x y"
  by (induction rule: list_all2_induct) auto

lemma distinct_insort_fst: "distinct (map fst (insort_key K x xs)) \<longleftrightarrow> distinct (fst x # map fst xs)"
  by (induction xs) (auto simp: set_insort_key)

lemma distinct_sort_fst: "distinct (map fst (sort_key K xs)) \<longleftrightarrow> distinct (map fst xs)"
  by (induction xs) (auto simp: distinct_insort_fst)

lemma member_key_Some:
  "member_key (k, t) = Some (k', t') \<longleftrightarrow> k = KStr k' \<and> t = Some t'"
  by (cases k) auto

lemma members_those:
  "those (map member_key (map (map_prod id f) kvs)) = Some kts \<longleftrightarrow>
     list_all2 (\<lambda>kv kt. fst kv = KStr (fst kt) \<and> f (snd kv) = Some (snd kt)) kvs kts"
proof -
  have "(\<lambda>kv kt. member_key (map_prod id f kv) = Some kt) =
      (\<lambda>kv kt. fst kv = KStr (fst kt) \<and> f (snd kv) = Some (snd kt))"
    by (auto simp: fun_eq_iff member_key_Some)
  then show ?thesis by (simp add: those_Some_iff list_all2_map1)
qed

text \<open>An object whose members are written with sorted keys.\<close>

lemma reads_sorted_object:
  assumes "list_all2 (\<lambda>kv kt. fst kv = KStr (fst kt) \<and> enc (snd kv) = Some (snd kt)) kvs kts"
    and "\<And>kv u. kv \<in> set kvs \<Longrightarrow> enc (snd kv) = Some u \<Longrightarrow> reads u (f (snd kv))"
    and "\<And>kt. kt \<in> set kts \<Longrightarrow> quotes (q (fst kt)) (fst kt)" and "distinct (map fst kvs)"
  shows "reads (123 # join_comma (map (\<lambda>kt. q (fst kt) @ 58 # snd kt) (sort_key fst kts)) @ [125])
    (PDict (sort_key (\<lambda>kv. key_text (fst kv)) (map (map_prod id f) kvs)))"
proof -
  define Q where "Q = (\<lambda>(kt :: pystr \<times> pystr) (kv :: pykey \<times> pyval).
    fst kv = KStr (fst kt) \<and> quotes (q (fst kt)) (fst kt) \<and> reads (snd kt) (snd kv))"
  have "list_all2 Q kts (map (map_prod id f) kvs)"
    using assms(1-3) by (auto simp: list_all2_conv_all_nth Q_def)
  then have "list_all2 Q (sort_key fst kts) (sort_key (\<lambda>kv. key_text (fst kv)) (map (map_prod id f) kvs))"
    by (rule list_all2_sort) (auto simp: Q_def)
  then have "list_all2 member_reads (map (\<lambda>kt. q (fst kt) @ 58 # snd kt) (sort_key fst kts))
      (sort_key (\<lambda>kv. key_text (fst kv)) (map (map_prod id f) kvs))"
    unfolding list_all2_map1 by (rule list.rel_mono_strong) (auto simp: Q_def member_reads_def)
  moreover have "distinct (map fst (sort_key (\<lambda>kv. key_text (fst kv)) (map (map_prod id f) kvs)))"
    using assms(4) by (simp add: distinct_sort_fst)
  ultimately show ?thesis by (rule reads_object)
qed

definition member_text :: "pystr \<times> pystr \<Rightarrow> pystr" where
  "member_text kt = quote (fst kt) @ 58 # snd kt"

lemma member_text_eq: "(\<lambda>(k, t). quote k @ 58 # t) = member_text"
  by (auto simp: member_text_def)

lemma scan_number_head:
  "scan_number s = Inr vr \<Longrightarrow> s \<noteq> [] \<and> (is_digit (hd s) \<or> hd s = 45 \<and> tl s \<noteq> [] \<and> is_digit (hd (tl s)))"
  by (auto simp: scan_number_def match_int_def Let_def split: option.splits list.splits if_splits)

lemma scan_once_number:
  assumes "scan_number s = Inr vr"
  shows "scan_once s = Inr vr"
proof -
  obtain c r where s: "s = c # r" using scan_number_head [OF assms] by (cases s) auto
  have h: "is_digit c \<or> c = 45 \<and> r \<noteq> [] \<and> is_digit (hd r)" using scan_number_head [OF assms] s by simp
  then have "scan_constant s = None"
    by (cases r) (auto simp: s scan_constant_def strip_prefix_def lit_def is_digit_def)
  then show ?thesis using h assms s by (auto simp: scan_once.simps is_digit_def)
qed

lemma reads_number:
  assumes "\<And>r. stops r \<Longrightarrow> scan_number (t @ r) = Inr (v, r)"
  shows "reads t v"
proof -
  have h: "t \<noteq> [] \<and> (is_digit (hd t) \<or> hd t = 45)" using scan_number_head [OF assms [of "[]"]] by auto
  then have "\<not> is_ws (hd t)" "hd t \<noteq> 93" by (auto simp: is_ws_def is_digit_def)
  with h show ?thesis using assms by (auto simp: reads_def intro!: scan_once_number)
qed

lemma reads_int:
  assumes "length (dec (nat \<bar>n\<bar>)) \<le> max_str_digits"
  shows "reads (int_text n) (PInt n)"
proof (rule reads_number)
  fix r assume "stops r"
  with assms scan_number_int [of "dec (nat \<bar>n\<bar>)" r "n < 0"]
  show "scan_number (int_text n @ r) = Inr (PInt n, r)" by (auto simp: int_text_def)
qed

lemma reads_constants:
  "reads (lit ''null'') PNone" "reads (lit ''true'') (PBool True)" "reads (lit ''false'') (PBool False)"
  by (simp_all add: reads_def scan_once.simps scan_constant_def strip_prefix_def lit_def is_ws_def)

lemma reads_string: "reads (quote s) (PStr s)"
  by (simp add: reads_def quote_def scan_once.simps scan_quote)

theorem reads_canon: "canon_text v = Some t \<Longrightarrow> wf_val v \<Longrightarrow> reads t (norm_val v)"
proof (induction v arbitrary: t rule: pyval_induct)
  case (PFloat x)
  then show ?case by (auto intro!: reads_number float_text_read split: if_splits)
next
  case (PList vs)
  then obtain us where us: "t = 91 # join_comma us @ [93]"
    and "list_all2 (\<lambda>v u. canon_text v = Some u) vs us"
    by (auto simp: array_text_def those_Some_iff list_all2_map1)
  then have "list_all2 reads us (map norm_val vs)"
    using PList by (auto simp: list_all2_conv_all_nth)
  then show ?case using reads_array us by simp
next
  case (PDict kvs)
  obtain kts where t: "t = 123 # join_comma (map member_text (sort_key fst kts)) @ [125]"
    and kts: "list_all2 (\<lambda>kv kt. fst kv = KStr (fst kt) \<and> canon_text (snd kv) = Some (snd kt)) kvs kts"
    using PDict.prems(1) by (auto simp: object_text_def member_text_eq members_those simp del: map_map)
  show ?case
    unfolding t norm_val.simps member_text_def using kts
    by (rule reads_sorted_object) (use PDict quotes_quote in auto)
qed (auto simp: reads_constants reads_string intro: reads_int split: if_splits)

section \<open>Sorting keys changes nothing the encoder sees\<close>

lemma map_insort_inv:
  "(\<And>x. L (f x) = K x) \<Longrightarrow> map f (insort_key K x xs) = insort_key L (f x) (map f xs)"
  by (induction xs) simp_all

lemma map_sort_inv:
  assumes "\<And>x. L (f x) = K x"
  shows "map f (sort_key K xs) = sort_key L (map f xs)"
  by (induction xs) (simp_all add: map_insort_inv [of L f K, OF assms])

lemma sort_key_idem: "sort_key K (sort_key K xs) = sort_key K xs"
  by (rule sort_key_id_if_sorted) simp

lemma object_text_sort: "object_text (sort_key (\<lambda>m. key_text (fst m)) ms) = object_text ms"
proof (cases "those (map member_key ms)")
  case None
  then have "those (map member_key (sort_key (\<lambda>m. key_text (fst m)) ms)) = None"
    by (simp add: those_None_iff)
  with None show ?thesis by (simp add: object_text_def)
next
  case (Some kts)
  then have "list_all2 (\<lambda>m kt. member_key m = Some kt) ms kts"
    by (simp add: those_Some_iff list_all2_map1)
  then have "list_all2 (\<lambda>m kt. member_key m = Some kt)
      (sort_key (\<lambda>m. key_text (fst m)) ms) (sort_key fst kts)"
    by (rule list_all2_sort) (auto simp: member_key_Some)
  then have "those (map member_key (sort_key (\<lambda>m. key_text (fst m)) ms)) = Some (sort_key fst kts)"
    by (simp add: those_Some_iff list_all2_map1)
  with Some show ?thesis by (simp add: object_text_def sort_key_idem)
qed

lemma canon_text_norm [simp]: "canon_text (norm_val v) = canon_text v"
proof (induction v rule: pyval_induct)
  case (PList vs)
  then have "map canon_text (map norm_val vs) = map canon_text vs" by simp
  then show ?case by (simp del: map_map)
next
  case (PDict kvs)
  then have "map (map_prod id canon_text) (map (map_prod id norm_val) kvs) = map (map_prod id canon_text) kvs"
    by (auto simp: map_prod_def split: prod.splits)
  moreover have "map (map_prod id canon_text) (sort_key (\<lambda>kv. key_text (fst kv)) ws) =
      sort_key (\<lambda>m. key_text (fst m)) (map (map_prod id canon_text) ws)" for ws
    by (rule map_sort_inv) simp
  ultimately show ?case by (simp add: object_text_sort del: map_map)
qed simp_all

lemma wf_val_norm [simp]: "wf_val v \<Longrightarrow> wf_val (norm_val v)"
proof (induction v rule: pyval_induct)
  case (PDict kvs)
  then show ?case by (simp add: distinct_sort_fst)
qed auto

section \<open>The characters and bytes of the canonical text\<close>

text \<open>\<open>val_chars P v\<close>: every character of every text inside \<open>v\<close>, object keys included, satisfies \<open>P\<close>.\<close>

fun key_chars :: "(nat \<Rightarrow> bool) \<Rightarrow> pykey \<Rightarrow> bool" where
  "key_chars P (KStr s) = list_all P s"
| "key_chars P (KOther n) = True"

primrec val_chars :: "(nat \<Rightarrow> bool) \<Rightarrow> pyval \<Rightarrow> bool" where
  "val_chars P PNone = True"
| "val_chars P (PBool b) = True"
| "val_chars P (PInt n) = True"
| "val_chars P (PFloat x) = True"
| "val_chars P (PStr s) = list_all P s"
| "val_chars P (PList vs) = list_all id (map (val_chars P) vs)"
| "val_chars P (PDict kvs) =
     list_all (\<lambda>(k, b). key_chars P k \<and> b) (map (map_prod id (val_chars P)) kvs)"
| "val_chars P (POther t) = True"

lemma val_chars_PDict [simp]:
  "val_chars P (PDict kvs) \<longleftrightarrow> (\<forall>kv \<in> set kvs. key_chars P (fst kv) \<and> val_chars P (snd kv))"
  by (auto simp: list_all_iff split: prod.splits)

lemma val_chars_PList [simp]: "val_chars P (PList vs) \<longleftrightarrow> (\<forall>v \<in> set vs. val_chars P v)"
  by (auto simp: list_all_iff)

declare val_chars.simps(6,7) [simp del]

definition printable :: "(nat \<Rightarrow> bool) \<Rightarrow> pystr \<Rightarrow> bool" where
  "printable P t \<longleftrightarrow> (\<forall>c \<in> set t. P c \<and> 32 \<le> c)"

lemma printable_simps [simp]:
  "printable P []" "printable P (c # t) \<longleftrightarrow> P c \<and> 32 \<le> c \<and> printable P t"
  "printable P (t @ u) \<longleftrightarrow> printable P t \<and> printable P u"
  by (auto simp: printable_def)

lemma printable_digits: "(\<And>c. 32 \<le> c \<Longrightarrow> c < 128 \<Longrightarrow> P c) \<Longrightarrow> all_digits ds \<Longrightarrow> printable P ds"
  by (auto simp: printable_def all_digits_def is_digit_def)

lemma printable_escape:
  assumes P: "\<And>c. 32 \<le> c \<Longrightarrow> c < 128 \<Longrightarrow> P c" and "P c"
  shows "printable P (escape_char c)"
proof -
  have "32 \<le> hex_digit n \<and> hex_digit n < 128" if "n < 16" for n
    using that by (simp add: hex_digit_def)
  moreover have "c div 16 < 16" if "c < 32" using that by simp
  ultimately show ?thesis using assms(2) by (simp add: escape_char_def P)
qed

lemma printable_quote:
  assumes P: "\<And>c. 32 \<le> c \<Longrightarrow> c < 128 \<Longrightarrow> P c" and "list_all P s"
  shows "printable P (quote s)"
  using assms(2) printable_escape [OF P] P by (induction s) (simp_all add: quote_def)

lemma printable_join: "P 44 \<Longrightarrow> (\<And>t. t \<in> set ts \<Longrightarrow> printable P t) \<Longrightarrow> printable P (join_comma ts)"
  by (induction ts rule: join_comma.induct) auto

lemma printable_float:
  assumes P: "\<And>c. 32 \<le> c \<Longrightarrow> c < 128 \<Longrightarrow> P c"
  shows "printable P (float_text x)"
proof -
  note digits = printable_digits [OF P]
  have d: "printable P (take n (dec c))" "printable P (drop n (dec c))" "printable P (dec c)"
    "printable P (replicate n 48)" for n c
    using all_digits_take_drop [of "dec c" n] by (simp_all add: digits)
  have "printable P (layout_dec c s)" for c s
    by (auto simp: layout_dec_def Let_def lit_marks d P)
  then show ?thesis by (auto simp: float_text_def lit_marks P split: prod.splits)
qed

lemma printable_int:
  assumes P: "\<And>c. 32 \<le> c \<Longrightarrow> c < 128 \<Longrightarrow> P c"
  shows "printable P (int_text n)"
  using printable_digits [OF P] P by (simp add: int_text_def)

lemma canon_printable:
  assumes P: "\<And>c. 32 \<le> c \<Longrightarrow> c < 128 \<Longrightarrow> P c"
  shows "canon_text v = Some t \<Longrightarrow> val_chars P v \<Longrightarrow> printable P t"
proof (induction v arbitrary: t rule: pyval_induct)
  case (PList vs)
  then obtain us where us: "t = 91 # join_comma us @ [93]"
    and all: "list_all2 (\<lambda>v u. canon_text v = Some u) vs us"
    by (auto simp: array_text_def those_Some_iff list_all2_map1)
  have "printable P u" if "u \<in> set us" for u
    using list_all2_left [OF all that] PList by auto
  then show ?case using us P by (auto intro!: printable_join)
next
  case (PDict kvs)
  obtain kts where t: "t = 123 # join_comma (map member_text (sort_key fst kts)) @ [125]"
    and kts: "list_all2 (\<lambda>kv kt. fst kv = KStr (fst kt) \<and> canon_text (snd kv) = Some (snd kt)) kvs kts"
    using PDict.prems(1) by (auto simp: object_text_def member_text_eq members_those simp del: map_map)
  have "printable P (member_text kt)" if kt: "kt \<in> set kts" for kt
  proof -
    obtain kv where kv: "kv \<in> set kvs" "fst kv = KStr (fst kt)" "canon_text (snd kv) = Some (snd kt)"
      using list_all2_left [OF kts kt] by blast
    have "printable P (snd kt)" using PDict.IH [OF kv(1,3)] PDict.prems(2) kv(1) by simp
    moreover have "key_chars P (fst kv)" using PDict.prems(2) kv(1) by simp
    ultimately show ?thesis using printable_quote [OF P] P kv(2) by (simp add: member_text_def)
  qed
  then show ?case using t P by (auto intro!: printable_join)
qed (auto simp: printable_quote [OF P] printable_float [OF P] printable_int [OF P] lit_def P split: if_splits)

lemma wf_val_chars: "wf_val v \<Longrightarrow> val_chars (\<lambda>c. c < 0x110000) v"
proof (induction v rule: pyval_induct)
  case (PDict kvs)
  have "key_chars (\<lambda>c. c < 0x110000) k" if "wf_key k" for k
    using that by (cases k) (simp_all add: wf_str_def)
  with PDict show ?case by simp
qed (auto simp: wf_str_def)

lemma canon_text_wf:
  assumes "canon_text v = Some t" and "wf_val v"
  shows "c \<in> set t \<Longrightarrow> 32 \<le> c \<and> c < 0x110000"
  using canon_printable [OF _ assms(1) wf_val_chars [OF assms(2)]] by (auto simp: printable_def)

lemma canon_text_scalar:
  assumes "canon_text v = Some t" and "val_chars (\<lambda>c. c < 0x110000 \<and> \<not> is_surrogate c) v"
  shows "scalar_str t"
  using canon_printable [OF _ assms] by (auto simp: printable_def scalar_str_def list_all_iff is_surrogate_def)

lemma hd_ascii:
  assumes "reads t v" and "canon_text w = Some t"
  shows "hd t < 128"
proof (cases w)
  case (PFloat x)
  then show ?thesis using printable_float [of "\<lambda>c. c < 128" x] assms
    by (cases t) (auto simp: reads_def split: if_splits)
next
  case (PInt n)
  then show ?thesis using printable_int [of "\<lambda>c. c < 128" n] assms
    by (cases t) (auto simp: reads_def split: if_splits)
qed (use assms in \<open>auto simp: lit_def quote_def array_text_def object_text_def split: if_splits\<close>)

lemma utf8_char_nonzero: "0 < c \<Longrightarrow> c < 0x110000 \<Longrightarrow> byte_of 0 \<notin> set (utf8_char c)"
proof -
  assume c: "0 < c" "c < 0x110000"
  have m: "k mod 64 < 64" for k :: nat by simp
  have "c div 64 < 32" if "c < 0x800" using that by auto
  moreover have "c div 4096 < 16" if "c < 0x10000" using that by auto
  moreover have "c div 262144 < 5" using c by auto
  ultimately show ?thesis
    using c m [of c] m [of "c div 64"] m [of "c div 4096"] by (simp add: utf8_char_def byte_of_eq_iff)
qed

lemma detect_utf8:
  assumes "bs \<noteq> []" and "unat (hd bs) < 128" and "\<forall>b \<in> set bs. unat b \<noteq> 0"
  shows "detect_encoding bs = Utf8"
proof -
  obtain a r where bs: "bs = a # r" using assms(1) by (cases bs) auto
  show ?thesis using assms bs
    by (cases r) (auto simp: detect_encoding_def starts_with_def Let_def)
qed

section \<open>The round trip on bytes\<close>

text \<open>The canonical bytes of a value: \<^verbatim>\<open>json.dumps(...).encode("utf-8")\<close>, where both succeed.\<close>

definition canon_enc :: "pyval \<Rightarrow> bytestr option" where
  "canon_enc v = Option.bind (canon_text v) encode_utf8"

lemma canon_enc_textD:
  assumes "canon_enc v = Some bs" and "wf_val v"
  obtains t where "canon_text v = Some t" "scalar_str t" "bs = concat (map utf8_char t)"
proof -
  obtain t where t: "canon_text v = Some t" "encode_utf8 t = Some bs"
    using assms(1) by (auto simp: canon_enc_def bind_eq_Some_conv)
  then have "scalar_str t" "bs = concat (map utf8_char t)"
    using canon_text_wf [OF t(1) assms(2)]
    by (auto simp: encode_utf8_def scalar_str_def list_all_iff list_ex_iff split: if_splits)
  with t that show thesis by blast
qed

theorem loads_canon:
  assumes "canon_enc v = Some bs" and "wf_val v"
  shows "loads_bytes bs = Inr (norm_val v)"
proof -
  obtain t where t: "canon_text v = Some t" "scalar_str t" "bs = concat (map utf8_char t)"
    using assms by (rule canon_enc_textD)
  have rd: "reads t (norm_val v)" using t(1) assms(2) by (rule reads_canon)
  obtain c q where cq: "t = c # q" using rd by (cases t) (auto simp: reads_def)
  have c: "c < 128" using hd_ascii [OF rd t(1)] cq by simp
  have "byte_of 0 \<notin> set (utf8_char d)" if "d \<in> set t" for d
    using canon_text_wf [OF t(1) assms(2) that] by (intro utf8_char_nonzero) simp_all
  then have "\<forall>b \<in> set bs. unat b \<noteq> 0" using t(3) by (auto simp: byte_of_def unat_eq_0)
  moreover have "bs = byte_of c # concat (map utf8_char q)" using t(3) cq c by (simp add: utf8_char_def)
  ultimately have "detect_encoding bs = Utf8" using c by (intro detect_utf8) simp_all
  then have "decode_json bs = Some t"
    using t(2,3) by (simp add: decode_json_def decode_concat_utf8)
  moreover have "skip_ws t = t" using skip_ws_reads [OF rd, of "[]"] by simp
  moreover have "scan_once t = Inr (norm_val v, [])" using rd by (auto simp: reads_def dest: spec [of _ "[]"])
  ultimately show ?thesis by (simp add: loads_bytes_def) (simp add: skip_ws_def)
qed

lemma canon_enc_norm [simp]: "canon_enc (norm_val v) = canon_enc v"
  by (simp add: canon_enc_def)

text \<open>Two values with the same canonical bytes are the same value up to the order of object keys.\<close>

theorem canon_enc_inject:
  assumes "canon_enc v = Some bs" and "canon_enc w = Some bs" and "wf_val v" and "wf_val w"
  shows "norm_val v = norm_val w"
  using loads_canon [OF assms(1,3)] loads_canon [OF assms(2,4)] by simp

lemma canon_enc_no_lf:
  assumes "canon_enc v = Some bs" and "wf_val v"
  shows "byte_of 10 \<notin> set bs" and "bs \<noteq> []"
proof -
  obtain t where t: "canon_text v = Some t" "scalar_str t" "bs = concat (map utf8_char t)"
    using assms by (rule canon_enc_textD)
  have "byte_of 10 \<notin> set (utf8_char d)" if "d \<in> set t" for d
    using canon_text_wf [OF t(1) assms(2) that] by (intro utf8_char_no_lf) auto
  then show "byte_of 10 \<notin> set bs" using t(3) by auto
  have "t \<noteq> []" using reads_canon [OF t(1) assms(2)] by (auto simp: reads_def)
  moreover have "utf8_char d \<noteq> []" for d by (simp add: utf8_char_def)
  ultimately show "bs \<noteq> []" using t(3) by (cases t) auto
qed

lemma canon_enc_scalar:
  assumes "canon_text v = Some t" and "val_chars (\<lambda>c. c < 0x110000 \<and> \<not> is_surrogate c) v"
  shows "canon_enc v = Some (concat (map utf8_char t))"
  using assms canon_text_scalar encode_utf8_scalar by (simp add: canon_enc_def)

end
