(* ===== verification/Py_Json_Wf.thy ===== *)
theory Py_Json_Wf
  imports Py_Json
begin

text \<open>
  What \<^verbatim>\<open>json.loads\<close> returns is a well-formed Python value made of JSON types only: code points in
  range, the keys of every object distinct text, integers of at most 4300 digits, no value of a foreign type.
\<close>

fun is_kstr :: "pykey \<Rightarrow> bool" where
  "is_kstr (KStr s) = True"
| "is_kstr (KOther n) = False"

primrec json_typed :: "pyval \<Rightarrow> bool" where
  "json_typed PNone = True"
| "json_typed (PBool b) = True"
| "json_typed (PInt n) = (length (dec (nat \<bar>n\<bar>)) \<le> max_str_digits)"
| "json_typed (PFloat x) = True"
| "json_typed (PStr s) = True"
| "json_typed (PList vs) = list_all id (map json_typed vs)"
| "json_typed (PDict kvs) =
     list_all (\<lambda>(k, b). is_kstr k \<and> b) (map (map_prod id json_typed) kvs)"
| "json_typed (POther t) = False"

lemma json_typed_PDict [simp]:
  "json_typed (PDict kvs) \<longleftrightarrow>
     (\<forall>kv \<in> set kvs. is_kstr (fst kv) \<and> json_typed (snd kv))"
  by (auto simp: list_all_iff split: prod.splits)

lemma json_typed_PList [simp]: "json_typed (PList vs) \<longleftrightarrow> (\<forall>v \<in> set vs. json_typed v)"
  by (auto simp: list_all_iff)

declare json_typed.simps(6,7) [simp del]

lemma wf_str_Cons [simp]: "wf_str (c # s) \<longleftrightarrow> c < 0x110000 \<and> wf_str s"
  by (simp add: wf_str_def)

lemma wf_str_Nil [simp]: "wf_str []"
  by (simp add: wf_str_def)

lemma wf_str_append [simp]: "wf_str (s @ t) \<longleftrightarrow> wf_str s \<and> wf_str t"
  by (simp add: wf_str_def)

lemma wf_str_drop [intro]: "wf_str s \<Longrightarrow> wf_str (drop n s)"
  by (auto simp: wf_str_def list_all_iff dest: in_set_dropD)

lemma wf_str_dropWhile [intro]: "wf_str s \<Longrightarrow> wf_str (dropWhile p s)"
  by (auto simp: wf_str_def list_all_iff dest: set_dropWhileD)

lemma wf_skip_ws: "wf_str s \<Longrightarrow> skip_ws s = r \<Longrightarrow> wf_str r"
  by (auto simp: skip_ws_def)

lemma hex4_bound:
  assumes "hex4 r = Some (u, r')" and "wf_str r"
  shows "u < 0x10000 \<and> wf_str r'"
proof -
  obtain a b c d q where r: "r = a # b # c # d # q"
    using assms by (cases r rule: hex4.cases) auto
  have h: "hex_val x = Some n \<Longrightarrow> n < 16" for x n
    by (auto simp: hex_val_def split: if_splits)
  obtain w x y z where "hex_val a = Some w" "hex_val b = Some x" "hex_val c = Some y" "hex_val d = Some z"
    and u: "u = w * 4096 + x * 256 + y * 16 + z" "r' = q"
    using assms(1) r by (auto split: option.splits)
  with h have "w < 16" "x < 16" "y < 16" "z < 16" by blast+
  with u assms(2) r show ?thesis by simp
qed

lemma unicode_escape_bound:
  assumes "unicode_escape r = Some (u, r')" and "wf_str r"
  shows "u < 0x110000 \<and> wf_str r'"
proof -
  obtain w r1 where w: "hex4 r = Some (w, r1)"
    using assms(1) by (auto simp: unicode_escape_def split: option.splits)
  note b1 = hex4_bound [OF w assms(2)]
  show ?thesis
  proof (cases "if 0xD800 \<le> w \<and> w \<le> 0xDBFF then strip_prefix [92, 117] r1 else None")
    case None
    with assms(1) w b1 show ?thesis by (simp add: unicode_escape_def)
  next
    case (Some r2)
    then have hi: "0xD800 \<le> w" "w \<le> 0xDBFF" by (auto split: if_splits)
    have "wf_str r2" using Some b1 by (auto simp: strip_prefix_def split: if_splits)
    moreover obtain x r3 where x: "hex4 r2 = Some (x, r3)"
      using assms(1) w Some by (auto simp: unicode_escape_def split: option.splits)
    ultimately have "wf_str r3" using hex4_bound by blast
    with assms(1) w Some x b1 hi show ?thesis
      by (auto simp: unicode_escape_def split: if_splits)
  qed
qed

lemma scan_string_wf: "scan_string s = Some (t, r) \<Longrightarrow> wf_str s \<Longrightarrow> wf_str t \<and> wf_str r"
proof (induction s arbitrary: t r rule: scan_string.induct)
  case (2 c s)
  have esc: "simple_escape e = Some u \<Longrightarrow> u < 0x110000" for e u
    by (auto simp: simple_escape_def split: if_splits)
  from 2 show ?case
    by (fastforce split: if_splits list.splits option.splits prod.splits
        dest: unicode_escape_bound esc)
qed simp

text \<open>What the number and constant scanners leave is a part of the text they were given.\<close>

lemma match_rest_all:
  "match_int s = Some (d, r) \<Longrightarrow> list_all P s \<Longrightarrow> list_all P r"
  "match_frac s = (d, r) \<Longrightarrow> list_all P s \<Longrightarrow> list_all P r"
  "match_sign s = (b, r) \<Longrightarrow> list_all P s \<Longrightarrow> list_all P r"
  by (auto simp: match_int_def match_frac_def match_sign_def list_all_iff split: list.splits if_splits
      dest: set_dropWhileD)

lemma match_exp_all: "match_exp s = (e, r) \<Longrightarrow> list_all P s \<Longrightarrow> list_all P r"
  by (auto simp: match_exp_def list_all_iff split: list.splits if_splits prod.splits
      dest!: match_rest_all(3) [of _ _ _ P] set_dropWhileD)

lemma scan_number_all:
  assumes "scan_number s = Inr (v, r)" and "list_all P s"
  shows "list_all P r"
proof -
  have "list_all P (tl s)" using assms(2) by (cases s) auto
  with assms show ?thesis
    by (auto simp: scan_number_def Let_def split: option.splits prod.splits if_splits
        dest!: match_rest_all(1,2) [of _ _ _ P] match_exp_all [of _ _ _ P])
qed

lemma scan_constant_all:
  assumes "scan_constant s = Some (v, r)" and "list_all P s"
  shows "list_all P r"
proof -
  have "strip_prefix p s = Some q \<Longrightarrow> list_all P q" for p q
    using assms(2) by (auto simp: strip_prefix_def list_all_iff split: if_splits dest: in_set_dropD)
  with assms show ?thesis by (auto simp: scan_constant_def split: option.splits)
qed

lemma undec_bound: "list_all is_digit ds \<Longrightarrow> undec ds < 10 ^ length ds"
proof (induction ds rule: rev_induct)
  case (snoc c ds)
  then show ?case by (auto simp: undec_append is_digit_def)
qed (simp add: undec_def)

lemma match_int_read_digits: "match_int s = Some (ds, r) \<Longrightarrow> list_all is_digit ds \<and> ds \<noteq> []"
  by (auto simp: match_int_def list_all_iff is_digit_def [of 48] split: list.splits if_splits dest: set_takeWhileD)

lemma match_int_short:
  assumes "match_int s = Some (ds, r)"
  shows "length (dec (undec ds)) \<le> length ds"
proof -
  have "undec ds < 10 ^ length ds" "0 < length ds"
    using match_int_read_digits [OF assms] undec_bound by auto
  then show ?thesis by (rule length_dec)
qed

lemma scan_number_wf:
  assumes "scan_number s = Inr (v, r)" and "wf_str s"
  shows "wf_val v \<and> json_typed v \<and> wf_str r"
proof -
  have "wf_val v \<and> json_typed v"
    using assms(1) by (auto simp: scan_number_def Let_def split: option.splits prod.splits if_splits dest!: match_int_short)
  then show ?thesis using scan_number_all [OF assms(1)] assms(2) by (simp add: wf_str_def)
qed

lemma scan_constant_wf:
  assumes "scan_constant s = Some (v, r)" and "wf_str s"
  shows "wf_val v \<and> json_typed v \<and> wf_str r"
proof -
  have "wf_val v \<and> json_typed v" using assms(1) by (auto simp: scan_constant_def split: option.splits)
  then show ?thesis using scan_constant_all [OF assms(1)] assms(2) by (simp add: wf_str_def)
qed

definition wf_json :: "pyval \<Rightarrow> bool" where
  "wf_json v \<longleftrightarrow> wf_val v \<and> json_typed v"

lemma wf_json_PDict:
  "wf_json (PDict d) \<longleftrightarrow>
     distinct (map fst d) \<and>
     (\<forall>kv \<in> set d. is_kstr (fst kv) \<and> wf_key (fst kv) \<and> wf_json (snd kv))"
  by (auto simp: wf_json_def)

lemma wf_json_PList: "wf_json (PList vs) \<longleftrightarrow> (\<forall>v \<in> set vs. wf_json v)"
  by (auto simp: wf_json_def)

lemma wf_json_update:
  assumes "wf_json (PDict d)" and "wf_str k" and "wf_json v"
  shows "wf_json (PDict (AList.update (KStr k) v d))"
proof -
  have "distinct (map fst (AList.update (KStr k) v d))"
    using assms(1) by (simp add: distinct_update wf_json_PDict)
  moreover have "kv \<in> set (AList.update (KStr k) v d) \<Longrightarrow> kv = (KStr k, v) \<or> kv \<in> set d" for kv
    by (induction d) (auto split: if_splits)
  ultimately show ?thesis using assms by (fastforce simp: wf_json_PDict)
qed

section \<open>Properties of the scanned values\<close>

text \<open>
  A property \<open>V\<close> of values that holds of whatever the scanner builds. \<open>W\<close> is what is known of the text to read, \<open>S\<close> of the
  strings read from it.
\<close>

locale scanned_values =
  fixes W :: "pystr \<Rightarrow> bool" and S :: "pystr \<Rightarrow> bool" and V :: "pyval \<Rightarrow> bool"
  assumes W_Cons: "W (c # s) \<Longrightarrow> W s"
    and string: "scan_string s = Some (t, r) \<Longrightarrow> W s \<Longrightarrow> S t \<and> W r"
    and number: "scan_number s = Inr (v, r) \<Longrightarrow> W s \<Longrightarrow> V v \<and> W r"
    and const: "scan_constant s = Some (v, r) \<Longrightarrow> W s \<Longrightarrow> V v \<and> W r"
    and V_PStr: "S t \<Longrightarrow> V (PStr t)"
    and V_empty: "V (PList [])" "V (PDict [])"
    and V_snoc: "V (PList vs) \<Longrightarrow> V v \<Longrightarrow> V (PList (vs @ [v]))"
    and V_update: "V (PDict d) \<Longrightarrow> S k \<Longrightarrow> V v \<Longrightarrow> V (PDict (AList.update (KStr k) v d))"
begin

lemma W_drop_ws: "W s \<Longrightarrow> W (dropWhile is_ws s)"
  by (induction s) (auto dest: W_Cons)

lemma W_skip_ws: "W s \<Longrightarrow> skip_ws s = r \<Longrightarrow> W r"
  using W_drop_ws by (auto simp: skip_ws_def)

lemma scan_once_V:
  "scan_once s = Inr (v, r) \<Longrightarrow> W s \<Longrightarrow> V v \<and> W r"
  "scan_items acc s = Inr (v, r) \<Longrightarrow> W s \<Longrightarrow> V (PList acc) \<Longrightarrow> V v \<and> W r"
  "scan_members d s = Inr (v, r) \<Longrightarrow> W s \<Longrightarrow> V (PDict d) \<Longrightarrow> V v \<and> W r"
proof (induction s and acc s and d s arbitrary: v r and v r and v r
    rule: scan_once_scan_items_scan_members.induct)
  case (1 s)
  show ?case
  proof (cases s)
    case Nil
    then show ?thesis using "1.prems" by (simp add: scan_once.simps)
  next
    case (Cons c q)
    have q: "W q" using "1.prems"(2) W_Cons unfolding Cons by blast
    have sk: "W (skip_ws q)" using W_skip_ws [OF q] by simp
    show ?thesis
    proof (cases "c = 34 \<or> c = 123 \<or> c = 91")
      case False
      with "1.prems" Cons show ?thesis
        by (subst (asm) (1) scan_once.simps) (auto split: option.splits dest: const number)
    next
      case True
      with "1.prems"(1) 1(1,2) Cons q sk V_empty show ?thesis
        by (subst (asm) (1) scan_once.simps)
          (auto split: if_splits option.splits list.splits dest: string W_Cons intro: V_PStr)
    qed
  qed
next
  case (2 acc s)
  obtain w r0 where w: "scan_once s = Inr (w, r0)"
    using "2.prems"(1) by (subst (asm) (1) scan_items.simps) (auto split: sum.splits)
  with 2(1) "2.prems"(2) have wr: "V w" "W r0" by auto
  obtain d r1 where d: "skip_ws r0 = d # r1"
    using "2.prems"(1) w by (subst (asm) (1) scan_items.simps) (auto split: list.splits)
  with W_skip_ws [OF wr(2)] have r1: "W r1" by (auto intro: W_Cons)
  have "V (PList (acc @ [w]))" using "2.prems"(3) wr(1) by (rule V_snoc)
  with "2.prems"(1) 2(2) [OF w refl d] w d r1 W_skip_ws [OF r1] show ?case
    by (subst (asm) (1) scan_items.simps) (auto split: if_splits)
next
  case (3 acc s)
  obtain k r1 c q where k: "s = c # q" "scan_string q = Some (k, r1)" "c = 34"
    using "3.prems"(1) by (subst (asm) (1) scan_members.simps) (auto split: list.splits if_splits option.splits)
  then have k1: "S k" "W r1" using string W_Cons "3.prems"(2) by blast+
  obtain d r2 where d: "skip_ws r1 = d # r2"
    using "3.prems"(1) k by (subst (asm) (1) scan_members.simps) (auto split: list.splits)
  then have r2: "W (skip_ws r2)" using W_skip_ws [OF k1(2)] W_skip_ws W_Cons by blast
  have dl: "d = 58 \<and> length (skip_ws r2) < length s"
    using "3.prems"(1) k d by (subst (asm) (1) scan_members.simps) (auto split: if_splits)
  obtain w r3 where w: "scan_once (skip_ws r2) = Inr (w, r3)"
    using "3.prems"(1) k d dl by (subst (asm) (1) scan_members.simps) (auto split: sum.splits)
  have wr: "V w" "W r3"
    using 3(1) [OF k(1) _ k(2) refl d dl w r2] k(3) by auto
  obtain d' r4 where d': "skip_ws r3 = d' # r4"
    using "3.prems"(1) k d dl w by (subst (asm) (1) scan_members.simps) (auto split: list.splits)
  then have r4: "W r4" "W (skip_ws r4)" using W_skip_ws [OF wr(2)] W_skip_ws W_Cons by blast+
  have up: "V (PDict (AList.update (KStr k) w acc))"
    using "3.prems"(3) k1(1) wr(1) by (rule V_update)
  show ?case
  proof (cases "d' = 125")
    case True
    with "3.prems"(1) k d dl w d' up r4 show ?thesis
      by (subst (asm) (1) scan_members.simps) auto
  next
    case False
    with "3.prems"(1) k d dl w d' have "d' = 44 \<and> length (skip_ws r4) < length s"
      and "scan_members (AList.update (KStr k) w acc) (skip_ws r4) = Inr (v, r)"
      by (subst (asm) (1) scan_members.simps, auto split: if_splits)+
    with 3(2) [OF k(1) _ k(2) refl d dl w refl d' False] k(3) r4 up show ?thesis by auto
  qed
qed

lemma loads_text_V: "loads_text s = Inr v \<Longrightarrow> W s \<Longrightarrow> V v"
  by (auto simp: loads_text_def rbind_eq_Inr split: prod.splits if_splits dest!: scan_once_V(1) intro: W_skip_ws)

end

interpretation json_wf: scanned_values wf_str wf_str wf_json
proof (unfold_locales, goal_cases)
  case (9 d k v)
  then show ?case by (rule wf_json_update)
qed (auto simp: wf_json_def dest: scan_string_wf scan_number_wf scan_constant_wf)

text \<open>Decoded text is in range, and without surrogates unless they are let pass.\<close>

lemma decode_utf8_all: "decode_utf8 sp bs = Some s \<Longrightarrow> list_all (\<lambda>c. c < 0x110000 \<and> (sp \<or> \<not> is_surrogate c)) s"
proof (induction sp bs arbitrary: s rule: decode_utf8.induct)
  case (2 sp b bs)
  consider "unat b < 0x80" | "0xC2 \<le> unat b" "unat b < 0xE0" | "0xE0 \<le> unat b" "unat b < 0xF0"
    | "0xF0 \<le> unat b" "unat b < 0xF5"
    using "2.prems" by (auto simp: Let_def not_less split: if_splits)
  then show ?case
  proof cases
    case 1
    have "\<not> is_surrogate (unat b)" using 1 by (simp add: is_surrogate_def)
    with 1 2 show ?thesis by (auto simp: Let_def)
  next
    case 2
    note b = this
    with "2.prems" obtain b1 r where bs: "bs = b1 # r" "is_cont b1" by (auto simp: Let_def split: list.splits if_splits)
    have "(unat b - 0xC0) * 64 + (unat b1 - 0x80) < 0x800" proof -
      have "unat b - 0xC0 \<le> 31" "unat b1 - 0x80 \<le> 63" using b bs(2) unfolding is_cont_def by linarith+
      then show ?thesis by linarith
    qed
    then have "\<not> is_surrogate ((unat b - 0xC0) * 64 + (unat b1 - 0x80))" "(unat b - 0xC0) * 64 + (unat b1 - 0x80) < 0x110000"
      by (simp_all add: is_surrogate_def)
    with b "2.prems" "2.IH"(2) [OF refl _ _ _ bs] show ?thesis
      using bs by (auto simp: Let_def)
  next
    case 3
    note b = this
    with "2.prems" obtain b1 b2 r where bs: "bs = b1 # b2 # r" "is_cont b1" "is_cont b2"
      by (auto simp: Let_def split: list.splits if_splits)
    have "(unat b - 0xE0) * 4096 + (unat b1 - 0x80) * 64 + (unat b2 - 0x80) < 0x110000"
    proof -
      have "unat b - 0xE0 \<le> 15" "unat b1 - 0x80 \<le> 63" "unat b2 - 0x80 \<le> 63"
        using b bs(2,3) unfolding is_cont_def by linarith+
      then show ?thesis by linarith
    qed
    with b bs "2.prems" "2.IH"(3) [OF refl _ _ _ _ bs(1) _ refl] show ?thesis
      by (auto simp: Let_def split: if_splits)
  next
    case 4
    note b = this
    with "2.prems" obtain b1 b2 b3 r where bs: "bs = b1 # b2 # b3 # r"
      by (auto simp: Let_def split: list.splits if_splits)
    have "\<not> is_surrogate c" if "0x10000 \<le> c" for c using that by (simp add: is_surrogate_def)
    with b "2.prems" "2.IH"(4) [OF refl _ _ _ _ _ bs(1) _ _ refl] show ?thesis
      unfolding bs by (auto simp: Let_def split: if_splits)
  qed
qed simp

lemma decode_utf8_wf: "decode_utf8 sp bs = Some s \<Longrightarrow> wf_str s"
  by (drule decode_utf8_all) (auto simp: wf_str_def list_all_iff)

lemma units16_bound: "units16 be b = Some us \<Longrightarrow> \<forall>x \<in> set b. x < 256 \<Longrightarrow> \<forall>u \<in> set us. u < 65536"
  by (induction be b arbitrary: us rule: units16.induct) (auto split: if_splits)

lemma join_surrogates_wf: "\<forall>u \<in> set us. u < 65536 \<Longrightarrow> wf_str (join_surrogates us)"
  by (induction us rule: join_surrogates.induct) auto

lemma units32_wf: "units32 be b = Some s \<Longrightarrow> wf_str s"
  by (induction be b arbitrary: s rule: units32.induct) (auto simp: Let_def split: if_splits)

lemma decode_json_wf:
  assumes "decode_json bs = Some s"
  shows "wf_str s"
proof -
  have b: "\<forall>x \<in> set (map unat bs). x < 256" using unat_byte_bound by auto
  then have "\<forall>x \<in> set (drop 2 (map unat bs)). x < 256" by (meson in_set_dropD)
  then have "units16 be (map unat bs) = Some us \<Longrightarrow> wf_str (join_surrogates us)"
    "units16 be (drop 2 (map unat bs)) = Some us \<Longrightarrow> wf_str (join_surrogates us)" for be us
    using b units16_bound join_surrogates_wf by blast+
  with assms show ?thesis
    by (auto simp: decode_json_def Let_def split: json_encoding.splits dest: decode_utf8_wf units32_wf)
qed

theorem loads_bytes_wf: "loads_bytes bs = Inr v \<Longrightarrow> wf_json v"
  by (auto simp: loads_bytes_def rbind_eq_Inr split: option.splits prod.splits if_splits
      dest!: decode_json_wf json_wf.scan_once_V(1) intro: wf_skip_ws)

theorem loads_text_wf: "loads_text s = Inr v \<Longrightarrow> wf_str s \<Longrightarrow> wf_json v"
  by (rule json_wf.loads_text_V)

end
