(* ===== verification/Py_Datetime.thy ===== *)
theory Py_Datetime
  imports Prelude
begin

text \<open>
  The part of Python's \<^verbatim>\<open>datetime\<close> and \<^verbatim>\<open>re\<close> the program uses on UTC timestamps: the shape test of
  the regular expression, the reading of \<^verbatim>\<open>datetime.fromisoformat(text[:-1] + "+00:00")\<close>, and the
  proleptic Gregorian calendar as day numbers. An instant is its number of microseconds since
  0001-01-01T00:00:00Z.
\<close>

section \<open>The calendar\<close>

definition is_leap :: "nat \<Rightarrow> bool" where
  "is_leap y \<longleftrightarrow> 4 dvd y \<and> (\<not> 100 dvd y \<or> 400 dvd y)"

definition days_in_month :: "nat \<Rightarrow> nat \<Rightarrow> nat" where
  "days_in_month y m =
     (if m = 2 then (if is_leap y then 29 else 28)
      else if m = 4 \<or> m = 6 \<or> m = 9 \<or> m = 11 then 30 else 31)"

definition days_before_month :: "nat \<Rightarrow> nat \<Rightarrow> nat" where
  "days_before_month y m =
     [0, 0, 31, 59, 90, 120, 151, 181, 212, 243, 273, 304, 334, 365] ! m
       + (if 2 < m \<and> is_leap y then 1 else 0)"

definition days_before_year :: "nat \<Rightarrow> nat" where
  "days_before_year y =
     (y - 1) * 365 + (y - 1) div 4 - (y - 1) div 100 + (y - 1) div 400"

definition ymd2ord :: "nat \<times> nat \<times> nat \<Rightarrow> nat" where
  "ymd2ord = (\<lambda>(y, m, d). days_before_year y + days_before_month y m + d)"

definition valid_date :: "nat \<times> nat \<times> nat \<Rightarrow> bool" where
  "valid_date = (\<lambda>(y, m, d). 1 \<le> y \<and> y \<le> 9999 \<and> 1 \<le> m \<and> m \<le> 12 \<and> 1 \<le> d \<and> d \<le> days_in_month y m)"

text \<open>The date of a day number, as CPython's \<^verbatim>\<open>ord_to_ymd\<close> splits it in cycles of 400, 100, 4 and 1 years.\<close>

definition ord_year :: "nat \<Rightarrow> nat \<times> nat" where
  "ord_year n =
     (let a = (n - 1) div 146097; r = (n - 1) mod 146097;
          b = min 3 (r div 36524); s = r - 36524 * b;
          c = s div 1461; t = s mod 1461;
          d = min 3 (t div 365)
      in (400 * a + 100 * b + 4 * c + d + 1, t - 365 * d))"

definition month_of :: "nat \<Rightarrow> nat \<Rightarrow> nat" where
  "month_of y k = length (filter (\<lambda>m. days_before_month y m \<le> k) [1..<13])"

definition ord2ymd :: "nat \<Rightarrow> nat \<times> nat \<times> nat" where
  "ord2ymd n = (case ord_year n of (y, k) \<Rightarrow>
     (y, month_of y k, k - days_before_month y (month_of y k) + 1))"

section \<open>Reading a timestamp\<close>

text \<open>The code points \<^verbatim>\<open>\d\<close> matches: sixty-six blocks of ten decimal digits.\<close>

definition nd_zeros :: "nat list" where
  "nd_zeros =
     [0x30, 0x660, 0x6f0, 0x7c0, 0x966, 0x9e6, 0xa66, 0xae6, 0xb66, 0xbe6, 0xc66, 0xce6, 0xd66,
      0xde6, 0xe50, 0xed0, 0xf20, 0x1040, 0x1090, 0x17e0, 0x1810, 0x1946, 0x19d0, 0x1a80, 0x1a90,
      0x1b50, 0x1bb0, 0x1c40, 0x1c50, 0xa620, 0xa8d0, 0xa900, 0xa9d0, 0xa9f0, 0xaa50, 0xabf0,
      0xff10, 0x104a0, 0x10d30, 0x11066, 0x110f0, 0x11136, 0x111d0, 0x112f0, 0x11450, 0x114d0,
      0x11650, 0x116c0, 0x11730, 0x118e0, 0x11950, 0x11c50, 0x11d50, 0x11da0, 0x16a60, 0x16ac0,
      0x16b50, 0x1d7ce, 0x1d7d8, 0x1d7e2, 0x1d7ec, 0x1d7f6, 0x1e140, 0x1e2f0, 0x1e950, 0x1fbf0]"

definition is_nd :: "nat \<Rightarrow> bool" where
  "is_nd c \<longleftrightarrow> list_ex (\<lambda>z. z \<le> c \<and> c < z + 10) nd_zeros"

text \<open>The fixed part of the pattern: \<^verbatim>\<open>d\<close> stands for a digit, every other character for itself.\<close>

fun match_shape :: "pystr \<Rightarrow> pystr \<Rightarrow> bool" where
  "match_shape [] [] = True"
| "match_shape (p # ps) (c # cs) = ((if p = 100 then is_nd c else c = p) \<and> match_shape ps cs)"
| "match_shape _ _ = False"

text \<open>
  A full match of \<^verbatim>\<open>\d{4}-\d{2}-\d{2}T\d{2}:\d{2}:\d{2}(?:\.\d+)?Z\<close>; with \<open>Some n\<close> the fraction has
  at most \<open>n\<close> digits, as in \<^verbatim>\<open>\d{1,9}\<close>.
\<close>

definition utc_shape :: "nat option \<Rightarrow> pystr \<Rightarrow> bool" where
  "utc_shape bound s \<longleftrightarrow>
     match_shape (lit ''dddd-dd-ddTdd:dd:dd'') (take 19 s) \<and>
     s \<noteq> [] \<and> last s = 90 \<and>
     (let f = butlast (drop 19 s) in
      f = [] \<or>
      (hd f = 46 \<and> tl f \<noteq> [] \<and> list_all is_nd (tl f) \<and>
       (case bound of None \<Rightarrow> True | Some n \<Rightarrow> length (tl f) \<le> n)))"

text \<open>The fields of an aware UTC \<^verbatim>\<open>datetime\<close>.\<close>

record dt =
  dt_date :: "nat \<times> nat \<times> nat"
  dt_hour :: nat
  dt_minute :: nat
  dt_second :: nat
  dt_micro :: nat

definition valid_dt :: "dt \<Rightarrow> bool" where
  "valid_dt t \<longleftrightarrow> valid_date (dt_date t) \<and> dt_hour t < 24 \<and> dt_minute t < 60
     \<and> dt_second t < 60 \<and> dt_micro t < 1000000"

definition digits_at :: "nat \<Rightarrow> nat \<Rightarrow> pystr \<Rightarrow> pystr" where
  "digits_at i n s = take n (drop i s)"

text \<open>
  \<^verbatim>\<open>datetime.fromisoformat(s[:-1] + "+00:00")\<close> on a text of the shape above; \<open>None\<close> is \<^verbatim>\<open>ValueError\<close>.
  The date, the time and the first six digits of the fraction must be ASCII digits; further
  digits of the fraction are dropped without being read.
\<close>

definition fromisoformat_utc :: "pystr \<Rightarrow> dt option" where
  "fromisoformat_utc s =
     (let field = (\<lambda>i n. undec (digits_at i n s));
          frac = take 6 (tl (butlast (drop 19 s)));
          t = \<lparr>dt_date = (field 0 4, field 5 2, field 8 2), dt_hour = field 11 2,
               dt_minute = field 14 2, dt_second = field 17 2,
               dt_micro = undec (frac @ replicate (6 - length frac) 48)\<rparr>
      in if list_all (\<lambda>(i, n). list_all is_digit (digits_at i n s))
              [(0, 4), (5, 2), (8, 2), (11, 2), (14, 2), (17, 2)]
            \<and> list_all is_digit frac \<and> valid_dt t
         then Some t else None)"

definition seconds_of_day :: "dt \<Rightarrow> nat" where
  "seconds_of_day t = dt_hour t * 3600 + dt_minute t * 60 + dt_second t"

text \<open>Microseconds since 0001-01-01T00:00:00Z.\<close>

definition dt_micros :: "dt \<Rightarrow> nat" where
  "dt_micros t = ((ymd2ord (dt_date t) - 1) * 86400 + seconds_of_day t) * 1000000 + dt_micro t"

definition max_micros :: nat where
  "max_micros = 3652059 * 86400 * 1000000"

definition dt_of_micros :: "nat \<Rightarrow> dt" where
  "dt_of_micros u =
     (let s = u div 1000000; k = s mod 86400 in
      \<lparr>dt_date = ord2ymd (s div 86400 + 1), dt_hour = k div 3600, dt_minute = k mod 3600 div 60,
       dt_second = k mod 60, dt_micro = u mod 1000000\<rparr>)"

section \<open>Writing a timestamp\<close>

text \<open>\<^verbatim>\<open>f"{n:0{w}d}"\<close>: the number in at least \<open>w\<close> digits.\<close>

fun pad_dec :: "nat \<Rightarrow> nat \<Rightarrow> pystr" where
  "pad_dec 0 n = []"
| "pad_dec (Suc w) n = pad_dec w (n div 10) @ [48 + n mod 10]"

text \<open>\<^verbatim>\<open>isoformat(timespec="microseconds").replace("+00:00", "Z")\<close> of a UTC \<^verbatim>\<open>datetime\<close>.\<close>

definition iso_utc :: "dt \<Rightarrow> pystr" where
  "iso_utc t = (case dt_date t of (y, m, d) \<Rightarrow>
     pad_dec 4 y @ [45] @ pad_dec 2 m @ [45] @ pad_dec 2 d @ [84] @
     pad_dec 2 (dt_hour t) @ [58] @ pad_dec 2 (dt_minute t) @ [58] @ pad_dec 2 (dt_second t) @
     [46] @ pad_dec 6 (dt_micro t) @ [90])"

end
