(* ===== verification/Sha256.thy ===== *)
theory Sha256
  imports Prelude
begin

text \<open>
  \<^verbatim>\<open>hashlib.sha256\<close> as FIPS 180-4 defines it, on bytes. The chain's theorems use only that a
  digest has 32 bytes and that equal input gives equal output; the function is concrete so that no
  statement carries a hash parameter.
\<close>

unbundle bit_operations_syntax

type_synonym w32 = "32 word"

text \<open>
  The constants are the first 32 bits of the fractional parts of the cube roots of the first 64 primes
  and of the square roots of the first 8. \<open>root_bits k n r b\<close> fills the \<open>b\<close> low bits of the \<open>k\<close>-th root of
  \<open>n\<close>, whose higher bits are \<open>r\<close>, from the highest to the lowest.
\<close>

fun root_bits :: "nat \<Rightarrow> nat \<Rightarrow> nat \<Rightarrow> nat \<Rightarrow> nat" where
  "root_bits k n r 0 = r"
| "root_bits k n r (Suc b) = root_bits k n (if (r + 2 ^ b) ^ k \<le> n then r + 2 ^ b else r) b"

definition root_fraction :: "nat \<Rightarrow> nat \<Rightarrow> w32" where
  "root_fraction k p = word_of_nat (root_bits k (p * 2 ^ (32 * k)) 0 40)"

definition first_primes :: "nat list" where
  "first_primes = filter (\<lambda>n. list_all (\<lambda>d. n mod d \<noteq> 0) [2..<n]) [2..<312]"

definition sha_k :: "w32 list" where
  "sha_k = map (root_fraction 3) first_primes"

record sha_state =
  sa :: w32
  sb :: w32
  sc :: w32
  sd :: w32
  se :: w32
  sf :: w32
  sg :: w32
  sh :: w32

definition sha_init :: sha_state where
  "sha_init =
     \<lparr>sa = root_fraction 2 2, sb = root_fraction 2 3, sc = root_fraction 2 5, sd = root_fraction 2 7,
      se = root_fraction 2 11, sf = root_fraction 2 13, sg = root_fraction 2 17, sh = root_fraction 2 19\<rparr>"

definition rotr :: "nat \<Rightarrow> w32 \<Rightarrow> w32" where
  "rotr n x = (drop_bit n x) OR (push_bit (32 - n) x)"

definition small_sigma0 :: "w32 \<Rightarrow> w32" where
  "small_sigma0 x = rotr 7 x XOR rotr 18 x XOR drop_bit 3 x"

definition small_sigma1 :: "w32 \<Rightarrow> w32" where
  "small_sigma1 x = rotr 17 x XOR rotr 19 x XOR drop_bit 10 x"

definition big_sigma0 :: "w32 \<Rightarrow> w32" where
  "big_sigma0 x = rotr 2 x XOR rotr 13 x XOR rotr 22 x"

definition big_sigma1 :: "w32 \<Rightarrow> w32" where
  "big_sigma1 x = rotr 6 x XOR rotr 11 x XOR rotr 25 x"

text \<open>
  One round. The message schedule is kept as its next 16 words: each round uses the first and
  appends the word 16 places later.
\<close>

definition sha_round :: "w32 \<Rightarrow> sha_state \<times> w32 list \<Rightarrow> sha_state \<times> w32 list" where
  "sha_round k p = (case p of (s, ws) \<Rightarrow>
     let w = ws ! 0;
         ch = (se s AND sf s) XOR (NOT (se s) AND sg s);
         t1 = sh s + big_sigma1 (se s) + ch + k + w;
         maj = (sa s AND sb s) XOR (sa s AND sc s) XOR (sb s AND sc s);
         t2 = big_sigma0 (sa s) + maj;
         w' = small_sigma1 (ws ! 14) + ws ! 9 + small_sigma0 (ws ! 1) + w
     in (\<lparr>sa = t1 + t2, sb = sa s, sc = sb s, sd = sc s,
          se = sd s + t1, sf = se s, sg = sf s, sh = sg s\<rparr>, drop 1 ws @ [w']))"

definition word_of_bytes :: "bytestr \<Rightarrow> w32" where
  "word_of_bytes bs = word_of_nat (foldl (\<lambda>n b. 256 * n + unat b) 0 bs)"

definition block_words :: "bytestr \<Rightarrow> w32 list" where
  "block_words bs = map (\<lambda>i. word_of_bytes (take 4 (drop (4 * i) bs))) [0..<16]"

definition sha_block :: "sha_state \<Rightarrow> bytestr \<Rightarrow> sha_state" where
  "sha_block s bs = (case fold sha_round sha_k (s, block_words bs) of (t, _) \<Rightarrow>
     \<lparr>sa = sa s + sa t, sb = sb s + sb t, sc = sc s + sc t, sd = sd s + sd t,
      se = se s + se t, sf = sf s + sf t, sg = sg s + sg t, sh = sh s + sh t\<rparr>)"

fun sha_blocks :: "sha_state \<Rightarrow> bytestr \<Rightarrow> sha_state" where
  "sha_blocks s bs = (if bs = [] then s else sha_blocks (sha_block s (take 64 bs)) (drop 64 bs))"

declare sha_blocks.simps [simp del]

text \<open>Padding: one bit, zeros up to 56 bytes modulo 64, the length in bits as 8 bytes.\<close>

definition be_bytes :: "nat \<Rightarrow> nat \<Rightarrow> bytestr" where
  "be_bytes k n = map (\<lambda>i. byte_of (n div 256 ^ (k - 1 - i) mod 256)) [0..<k]"

definition sha_pad :: "bytestr \<Rightarrow> bytestr" where
  "sha_pad m = m @ [byte_of 0x80] @ replicate ((119 - length m mod 64) mod 64) (byte_of 0) @
     be_bytes 8 (8 * length m mod 2 ^ 64)"

definition state_bytes :: "sha_state \<Rightarrow> bytestr" where
  "state_bytes s =
     concat (map (\<lambda>w. be_bytes 4 (unat w)) [sa s, sb s, sc s, sd s, se s, sf s, sg s, sh s])"

definition sha256 :: "bytestr \<Rightarrow> bytestr" where
  "sha256 m = state_bytes (sha_blocks sha_init (sha_pad m))"

text \<open>\<^verbatim>\<open>hashlib.sha256(data).hexdigest()\<close>\<close>

definition sha256_hex :: "bytestr \<Rightarrow> pystr" where
  "sha256_hex m = hexlify (sha256 m)"

lemma length_sha256 [simp]: "length (sha256 m) = 32"
  by (simp add: sha256_def state_bytes_def be_bytes_def)

lemma length_sha256_hex [simp]: "length (sha256_hex m) = 64"
  by (simp add: sha256_hex_def)

lemma sha256_hex_is_hex: "c \<in> set (sha256_hex m) \<Longrightarrow> is_hex c"
  by (simp add: sha256_hex_def hexlify_hex)

lemma fromhex_sha256_hex [simp]: "fromhex (sha256_hex m) = sha256 m"
  by (simp add: sha256_hex_def)

lemma sha256_hex_inject [simp]: "sha256_hex m = sha256_hex n \<longleftrightarrow> sha256 m = sha256 n"
  by (metis fromhex_hexlify sha256_hex_def)

text \<open>The padded message is a whole number of blocks.\<close>

lemma length_sha_pad: "length (sha_pad m) mod 64 = 0"
proof -
  have "(n + (119 - n mod 64) mod 64 + 9) mod 64 = 0" for n :: nat
  proof -
    have r: "n mod 64 < 64" by simp
    have "(n + (119 - n mod 64) mod 64 + 9) mod 64 = (n mod 64 + (119 - n mod 64) + 9) mod 64"
      by (metis mod_add_left_eq mod_add_right_eq)
    also have "n mod 64 + (119 - n mod 64) + 9 = 128" using r by linarith
    finally show ?thesis by simp
  qed
  then show ?thesis by (simp add: sha_pad_def be_bytes_def ac_simps)
qed

end
