(* ===== verification/Record_Format.thy ===== *)
theory Record_Format
  imports Py_Json_Roundtrip Py_Json_Wf Py_Datetime Sha256
begin

text \<open>
  The record format of \<^verbatim>\<open>src/forensics/_format.py\<close>: the field sets, the validation of events and of
  stored records on every branch, the canonical bytes and the hash of an unsigned record. The
  declarative counterpart \<open>event_ok\<close> and \<open>record_ok\<close> say which dictionaries the validators accept;
  the lemmas show that an accepted dictionary always has canonical bytes, that acceptance does not
  depend on the order of the keys, and which exceptions can leave the validators.
\<close>

section \<open>Constants\<close>

definition GENESIS_PREV_HASH :: pystr where
  "GENESIS_PREV_HASH = replicate 64 48"

definition V1_EVENT_FIELDS :: "string list" where
  "V1_EVENT_FIELDS =
     [''ts_utc'', ''node_id'', ''raw_csi_hash'', ''features_hash'', ''model_id'',
      ''model_config_hash'', ''class'', ''confidence'', ''top_shap'']"

definition V2_COMMON_EVENT_FIELDS :: "string list" where
  "V2_COMMON_EVENT_FIELDS =
     [''format_version'', ''event_type'', ''ts_utc'', ''node_id'', ''raw_csi_hash'']"

definition V2_INGESTION_EVENT_FIELDS :: "string list" where
  "V2_INGESTION_EVENT_FIELDS =
     V2_COMMON_EVENT_FIELDS @ [''collector_schema_version'', ''collector_sequence_number'']"

definition V2_CLASSIFICATION_EVENT_FIELDS :: "string list" where
  "V2_CLASSIFICATION_EVENT_FIELDS =
     V2_COMMON_EVENT_FIELDS @
     [''features_hash'', ''model_id'', ''model_config_hash'', ''class'', ''confidence'', ''top_shap'']"

definition MANAGED_FIELDS :: "string list" where
  "MANAGED_FIELDS = [''seq'', ''prev_hash'', ''record_hash'', ''signature'']"

section \<open>Exceptions\<close>

text \<open>One constructor per \<^verbatim>\<open>raise RecordFormatError\<close>, with the values its message shows.\<close>

datatype format_reason =
    NotEncodable
  | NotScalarValues
  | EventNotMapping
  | EventKeysNotStr
  | EventMissing "pystr list"
  | EventUnknown "pystr list"
  | RecordNotObject
  | RecordKeysNotStr
  | RecordMissing "pystr list"
  | BadSeq
  | BadSignature
  | BadTimestampShape
  | BadTimestampValue
  | ConfidenceNotNumber
  | ConfidenceRange
  | BadCollectorSequence
  | MissingFormatVersion
  | BadFormatVersion
  | BadEventType
  | NotNonemptyString string
  | NotHash string
  | JsonIntRange pystr
  | JsonNonFinite pystr
  | JsonNonStrKey pystr
  | JsonUnsupported pystr
  | HasSurrogate pystr

text \<open>
  What can leave the functions: \<^verbatim>\<open>RecordFormatError\<close>, a \<^verbatim>\<open>KeyError\<close> of a subscript, and the
  \<^verbatim>\<open>OverflowError\<close> of \<^verbatim>\<open>math.isfinite\<close> on an integer too large for a float.
\<close>

datatype format_error = RecordFormatError format_reason | KeyError string | OverflowError

section \<open>Canonical bytes and hash\<close>

definition canonical_json_bytes :: "pydict \<Rightarrow> format_error + bytestr" where
  "canonical_json_bytes d =
     (case canon_text (PDict d) of
        None \<Rightarrow> Inl (RecordFormatError NotEncodable)
      | Some t \<Rightarrow>
          (case encode_utf8 t of
             None \<Rightarrow> Inl (RecordFormatError NotScalarValues)
           | Some bs \<Rightarrow> Inr bs))"

definition unsigned_of :: "pydict \<Rightarrow> pydict" where
  "unsigned_of d =
     filter (\<lambda>kv. fst kv \<notin> {KStr (lit ''record_hash''), KStr (lit ''signature'')}) d"

definition hash_unsigned_record :: "pydict \<Rightarrow> format_error + bytestr \<times> pystr" where
  "hash_unsigned_record d =
     rbind (canonical_json_bytes (unsigned_of d)) (\<lambda>bs. Inr (bs, sha256_hex bs))"

section \<open>Field checks\<close>

definition ditem :: "pydict \<Rightarrow> string \<Rightarrow> format_error + pyval" where
  "ditem d k = (case dget d k of None \<Rightarrow> Inl (KeyError k) | Some v \<Rightarrow> Inr v)"

definition require_unicode_scalars :: "pystr \<Rightarrow> pystr \<Rightarrow> format_error + unit" where
  "require_unicode_scalars s path =
     raise_if (list_ex is_surrogate s) (RecordFormatError (HasSurrogate path))"

definition require_nonempty_string :: "pyval \<Rightarrow> string \<Rightarrow> format_error + unit" where
  "require_nonempty_string v field =
     (case v of
        PStr s \<Rightarrow>
          rbind (raise_if (s = []) (RecordFormatError (NotNonemptyString field))) (\<lambda>_.
            require_unicode_scalars s (lit field))
      | _ \<Rightarrow> Inl (RecordFormatError (NotNonemptyString field)))"

text \<open>A full match of \<^verbatim>\<open>[0-9a-f]{64}\<close>.\<close>

definition is_hash_text :: "pystr \<Rightarrow> bool" where
  "is_hash_text s \<longleftrightarrow> length s = 64 \<and> list_all is_hex s"

definition require_hash :: "pyval \<Rightarrow> string \<Rightarrow> format_error + unit" where
  "require_hash v field =
     (case v of
        PStr s \<Rightarrow> raise_if (\<not> is_hash_text s) (RecordFormatError (NotHash field))
      | _ \<Rightarrow> Inl (RecordFormatError (NotHash field)))"

definition index_path :: "pystr \<Rightarrow> nat \<Rightarrow> pystr" where
  "index_path path i = path @ [91] @ dec i @ [93]"

fun validate_json_value :: "pyval \<Rightarrow> pystr \<Rightarrow> format_error + unit"
  and validate_items :: "pyval list \<Rightarrow> nat \<Rightarrow> pystr \<Rightarrow> format_error + unit"
  and validate_members :: "pydict \<Rightarrow> pystr \<Rightarrow> format_error + unit" where
  "validate_json_value PNone path = Inr ()"
| "validate_json_value (PBool b) path = Inr ()"
| "validate_json_value (PStr s) path = require_unicode_scalars s path"
| "validate_json_value (PInt n) path =
     raise_if (\<not> (- (2 ^ 63) \<le> n \<and> n < 2 ^ 63)) (RecordFormatError (JsonIntRange path))"
| "validate_json_value (PFloat x) path =
     raise_if (\<not> f64_isfinite x) (RecordFormatError (JsonNonFinite path))"
| "validate_json_value (PList vs) path = validate_items vs 0 path"
| "validate_json_value (PDict kvs) path = validate_members kvs path"
| "validate_json_value (POther t) path = Inl (RecordFormatError (JsonUnsupported path))"
| "validate_items [] i path = Inr ()"
| "validate_items (v # vs) i path =
     rbind (validate_json_value v (index_path path i)) (\<lambda>_. validate_items vs (Suc i) path)"
| "validate_members [] path = Inr ()"
| "validate_members ((KOther n, v) # kvs) path = Inl (RecordFormatError (JsonNonStrKey path))"
| "validate_members ((KStr k, v) # kvs) path =
     rbind (require_unicode_scalars k (path @ lit '' object key'')) (\<lambda>_.
     rbind (validate_json_value v (path @ [46] @ k)) (\<lambda>_.
       validate_members kvs path))"

section \<open>Events\<close>

text \<open>\<^verbatim>\<open>record.get("format_version") == 2\<close> also holds of the float 2.0.\<close>

definition f64_two :: f64 where
  "f64_two = mk_f64 False 4611686018427387904"

definition record_format_version :: "pydict \<Rightarrow> nat" where
  "record_format_version d =
     (case dget d ''format_version'' of
        Some (PInt n) \<Rightarrow> if n = 2 then 2 else 1
      | Some (PFloat x) \<Rightarrow> if x = f64_two then 2 else 1
      | _ \<Rightarrow> 1)"

definition event_fields :: "pydict \<Rightarrow> format_error + string list" where
  "event_fields d =
     (case dget d ''format_version'' of
        None \<Rightarrow>
          if dget d ''event_type'' \<noteq> None then Inl (RecordFormatError MissingFormatVersion)
          else Inr V1_EVENT_FIELDS
      | Some (PInt n) \<Rightarrow>
          if n \<noteq> 2 then Inl (RecordFormatError BadFormatVersion)
          else if dget d ''event_type'' = Some (PStr (lit ''ingestion_accepted''))
          then Inr V2_INGESTION_EVENT_FIELDS
          else if dget d ''event_type'' = Some (PStr (lit ''classification_decision''))
          then Inr V2_CLASSIFICATION_EVENT_FIELDS
          else Inl (RecordFormatError BadEventType)
      | Some _ \<Rightarrow> Inl (RecordFormatError BadFormatVersion))"

definition require_timestamp :: "pyval \<Rightarrow> format_error + unit" where
  "require_timestamp v =
     (case v of
        PStr s \<Rightarrow>
          rbind (raise_if (\<not> utc_shape None s) (RecordFormatError BadTimestampShape)) (\<lambda>_.
            raise_if (fromisoformat_utc s = None) (RecordFormatError BadTimestampValue))
      | _ \<Rightarrow> Inl (RecordFormatError BadTimestampShape))"

text \<open>\<^verbatim>\<open>math.isfinite\<close> converts an integer to a float first; the comparison with 0 and 1 is exact.\<close>

definition require_confidence :: "pyval \<Rightarrow> format_error + unit" where
  "require_confidence v =
     (case v of
        PInt n \<Rightarrow>
          (case f64_of_int n of
             None \<Rightarrow> Inl OverflowError
           | Some x \<Rightarrow> raise_if (\<not> (0 \<le> n \<and> n \<le> 1)) (RecordFormatError ConfidenceRange))
      | PFloat x \<Rightarrow>
          raise_if (\<not> f64_isfinite x \<or> \<not> (f64_le f64_zero x \<and> f64_le x f64_one))
            (RecordFormatError ConfidenceRange)
      | _ \<Rightarrow> Inl (RecordFormatError ConfidenceNotNumber))"

definition require_int63 :: "pyval \<Rightarrow> format_reason \<Rightarrow> format_error + unit" where
  "require_int63 v reason =
     (case v of
        PInt n \<Rightarrow> raise_if (\<not> (0 \<le> n \<and> n < 2 ^ 63)) (RecordFormatError reason)
      | _ \<Rightarrow> Inl (RecordFormatError reason))"

text \<open>A subscript followed by a check of the value.\<close>

definition check_item ::
    "pydict \<Rightarrow> string \<Rightarrow> (pyval \<Rightarrow> format_error + unit) \<Rightarrow> format_error + unit" where
  "check_item d k f = rbind (ditem d k) f"

definition validate_classification_values :: "pydict \<Rightarrow> format_error + unit" where
  "validate_classification_values d =
     rbind (rall (\<lambda>k. check_item d k (\<lambda>v. require_nonempty_string v k)) [''model_id'', ''class'']) (\<lambda>_.
     rbind (rall (\<lambda>k. check_item d k (\<lambda>v. require_hash v k))
              [''features_hash'', ''model_config_hash'']) (\<lambda>_.
     rbind (check_item d ''confidence'' require_confidence) (\<lambda>_.
       check_item d ''top_shap'' (\<lambda>v. validate_json_value v (lit ''top_shap'')))))"

definition validate_ingestion_values :: "pydict \<Rightarrow> format_error + unit" where
  "validate_ingestion_values d =
     rbind (check_item d ''collector_schema_version''
              (\<lambda>v. require_nonempty_string v ''collector_schema_version'')) (\<lambda>_.
       check_item d ''collector_sequence_number'' (\<lambda>v. require_int63 v BadCollectorSequence))"

definition validate_event_values :: "pydict \<Rightarrow> format_error + unit" where
  "validate_event_values d =
     rbind (event_fields d) (\<lambda>_.
     rbind (check_item d ''node_id'' (\<lambda>v. require_nonempty_string v ''node_id'')) (\<lambda>_.
     rbind (check_item d ''ts_utc'' require_timestamp) (\<lambda>_.
     rbind (check_item d ''raw_csi_hash'' (\<lambda>v. require_hash v ''raw_csi_hash'')) (\<lambda>_.
       if record_format_version d = 1 then validate_classification_values d
       else rbind (ditem d ''event_type'') (\<lambda>t.
         if t = PStr (lit ''classification_decision'') then validate_classification_values d
         else validate_ingestion_values d)))))"

definition missing_fields :: "string list \<Rightarrow> pydict \<Rightarrow> pystr list" where
  "missing_fields names d = sort (filter (\<lambda>f. KStr f \<notin> set (dkeys d)) (map lit names))"

definition unknown_fields :: "string list \<Rightarrow> pydict \<Rightarrow> pystr list" where
  "unknown_fields names d = sort (filter (\<lambda>f. f \<notin> set (map lit names)) (map key_text (dkeys d)))"

definition validate_event :: "pyval \<Rightarrow> format_error + pydict" where
  "validate_event event =
     (case event of
        PDict d \<Rightarrow>
          rbind (raise_if (\<not> list_all is_kstr (dkeys d)) (RecordFormatError EventKeysNotStr)) (\<lambda>_.
          rbind (event_fields d) (\<lambda>expected.
          rbind (raise_if (missing_fields expected d \<noteq> [])
                   (RecordFormatError (EventMissing (missing_fields expected d)))) (\<lambda>_.
          rbind (raise_if (unknown_fields expected d \<noteq> [])
                   (RecordFormatError (EventUnknown (unknown_fields expected d)))) (\<lambda>_.
          rbind (validate_event_values d) (\<lambda>_. Inr d)))))
      | _ \<Rightarrow> Inl (RecordFormatError EventNotMapping))"

section \<open>Stored records\<close>

definition event_of :: "pydict \<Rightarrow> pydict" where
  "event_of d = filter (\<lambda>kv. fst kv \<notin> set (map (\<lambda>f. KStr (lit f)) MANAGED_FIELDS)) d"

definition require_signature :: "pyval \<Rightarrow> format_error + unit" where
  "require_signature v =
     (case v of
        PStr s \<Rightarrow>
          rbind (raise_if (length s \<noteq> 128) (RecordFormatError BadSignature)) (\<lambda>_.
            raise_if (list_ex (\<lambda>c. \<not> is_hex c) s) (RecordFormatError BadSignature))
      | _ \<Rightarrow> Inl (RecordFormatError BadSignature))"

definition validate_stored_record :: "pyval \<Rightarrow> format_error + pydict" where
  "validate_stored_record v =
     (case v of
        PDict d \<Rightarrow>
          rbind (raise_if (\<not> list_all is_kstr (dkeys d)) (RecordFormatError RecordKeysNotStr)) (\<lambda>_.
          rbind (raise_if (missing_fields MANAGED_FIELDS d \<noteq> [])
                   (RecordFormatError (RecordMissing (missing_fields MANAGED_FIELDS d)))) (\<lambda>_.
          rbind (validate_event (PDict (event_of d))) (\<lambda>_.
          rbind (check_item d ''seq'' (\<lambda>v. require_int63 v BadSeq)) (\<lambda>_.
          rbind (check_item d ''prev_hash'' (\<lambda>v. require_hash v ''prev_hash'')) (\<lambda>_.
          rbind (check_item d ''record_hash'' (\<lambda>v. require_hash v ''record_hash'')) (\<lambda>_.
          rbind (check_item d ''signature'' require_signature) (\<lambda>_. Inr d)))))))
      | _ \<Rightarrow> Inl (RecordFormatError RecordNotObject))"

section \<open>What the validators accept\<close>

text \<open>
  The declarative reading of the format: the kinds of event, the fields each kind has, and a
  predicate per field.
\<close>

fun key_ok :: "pykey \<Rightarrow> bool" where
  "key_ok (KStr s) = (\<not> list_ex is_surrogate s)"
| "key_ok (KOther n) = False"

primrec json_ok :: "pyval \<Rightarrow> bool" where
  "json_ok PNone = True"
| "json_ok (PBool b) = True"
| "json_ok (PInt n) = (- (2 ^ 63) \<le> n \<and> n < 2 ^ 63)"
| "json_ok (PFloat x) = f64_isfinite x"
| "json_ok (PStr s) = (\<not> list_ex is_surrogate s)"
| "json_ok (PList vs) = list_all id (map json_ok vs)"
| "json_ok (PDict kvs) = list_all (\<lambda>(k, b). key_ok k \<and> b) (map (map_prod id json_ok) kvs)"
| "json_ok (POther t) = False"

fun str_ok :: "pyval \<Rightarrow> bool" where
  "str_ok (PStr s) = (s \<noteq> [] \<and> \<not> list_ex is_surrogate s)"
| "str_ok _ = False"

fun hash_ok :: "pyval \<Rightarrow> bool" where
  "hash_ok (PStr s) = is_hash_text s"
| "hash_ok _ = False"

fun time_ok :: "pyval \<Rightarrow> bool" where
  "time_ok (PStr s) = (utc_shape None s \<and> fromisoformat_utc s \<noteq> None)"
| "time_ok _ = False"

fun conf_ok :: "pyval \<Rightarrow> bool" where
  "conf_ok (PInt n) = (0 \<le> n \<and> n \<le> 1)"
| "conf_ok (PFloat x) = (f64_isfinite x \<and> f64_le f64_zero x \<and> f64_le x f64_one)"
| "conf_ok _ = False"

fun int63_ok :: "pyval \<Rightarrow> bool" where
  "int63_ok (PInt n) = (0 \<le> n \<and> n < 2 ^ 63)"
| "int63_ok _ = False"

fun sig_ok :: "pyval \<Rightarrow> bool" where
  "sig_ok (PStr s) = (length s = 128 \<and> list_all is_hex s)"
| "sig_ok _ = False"

definition item_ok :: "pydict \<Rightarrow> string \<Rightarrow> (pyval \<Rightarrow> bool) \<Rightarrow> bool" where
  "item_ok d k P = (case dget d k of None \<Rightarrow> False | Some v \<Rightarrow> P v)"

datatype event_kind = Legacy | Ingestion | Classification

fun kind_fields :: "event_kind \<Rightarrow> string list" where
  "kind_fields Legacy = V1_EVENT_FIELDS"
| "kind_fields Ingestion = V2_INGESTION_EVENT_FIELDS"
| "kind_fields Classification = V2_CLASSIFICATION_EVENT_FIELDS"

fun kind_version :: "event_kind \<Rightarrow> nat" where
  "kind_version Legacy = 1"
| "kind_version Ingestion = 2"
| "kind_version Classification = 2"

fun has_kind :: "event_kind \<Rightarrow> pydict \<Rightarrow> bool" where
  "has_kind Legacy d = (dget d ''format_version'' = None \<and> dget d ''event_type'' = None)"
| "has_kind Ingestion d =
     (dget d ''format_version'' = Some (PInt 2) \<and>
      dget d ''event_type'' = Some (PStr (lit ''ingestion_accepted'')))"
| "has_kind Classification d =
     (dget d ''format_version'' = Some (PInt 2) \<and>
      dget d ''event_type'' = Some (PStr (lit ''classification_decision'')))"

fun kind_values :: "event_kind \<Rightarrow> pydict \<Rightarrow> bool" where
  "kind_values Ingestion d =
     (item_ok d ''collector_schema_version'' str_ok \<and> item_ok d ''collector_sequence_number'' int63_ok)"
| "kind_values _ d =
     (item_ok d ''model_id'' str_ok \<and> item_ok d ''class'' str_ok \<and>
      item_ok d ''features_hash'' hash_ok \<and> item_ok d ''model_config_hash'' hash_ok \<and>
      item_ok d ''confidence'' conf_ok \<and> item_ok d ''top_shap'' json_ok)"

definition named_keys :: "string list \<Rightarrow> pykey set" where
  "named_keys names = set (map (\<lambda>f. KStr (lit f)) names)"

definition event_kind_ok :: "event_kind \<Rightarrow> pydict \<Rightarrow> bool" where
  "event_kind_ok kind d \<longleftrightarrow>
     has_kind kind d \<and> set (dkeys d) = named_keys (kind_fields kind) \<and>
     item_ok d ''node_id'' str_ok \<and> item_ok d ''ts_utc'' time_ok \<and>
     item_ok d ''raw_csi_hash'' hash_ok \<and> kind_values kind d"

definition event_ok :: "pydict \<Rightarrow> bool" where
  "event_ok d \<longleftrightarrow> list_ex (\<lambda>kind. event_kind_ok kind d) [Legacy, Ingestion, Classification]"

definition record_ok :: "pydict \<Rightarrow> bool" where
  "record_ok d \<longleftrightarrow>
     list_all is_kstr (dkeys d) \<and> named_keys MANAGED_FIELDS \<subseteq> set (dkeys d) \<and>
     event_ok (event_of d) \<and> item_ok d ''seq'' int63_ok \<and> item_ok d ''prev_hash'' hash_ok \<and>
     item_ok d ''record_hash'' hash_ok \<and> item_ok d ''signature'' sig_ok"

lemmas field_lists = V1_EVENT_FIELDS_def V2_COMMON_EVENT_FIELDS_def V2_INGESTION_EVENT_FIELDS_def
  V2_CLASSIFICATION_EVENT_FIELDS_def MANAGED_FIELDS_def

lemma json_ok_PDict [simp]:
  "json_ok (PDict kvs) \<longleftrightarrow> (\<forall>kv \<in> set kvs. key_ok (fst kv) \<and> json_ok (snd kv))"
  by (auto simp: list_all_iff split: prod.splits)

lemma json_ok_PList [simp]: "json_ok (PList vs) \<longleftrightarrow> (\<forall>v \<in> set vs. json_ok v)"
  by (auto simp: list_all_iff)

declare json_ok.simps(6,7) [simp del]

section \<open>The checks are the predicates\<close>

lemma require_unicode_scalars_iff [simp]:
  "require_unicode_scalars s p = Inr u \<longleftrightarrow> \<not> list_ex is_surrogate s"
  by (simp add: require_unicode_scalars_def)

lemma require_nonempty_string_iff [simp]: "require_nonempty_string v f = Inr u \<longleftrightarrow> str_ok v"
  by (cases v) (auto simp: require_nonempty_string_def res_simps)

lemma require_hash_iff [simp]: "require_hash v f = Inr u \<longleftrightarrow> hash_ok v"
  by (cases v) (auto simp: require_hash_def)

lemma require_timestamp_iff [simp]: "require_timestamp v = Inr u \<longleftrightarrow> time_ok v"
  by (cases v) (auto simp: require_timestamp_def res_simps)

lemma dec_mag_one: "dec_mag (Suc 0) 0 = 4607182418800017408"
proof -
  have "floorlog 2 (f64_unit div 1) = 1075"
    using floorlog_power [of 1 2 1074] by (simp add: f64_unit_def floorlog_def del: power_numeral)
  moreover have "round_half_even f64_unit (2 ^ 1022) = 4503599627370496"
    by (simp add: round_half_even_def f64_unit_def)
  ultimately show ?thesis by (simp add: dec_mag_def round_units_def)
qed

lemma dec_mag_zero: "dec_mag 0 0 = 0"
  by (simp add: dec_mag_def round_units_def floorlog_def round_half_even_def)

lemma f64_of_int_small:
  assumes "0 \<le> n" and "n \<le> 1"
  shows "f64_of_int n \<noteq> None"
proof -
  consider "n = 0" | "n = 1" using assms by linarith
  then show ?thesis by cases (simp_all add: f64_of_int_def dec_mag_zero dec_mag_one inf_mag_def)
qed

lemma require_confidence_iff [simp]: "require_confidence v = Inr u \<longleftrightarrow> conf_ok v"
  by (cases v) (auto simp: require_confidence_def f64_of_int_small split: option.splits)

lemma require_int63_iff [simp]: "require_int63 v r = Inr u \<longleftrightarrow> int63_ok v"
  by (cases v) (auto simp: require_int63_def)

lemma require_signature_iff [simp]: "require_signature v = Inr u \<longleftrightarrow> sig_ok v"
  by (cases v) (auto simp: require_signature_def res_simps list_ex_iff list_all_iff)

lemma validate_json_value_iff [simp]:
  "validate_json_value v p = Inr u \<longleftrightarrow> json_ok v"
  "validate_items vs i p = Inr u \<longleftrightarrow> (\<forall>v \<in> set vs. json_ok v)"
  "validate_members kvs p = Inr u \<longleftrightarrow> (\<forall>kv \<in> set kvs. key_ok (fst kv) \<and> json_ok (snd kv))"
  by (induction v p and vs i p and kvs p
      rule: validate_json_value_validate_items_validate_members.induct)
    (auto simp: res_simps)

lemma check_item_iff [simp]: "check_item d k f = Inr u \<longleftrightarrow> item_ok d k (\<lambda>v. f v = Inr u)"
  by (simp add: check_item_def ditem_def item_ok_def split: option.splits)

lemma dget_None_iff: "dget d k = None \<longleftrightarrow> KStr (lit k) \<notin> set (dkeys d)"
  by (simp add: dget_def dkeys_def map_of_eq_None_iff)

lemma sort_Nil_iff [simp]: "sort xs = [] \<longleftrightarrow> xs = []"
  by (metis length_0_conv length_sort)

lemma missing_fields_Nil [simp]: "missing_fields names d = [] \<longleftrightarrow> named_keys names \<subseteq> set (dkeys d)"
  by (auto simp: missing_fields_def named_keys_def filter_empty_conv)

lemma unknown_fields_Nil:
  assumes "list_all is_kstr (dkeys d)"
  shows "unknown_fields names d = [] \<longleftrightarrow> set (dkeys d) \<subseteq> named_keys names"
proof -
  have "KStr (key_text k) = k" if "k \<in> set (dkeys d)" for k
    using assms that by (cases k) (auto simp: list_all_iff)
  then have "key_text k \<in> set (map lit names) \<longleftrightarrow> k \<in> named_keys names" if "k \<in> set (dkeys d)" for k
    using that by (force simp: named_keys_def)
  then show ?thesis by (auto simp: unknown_fields_def filter_empty_conv)
qed

lemma event_fields_iff:
  "event_fields d = Inr names \<longleftrightarrow> (\<exists>kind. has_kind kind d \<and> names = kind_fields kind)"
proof
  assume "event_fields d = Inr names"
  then consider "has_kind Legacy d" "names = V1_EVENT_FIELDS"
    | "has_kind Ingestion d" "names = V2_INGESTION_EVENT_FIELDS"
    | "has_kind Classification d" "names = V2_CLASSIFICATION_EVENT_FIELDS"
    by (auto simp: event_fields_def split: option.splits pyval.splits if_splits)
  then show "\<exists>kind. has_kind kind d \<and> names = kind_fields kind"
    by cases (metis kind_fields.simps)+
next
  assume "\<exists>kind. has_kind kind d \<and> names = kind_fields kind"
  then obtain kind where "has_kind kind d" "names = kind_fields kind" by blast
  then show "event_fields d = Inr names" by (cases kind) (auto simp: event_fields_def)
qed

lemma has_kind_unique: "has_kind k d \<Longrightarrow> has_kind k' d \<Longrightarrow> k = k'"
  by (cases k; cases k') auto

lemma has_kind_version: "has_kind kind d \<Longrightarrow> record_format_version d = kind_version kind"
  by (cases kind) (auto simp: record_format_version_def)

lemma validate_event_values_iff:
  assumes "has_kind kind d"
  shows "validate_event_values d = Inr u \<longleftrightarrow>
    item_ok d ''node_id'' str_ok \<and> item_ok d ''ts_utc'' time_ok \<and>
    item_ok d ''raw_csi_hash'' hash_ok \<and> kind_values kind d"
proof -
  have "event_fields d = Inr (kind_fields kind)" using assms event_fields_iff by blast
  moreover have "record_format_version d = kind_version kind" using assms by (rule has_kind_version)
  ultimately show ?thesis using assms
    by (cases kind)
      (auto simp: validate_event_values_def validate_classification_values_def
        validate_ingestion_values_def ditem_def res_simps)
qed

lemma event_ok_iff:
  "event_ok d \<longleftrightarrow> (\<exists>kind. event_kind_ok kind d)"
  unfolding event_ok_def by (simp, metis event_kind.exhaust)

lemma named_keys_kstr: "set (dkeys d) \<subseteq> named_keys names \<Longrightarrow> list_all is_kstr (dkeys d)"
  by (force simp: named_keys_def list_all_iff)

text \<open>\<^verbatim>\<open>validate_event\<close> returns exactly on the mappings of the format, and returns a copy of them.\<close>

lemma validate_event_iff: "validate_event v = Inr d \<longleftrightarrow> v = PDict d \<and> event_ok d"
proof (cases v)
  case (PDict e)
  show ?thesis
  proof
    assume v: "validate_event v = Inr d"
    then obtain names where e: "e = d" "list_all is_kstr (dkeys e)" "event_fields e = Inr names"
      "named_keys names \<subseteq> set (dkeys e)" "unknown_fields names e = []"
      "validate_event_values e = Inr ()"
      by (auto simp: validate_event_def PDict res_simps)
    moreover obtain kind where "has_kind kind e" "names = kind_fields kind"
      using e(3) event_fields_iff by blast
    ultimately have "event_kind_ok kind e"
      by (auto simp: event_kind_ok_def unknown_fields_Nil validate_event_values_iff)
    with PDict e(1) show "v = PDict d \<and> event_ok d" by (auto simp: event_ok_iff)
  next
    assume d: "v = PDict d \<and> event_ok d"
    then obtain kind where k: "event_kind_ok kind d" by (auto simp: event_ok_iff)
    then have "list_all is_kstr (dkeys d)" "has_kind kind d"
      by (auto simp: event_kind_ok_def intro: named_keys_kstr)
    moreover from this have "event_fields d = Inr (kind_fields kind)" using event_fields_iff by blast
    moreover have "validate_event_values d = Inr ()"
      using k by (simp add: validate_event_values_iff [of kind] event_kind_ok_def)
    ultimately show "validate_event v = Inr d"
      using d k by (simp add: validate_event_def event_kind_ok_def unknown_fields_Nil)
  qed
qed (simp_all add: validate_event_def)

lemma validate_event_ok: "event_ok d \<Longrightarrow> validate_event (PDict d) = Inr d"
  by (simp add: validate_event_iff)

lemma validate_stored_record_iff: "validate_stored_record v = Inr d \<longleftrightarrow> v = PDict d \<and> record_ok d"
  by (cases v) (auto simp: validate_stored_record_def res_simps record_ok_def validate_event_iff)

lemma validate_stored_record_ok: "record_ok d \<Longrightarrow> validate_stored_record (PDict d) = Inr d"
  by (simp add: validate_stored_record_iff)

section \<open>Accepted dictionaries have canonical bytes\<close>

lemma canonical_json_bytes_iff [simp]:
  "canonical_json_bytes d = Inr bs \<longleftrightarrow> canon_enc (PDict d) = Some bs"
  by (auto simp: canonical_json_bytes_def canon_enc_def split: option.splits)

lemma int64_digits:
  assumes "- (2 ^ 63) \<le> n" and "n < (2 :: int) ^ 63"
  shows "length (dec (nat \<bar>n\<bar>)) \<le> max_str_digits"
proof -
  have "nat \<bar>n\<bar> < 10 ^ 19" using assms by simp
  then have "length (dec (nat \<bar>n\<bar>)) \<le> 19" by (rule length_dec) simp
  then show ?thesis by (simp add: max_str_digits_def)
qed

lemma those_ex: "(\<And>x. x \<in> set xs \<Longrightarrow> x \<noteq> None) \<Longrightarrow> \<exists>ys. those xs = Some ys"
  by (induction xs) (auto split: option.splits)

lemma json_ok_canon_text: "json_ok v \<Longrightarrow> \<exists>t. canon_text v = Some t"
proof (induction v rule: pyval_induct)
  case (PList vs)
  then obtain ts where "those (map canon_text vs) = Some ts"
    using those_ex [of "map canon_text vs"] by force
  then show ?case by (simp add: array_text_def)
next
  case (PDict kvs)
  have "member_key (k, canon_text v) \<noteq> None" if "(k, v) \<in> set kvs" for k v
    using PDict.IH [OF that] PDict.prems that by (cases k) force+
  then have "\<exists>ts. those (map member_key (map (map_prod id canon_text) kvs)) = Some ts"
    by (intro those_ex) auto
  then show ?case by (auto simp: object_text_def)
qed (auto simp: int64_digits)

lemma json_ok_chars:
  "json_ok v \<Longrightarrow> wf_val v \<Longrightarrow> val_chars (\<lambda>c. c < 0x110000 \<and> \<not> is_surrogate c) v"
proof (induction v rule: pyval_induct)
  case (PDict kvs)
  have "key_chars (\<lambda>c. c < 0x110000 \<and> \<not> is_surrogate c) k" if "(k, v) \<in> set kvs" for k v
    using PDict.prems that by (cases k) (force simp: wf_str_def list_all_iff list_ex_iff)+
  with PDict show ?case by force
qed (auto simp: wf_str_def list_all_iff list_ex_iff)

lemma json_ok_enc: "json_ok v \<Longrightarrow> wf_val v \<Longrightarrow> \<exists>bs. canon_enc v = Some bs"
  using json_ok_canon_text json_ok_chars canon_enc_scalar by blast

lemma hex_no_surrogate: "list_all is_hex s \<Longrightarrow> \<not> list_ex is_surrogate s"
  by (auto simp: list_all_iff list_ex_iff is_hex_def is_surrogate_def)

lemma nd_no_surrogate: "is_nd c \<Longrightarrow> \<not> is_surrogate c"
  by (auto simp: is_nd_def nd_zeros_def is_surrogate_def)

lemma ascii_no_surrogate: "c < 128 \<Longrightarrow> \<not> is_surrogate c"
  by (simp add: is_surrogate_def)

lemma match_shape_no_surrogate:
  "match_shape p s \<Longrightarrow> list_all (\<lambda>c. c < 128) p \<Longrightarrow> c \<in> set s \<Longrightarrow> \<not> is_surrogate c"
  by (induction p s rule: match_shape.induct)
    (auto simp: nd_no_surrogate ascii_no_surrogate split: if_splits)

lemma utc_shape_no_surrogate:
  assumes "utc_shape b s"
  shows "\<not> list_ex is_surrogate s"
proof -
  let ?f = "butlast (drop 19 s)"
  have a: "\<not> is_surrogate c" if "c \<in> set (take 19 s)" for c
    using assms that match_shape_no_surrogate [of "lit ''dddd-dd-ddTdd:dd:dd''" "take 19 s" c]
    by (simp add: utc_shape_def lit_def)
  have "?f = [] \<or> hd ?f = 46 \<and> list_all is_nd (tl ?f)"
    using assms by (auto simp: utc_shape_def Let_def)
  then have b: "\<not> is_surrogate c" if "c \<in> set ?f" for c
    using that by (cases ?f) (auto simp: list_all_iff nd_no_surrogate ascii_no_surrogate)
  have c: "\<not> is_surrogate (last s)" using assms by (simp add: utc_shape_def is_surrogate_def)
  have "c \<in> set (take 19 s) \<or> c \<in> set ?f \<or> c = last s" if "c \<in> set s" for c
  proof (cases "drop 19 s = []")
    case False
    then have "drop 19 s = ?f @ [last s]" by (metis append_butlast_last_id last_drop drop_eq_Nil linorder_not_le)
    then have "s = take 19 s @ ?f @ [last s]" by (metis append_take_drop_id)
    with that show ?thesis by (metis Un_iff set_append set_ConsD empty_iff list.set(1))
  next
    case True
    with that show ?thesis by simp
  qed
  with a b c show ?thesis by (auto simp: list_ex_iff)
qed

lemma field_json_ok:
  "str_ok v \<Longrightarrow> json_ok v" "hash_ok v \<Longrightarrow> json_ok v" "time_ok v \<Longrightarrow> json_ok v"
  "conf_ok v \<Longrightarrow> json_ok v" "int63_ok v \<Longrightarrow> json_ok v" "sig_ok v \<Longrightarrow> json_ok v"
  by (cases v; auto simp: is_hash_text_def hex_no_surrogate utc_shape_no_surrogate)+

lemma item_ok_mono: "item_ok d k P \<Longrightarrow> (\<And>v. P v \<Longrightarrow> Q v) \<Longrightarrow> item_ok d k Q"
  by (auto simp: item_ok_def split: option.splits)

lemma named_key_ok: "k \<in> named_keys names \<Longrightarrow> key_ok k"
  using scalar_lit by (auto simp: named_keys_def scalar_str_def list_all_iff list_ex_iff)

lemma items_json_ok:
  assumes "distinct (map fst d)" and "set (dkeys d) \<subseteq> named_keys names"
    and "\<And>f. f \<in> set names \<Longrightarrow> KStr (lit f) \<in> set (dkeys d) \<Longrightarrow> item_ok d f json_ok"
  shows "json_ok (PDict d)"
proof -
  have "key_ok k \<and> json_ok v" if kv: "(k, v) \<in> set d" for k v
  proof -
    have k: "k \<in> set (dkeys d)" using kv by (force simp: dkeys_def)
    then have n: "k \<in> named_keys names" using assms(2) by blast
    then obtain f where f: "f \<in> set names" "k = KStr (lit f)" by (auto simp: named_keys_def)
    then have "item_ok d f json_ok" using assms(3) k by blast
    then have "json_ok v" using kv f assms(1) by (simp add: item_ok_def dget_def)
    with n show ?thesis by (blast intro: named_key_ok)
  qed
  then show ?thesis by auto
qed

lemma event_kind_json_ok:
  assumes "event_kind_ok kind d" and "distinct (map fst d)"
  shows "json_ok (PDict d)"
proof (rule items_json_ok [of d "kind_fields kind"])
  show "set (dkeys d) \<subseteq> named_keys (kind_fields kind)" using assms by (simp add: event_kind_ok_def)
  fix f assume "f \<in> set (kind_fields kind)"
  then show "item_ok d f json_ok"
    using assms(1)
    by (cases kind)
      (auto simp: event_kind_ok_def field_lists elim!: item_ok_mono intro: field_json_ok,
        auto simp: item_ok_def list_ex_iff lit_def is_surrogate_def)
qed (fact assms)

lemma event_ok_json_ok: "event_ok d \<Longrightarrow> distinct (map fst d) \<Longrightarrow> json_ok (PDict d)"
  by (auto simp: event_ok_iff simp del: json_ok_PDict intro: event_kind_json_ok)

lemma dget_event_of: "f \<notin> set MANAGED_FIELDS \<Longrightarrow> dget (event_of d) f = dget d f"
  by (induction d) (auto simp: dget_def event_of_def)

lemma set_event_of:
  "kv \<in> set (event_of d) \<longleftrightarrow> kv \<in> set d \<and> fst kv \<notin> named_keys MANAGED_FIELDS"
  by (auto simp: event_of_def named_keys_def)

lemma distinct_filter_fst: "distinct (map fst d) \<Longrightarrow> distinct (map fst (filter P d))"
  by (induction d) auto

lemma record_json_ok:
  assumes "record_ok d" and "distinct (map fst d)"
  shows "json_ok (PDict d)"
proof -
  have ev: "json_ok (PDict (event_of d))"
    using assms by (auto simp: record_ok_def event_of_def simp del: json_ok_PDict
        intro: event_ok_json_ok distinct_filter_fst)
  have "key_ok k \<and> json_ok v" if kv: "(k, v) \<in> set d" for k v
  proof (cases "k \<in> named_keys MANAGED_FIELDS")
    case True
    then obtain f where f: "k = KStr (lit f)" "f \<in> set MANAGED_FIELDS" by (auto simp: named_keys_def)
    then have "item_ok d f json_ok"
      using assms(1) by (auto simp: record_ok_def field_lists elim!: item_ok_mono intro: field_json_ok)
    then have "json_ok v" using kv f assms(2) by (simp add: item_ok_def dget_def)
    with True show ?thesis by (blast intro: named_key_ok)
  next
    case False
    then have "(k, v) \<in> set (event_of d)" using kv by (simp add: set_event_of)
    with ev show ?thesis by fastforce
  qed
  then show ?thesis by auto
qed

lemma record_ok_enc:
  assumes "record_ok d" and "wf_val (PDict d)"
  shows "\<exists>bs. canon_enc (PDict d) = Some bs"
  using assms by (intro json_ok_enc record_json_ok) auto

lemma json_ok_filter: "json_ok (PDict d) \<Longrightarrow> json_ok (PDict (filter P d))"
  by simp

lemma wf_filter: "wf_val (PDict d) \<Longrightarrow> wf_val (PDict (filter P d))"
  by (simp add: distinct_filter_fst)

lemma hash_unsigned_record_ok:
  assumes "json_ok (PDict d)" and "wf_val (PDict d)"
  obtains bs where "canon_enc (PDict (unsigned_of d)) = Some bs"
    "hash_unsigned_record d = Inr (bs, sha256_hex bs)"
proof -
  obtain bs where bs: "canon_enc (PDict (unsigned_of d)) = Some bs"
    using json_ok_enc [OF json_ok_filter [OF assms(1)] wf_filter [OF assms(2)]]
    unfolding unsigned_of_def by blast
  then have "hash_unsigned_record d = Inr (bs, sha256_hex bs)"
    by (simp add: hash_unsigned_record_def rbind_eq_Inr)
  with bs that show thesis by blast
qed

section \<open>The order of the keys does not matter\<close>

definition norm_dict :: "pydict \<Rightarrow> pydict" where
  "norm_dict d = sort_key (\<lambda>kv. key_text (fst kv)) (map (map_prod id norm_val) d)"

lemma norm_val_PDict: "norm_val (PDict d) = PDict (norm_dict d)"
  by (simp add: norm_dict_def)

lemma norm_val_idem: "norm_val (norm_val v) = norm_val v"
proof (induction v rule: pyval_induct)
  case (PDict kvs)
  then have "map (map_prod id norm_val) (map (map_prod id norm_val) kvs) = map (map_prod id norm_val) kvs"
    by (auto simp: map_prod_def split: prod.splits)
  moreover have "map (map_prod id norm_val) (sort_key (\<lambda>kv. key_text (fst kv)) ws) =
      sort_key (\<lambda>kv. key_text (fst kv)) (map (map_prod id norm_val) ws)" for ws
    by (rule map_sort_inv) simp
  ultimately show ?case by (simp add: sort_key_idem del: map_map)
qed simp_all

lemma norm_dict_idem [simp]: "norm_dict (norm_dict d) = norm_dict d"
  using norm_val_idem [of "PDict d"] by (simp add: norm_val_PDict del: norm_val.simps)

lemma set_norm_dict: "set (norm_dict d) = map_prod id norm_val ` set d"
  by (simp add: norm_dict_def)

lemma dkeys_norm_dict [simp]: "set (dkeys (norm_dict d)) = set (dkeys d)"
  by (auto simp: dkeys_def set_norm_dict image_image)

lemma distinct_norm_dict [simp]: "distinct (map fst (norm_dict d)) \<longleftrightarrow> distinct (map fst d)"
  by (simp add: norm_dict_def distinct_sort_fst)

lemma dget_norm_dict:
  assumes "distinct (map fst d)"
  shows "dget (norm_dict d) k = map_option norm_val (dget d k)"
proof (cases "dget d k")
  case None
  then have "dget (norm_dict d) k = None" by (simp add: dget_None_iff)
  with None show ?thesis by simp
next
  case (Some v)
  then have "(KStr (lit k), v) \<in> set d" by (auto simp: dget_def dest: map_of_SomeD)
  then have "(KStr (lit k), norm_val v) \<in> set (norm_dict d)" by (force simp: set_norm_dict)
  then show ?thesis using assms Some by (simp add: dget_def)
qed

lemma norm_scalar [simp]:
  "str_ok (norm_val v) = str_ok v" "hash_ok (norm_val v) = hash_ok v"
  "time_ok (norm_val v) = time_ok v" "conf_ok (norm_val v) = conf_ok v"
  "int63_ok (norm_val v) = int63_ok v" "sig_ok (norm_val v) = sig_ok v"
  "norm_val v = PInt n \<longleftrightarrow> v = PInt n" "norm_val v = PStr s \<longleftrightarrow> v = PStr s"
  by (cases v; simp)+

lemma json_ok_norm [simp]: "json_ok (norm_val v) = json_ok v"
proof (induction v rule: pyval_induct)
  case (PDict kvs)
  then show ?case by (force simp: norm_val_PDict set_norm_dict simp del: norm_val.simps)
qed auto

lemma item_ok_norm:
  assumes "distinct (map fst d)" and "\<And>v. P (norm_val v) = P v"
  shows "item_ok (norm_dict d) k P = item_ok d k P"
  using assms by (simp add: item_ok_def dget_norm_dict split: option.splits)

lemma event_kind_ok_norm:
  assumes "distinct (map fst d)"
  shows "event_kind_ok kind (norm_dict d) = event_kind_ok kind d"
  by (cases kind)
    (simp_all add: event_kind_ok_def item_ok_norm [OF assms] dget_norm_dict [OF assms] map_option_case
      split: option.splits)

lemma event_ok_norm: "distinct (map fst d) \<Longrightarrow> event_ok (norm_dict d) = event_ok d"
  by (simp add: event_ok_iff event_kind_ok_norm)

lemma filter_norm_dict:
  assumes "\<And>k v w. P (k, v) = P (k, w)"
  shows "filter P (norm_dict d) = norm_dict (filter P d)"
proof -
  have "P (map_prod id norm_val kv) = P kv" for kv by (cases kv) (use assms in auto)
  then show ?thesis by (simp add: norm_dict_def filter_sort filter_map comp_def)
qed

lemma event_of_norm: "event_of (norm_dict d) = norm_dict (event_of d)"
  unfolding event_of_def by (rule filter_norm_dict) simp

lemma unsigned_of_norm: "unsigned_of (norm_dict d) = norm_dict (unsigned_of d)"
  unfolding unsigned_of_def by (rule filter_norm_dict) simp

lemma record_ok_norm:
  assumes "distinct (map fst d)"
  shows "record_ok (norm_dict d) = record_ok d"
proof -
  have "distinct (map fst (event_of d))" using assms by (simp add: event_of_def distinct_filter_fst)
  then show ?thesis
    by (simp add: record_ok_def item_ok_norm [OF assms] event_of_norm event_ok_norm list_all_iff)
qed

lemma record_format_version_norm:
  assumes "distinct (map fst d)"
  shows "record_format_version (norm_dict d) = record_format_version d"
proof -
  have "(case norm_val v of PInt n \<Rightarrow> f n | PFloat x \<Rightarrow> g x | _ \<Rightarrow> z) =
      (case v of PInt n \<Rightarrow> f n | PFloat x \<Rightarrow> g x | _ \<Rightarrow> z)" for v and f g and z :: nat
    by (cases v) simp_all
  then show ?thesis
    by (simp add: record_format_version_def dget_norm_dict [OF assms] del: One_nat_def split: option.splits)
qed

section \<open>The exceptions that leave the validators\<close>

text \<open>Every exception is a \<^verbatim>\<open>RecordFormatError\<close>, except the overflow of a huge integer confidence.\<close>

definition huge_confidence :: "pydict \<Rightarrow> bool" where
  "huge_confidence d \<longleftrightarrow>
     (case dget d ''confidence'' of Some (PInt n) \<Rightarrow> f64_of_int n = None | _ \<Rightarrow> False)"

definition is_format_error :: "format_error \<Rightarrow> bool" where
  "is_format_error e = (case e of RecordFormatError r \<Rightarrow> True | _ \<Rightarrow> False)"

lemma is_format_error_simps [simp]:
  "is_format_error (RecordFormatError r)" "\<not> is_format_error (KeyError k)"
  "\<not> is_format_error OverflowError"
  by (simp_all add: is_format_error_def)

lemma check_errors:
  "require_unicode_scalars s p = Inl e \<Longrightarrow> is_format_error e"
  "require_nonempty_string v f = Inl e \<Longrightarrow> is_format_error e"
  "require_hash v f = Inl e \<Longrightarrow> is_format_error e"
  "require_timestamp v = Inl e \<Longrightarrow> is_format_error e"
  "require_int63 v r = Inl e \<Longrightarrow> is_format_error e"
  "require_signature v = Inl e \<Longrightarrow> is_format_error e"
  by (auto simp: require_unicode_scalars_def require_nonempty_string_def require_hash_def
      require_timestamp_def require_int63_def require_signature_def res_simps split: pyval.splits)

lemma validate_json_errors:
  "validate_json_value v p = Inl e \<Longrightarrow> is_format_error e"
  "validate_items vs i p = Inl e \<Longrightarrow> is_format_error e"
  "validate_members kvs p = Inl e \<Longrightarrow> is_format_error e"
  by (induction v p and vs i p and kvs p
      rule: validate_json_value_validate_items_validate_members.induct)
    (auto simp: res_simps dest: check_errors)

lemma event_fields_errors: "event_fields d = Inl e \<Longrightarrow> is_format_error e"
  by (auto simp: event_fields_def split: option.splits pyval.splits if_splits)

lemma check_item_Inl:
  "check_item d k f = Inl e \<Longrightarrow> KStr (lit k) \<in> set (dkeys d) \<Longrightarrow> (\<exists>v. dget d k = Some v \<and> f v = Inl e)"
  using dget_None_iff [of d k] by (auto simp: check_item_def ditem_def split: option.splits)

lemma classification_errors:
  assumes "validate_classification_values d = Inl e" and "named_keys V1_EVENT_FIELDS \<subseteq> set (dkeys d)
    \<or> named_keys V2_CLASSIFICATION_EVENT_FIELDS \<subseteq> set (dkeys d)"
  shows "is_format_error e \<or> e = OverflowError \<and> huge_confidence d"
proof -
  have k: "KStr (lit k) \<in> set (dkeys d)"
    if "k \<in> {''model_id'', ''class'', ''features_hash'', ''model_config_hash'', ''confidence'', ''top_shap''}"
    for k using assms(2) that by (auto simp: named_keys_def field_lists)
  have c: "is_format_error e \<or> e = OverflowError \<and> huge_confidence d"
    if "dget d ''confidence'' = Some v" "require_confidence v = Inl e" for v
    using that by (cases v) (auto simp: require_confidence_def huge_confidence_def split: option.splits)
  show ?thesis using assms(1) k c
    by (auto simp: validate_classification_values_def res_simps
        dest!: check_item_Inl dest: check_errors validate_json_errors)
qed

lemma ingestion_errors:
  assumes "validate_ingestion_values d = Inl e"
    and "named_keys V2_INGESTION_EVENT_FIELDS \<subseteq> set (dkeys d)"
  shows "is_format_error e"
  using assms
  by (auto simp: validate_ingestion_values_def res_simps named_keys_def field_lists
      dest!: check_item_Inl dest: check_errors)

lemma validate_event_values_errors:
  assumes e: "validate_event_values d = Inl e" and kind: "has_kind kind d"
    and keys: "named_keys (kind_fields kind) \<subseteq> set (dkeys d)"
  shows "is_format_error e \<or> e = OverflowError \<and> huge_confidence d"
proof -
  have ks: "KStr (lit k) \<in> set (dkeys d)" if "k \<in> {''node_id'', ''ts_utc'', ''raw_csi_hash''}" for k
    using keys that by (cases kind) (auto simp: named_keys_def field_lists)
  have f: "event_fields d = Inr (kind_fields kind)" using kind event_fields_iff by blast
  have v: "record_format_version d = kind_version kind" using kind by (rule has_kind_version)
  let ?rest = "if kind = Ingestion then validate_ingestion_values d else validate_classification_values d"
  have "is_format_error e \<or> ?rest = Inl e"
    using e kind f v ks
    by (cases kind) (auto simp: validate_event_values_def ditem_def res_simps
        dest!: check_item_Inl dest: check_errors)
  then show ?thesis
    using keys ingestion_errors [of d e] classification_errors [of d e] by (cases kind) auto
qed

lemma validate_event_errors:
  assumes "validate_event v = Inl e"
  shows "is_format_error e \<or> e = OverflowError \<and> (\<exists>d. v = PDict d \<and> huge_confidence d)"
proof (cases v)
  case (PDict d)
  consider "is_format_error e" | names where "event_fields d = Inr names"
      "named_keys names \<subseteq> set (dkeys d)" "validate_event_values d = Inl e"
    using assms PDict by (auto simp: validate_event_def res_simps dest: event_fields_errors)
  then show ?thesis
  proof cases
    case (2 names)
    then obtain kind where "has_kind kind d" "names = kind_fields kind" using event_fields_iff by blast
    with 2 PDict show ?thesis using validate_event_values_errors by blast
  qed simp
qed (use assms in \<open>auto simp: validate_event_def\<close>)

lemma huge_confidence_event_of: "huge_confidence (event_of d) = huge_confidence d"
  by (simp add: huge_confidence_def dget_event_of field_lists)

lemma validate_stored_record_errors:
  assumes "validate_stored_record v = Inl e"
  shows "is_format_error e \<or> e = OverflowError \<and> (\<exists>d. v = PDict d \<and> huge_confidence d)"
proof (cases v)
  case (PDict d)
  consider "is_format_error e" | "validate_event (PDict (event_of d)) = Inl e"
    using assms PDict
    by (auto simp: validate_stored_record_def res_simps named_keys_def field_lists
        dest!: check_item_Inl dest: check_errors)
  then show ?thesis using PDict
    by cases (auto dest: validate_event_errors simp: huge_confidence_event_of)
qed (use assms in \<open>auto simp: validate_stored_record_def\<close>)

end
