(* ===== verification/Chain_Interfaces.thy ===== *)
theory Chain_Interfaces
  imports Prelude "HOL-Library.Sublist"
begin

text \<open>
  The two contracts the forensic chain rests on, each with the lemmas its clients use.
  \<open>line_codec\<close>: values written one per line, as canonical JSON is, are read back unambiguously and
  an interrupted write is seen. \<open>hash_chain\<close>: records that name the hash of their predecessor; the
  hash of the last one commits to all of them. Both are interpreted on the program's definitions
  in \<^verbatim>\<open>Chain_Store\<close>.
\<close>

section \<open>Lines of a binary file\<close>

definition LF :: byte where
  "LF = byte_of 10"

text \<open>Iteration over a binary file: each line keeps its LF, a last piece without LF is a line too.\<close>

fun split_lines :: "bytestr \<Rightarrow> bytestr list" where
  "split_lines [] = []"
| "split_lines (b # bs) =
     (if b = LF then [b] # split_lines bs
      else (case split_lines bs of [] \<Rightarrow> [[b]] | l # ls \<Rightarrow> (b # l) # ls))"

lemma concat_split_lines [simp]: "concat (split_lines bs) = bs"
  by (induction bs) (auto split: list.splits)

lemma split_lines_Nil_iff [simp]: "split_lines bs = [] \<longleftrightarrow> bs = []"
  by (cases bs) (auto split: list.splits)

lemma split_lines_frame:
  "LF \<notin> set x \<Longrightarrow> split_lines (x @ LF # bs) = (x @ [LF]) # split_lines bs"
  by (induction x) auto

lemma split_lines_last: "LF \<notin> set x \<Longrightarrow> x \<noteq> [] \<Longrightarrow> split_lines x = [x]"
proof (induction x)
  case (Cons b x)
  then show ?case by (cases x) auto
qed simp

section \<open>One value per line\<close>

locale line_codec =
  fixes enc :: "'v \<Rightarrow> bytestr option"
    and dec :: "bytestr \<Rightarrow> 'e + 'v"
    and ok :: "'v \<Rightarrow> bool"
    and norm :: "'v \<Rightarrow> 'v"
  assumes dec_enc: "enc v = Some bs \<Longrightarrow> ok v \<Longrightarrow> dec bs = Inr (norm v)"
    and enc_no_lf: "enc v = Some bs \<Longrightarrow> ok v \<Longrightarrow> LF \<notin> set bs"
begin

definition frame :: "'v \<Rightarrow> bytestr" where
  "frame v = the (enc v) @ [LF]"

definition framed :: "'v \<Rightarrow> bool" where
  "framed v \<longleftrightarrow> ok v \<and> enc v \<noteq> None"

lemma framed_laws:
  assumes "framed v"
  shows "LF \<notin> set (the (enc v))" and "dec (the (enc v)) = Inr (norm v)"
  using assms enc_no_lf dec_enc by (auto simp: framed_def)

lemma split_lines_frames:
  "(\<And>v. v \<in> set vs \<Longrightarrow> framed v) \<Longrightarrow>
    split_lines (concat (map frame vs) @ bs) = map frame vs @ split_lines bs"
  by (induction vs) (simp_all add: frame_def split_lines_frame framed_laws)

lemma read_frames:
  assumes "\<And>v. v \<in> set vs \<Longrightarrow> framed v"
  shows "map (\<lambda>l. dec (butlast l)) (split_lines (concat (map frame vs))) = map (\<lambda>v. Inr (norm v)) vs"
  using split_lines_frames [of vs "[]"] assms by (simp add: frame_def framed_laws)

lemma frames_inject:
  assumes "\<And>v. v \<in> set vs \<Longrightarrow> framed v" and "\<And>v. v \<in> set ws \<Longrightarrow> framed v"
    and "concat (map frame vs) = concat (map frame ws)"
  shows "map norm vs = map norm ws"
proof -
  have "map (Inr :: 'v \<Rightarrow> 'e + 'v) (map norm vs) = map Inr (map norm ws)"
    using read_frames [of vs] read_frames [of ws] assms by (simp add: comp_def)
  then show ?thesis by (rule list.inj_map_strong [rotated]) simp
qed

text \<open>A write that stopped inside a line leaves a last line without LF.\<close>

lemma torn_frame:
  assumes "framed v" and "strict_prefix p (frame v)" and "p \<noteq> []"
  shows "LF \<notin> set p" and "split_lines p = [p]"
proof -
  have "LF \<notin> set (the (enc v))" using assms(1) by (rule framed_laws)
  moreover have "prefix p (the (enc v))"
    using assms(2) by (auto simp: frame_def strict_prefix_def prefix_snoc)
  ultimately show "LF \<notin> set p" by (auto dest: set_mono_prefix)
  with assms(3) show "split_lines p = [p]" by (simp add: split_lines_last)
qed

end

section \<open>Hash chains\<close>

text \<open>
  \<open>hash\<close> is applied to the \<open>bytes\<close> of a record; \<open>prev\<close> is the hash a record names as its
  predecessor's and \<open>num\<close> its position, both determined by the bytes, as is its \<open>content\<close>.
\<close>

locale hash_chain =
  fixes hash :: "'b \<Rightarrow> 'h"
    and bytes :: "'r \<Rightarrow> 'b"
    and content :: "'r \<Rightarrow> 'c"
    and prev :: "'r \<Rightarrow> 'h"
    and num :: "'r \<Rightarrow> nat"
    and ok :: "'r \<Rightarrow> bool"
  assumes bytes_content: "ok r \<Longrightarrow> ok s \<Longrightarrow> bytes r = bytes s \<Longrightarrow> content r = content s"
    and bytes_prev: "ok r \<Longrightarrow> ok s \<Longrightarrow> bytes r = bytes s \<Longrightarrow> prev r = prev s"
    and bytes_num: "ok r \<Longrightarrow> ok s \<Longrightarrow> bytes r = bytes s \<Longrightarrow> num r = num s"
begin

fun chained :: "'h \<Rightarrow> nat \<Rightarrow> 'r list \<Rightarrow> bool" where
  "chained h n [] = True"
| "chained h n (r # rs) = (ok r \<and> prev r = h \<and> num r = n \<and> chained (hash (bytes r)) (Suc n) rs)"

definition tip :: "'r list \<Rightarrow> 'h" where
  "tip rs = hash (bytes (last rs))"

definition collision :: "'r list \<Rightarrow> 'r list \<Rightarrow> bool" where
  "collision rs ss \<longleftrightarrow>
     (\<exists>r \<in> set rs. \<exists>s \<in> set ss. bytes r \<noteq> bytes s \<and> hash (bytes r) = hash (bytes s))"

lemma chained_snoc:
  "chained h n (rs @ [r]) \<longleftrightarrow>
    chained h n rs \<and> ok r \<and> prev r = (if rs = [] then h else tip rs) \<and> num r = n + length rs"
  by (induction rs arbitrary: h n) (auto simp: tip_def)

text \<open>Equal tips: the histories have the same contents, or two of their records collide.\<close>

lemma tip_commits:
  assumes "chained h 0 rs" and "chained h 0 ss" and "rs \<noteq> []" and "ss \<noteq> []" and "tip rs = tip ss"
  shows "map content rs = map content ss \<or> collision rs ss"
  using assms
proof (induction rs arbitrary: ss rule: rev_induct)
  case (snoc r rs)
  obtain ss' s where ss: "ss = ss' @ [s]" using snoc.prems(4) by (metis append_butlast_last_id)
  have tips: "hash (bytes r) = hash (bytes s)" using snoc.prems(5) by (simp add: tip_def ss)
  have r: "chained h 0 rs" "ok r" "prev r = (if rs = [] then h else tip rs)" "num r = length rs"
    using snoc.prems(1) by (auto simp: chained_snoc)
  have s: "chained h 0 ss'" "ok s" "prev s = (if ss' = [] then h else tip ss')" "num s = length ss'"
    using snoc.prems(2) ss by (auto simp: chained_snoc)
  show ?case
  proof (cases "bytes r = bytes s")
    case False
    with tips have "collision (rs @ [r]) ss" by (auto simp: collision_def ss)
    then show ?thesis ..
  next
    case True
    then have eq: "content r = content s" "prev r = prev s" "length rs = length ss'"
      using r s bytes_content bytes_prev bytes_num by metis+
    show ?thesis
    proof (cases "rs = []")
      case False
      then have "ss' \<noteq> []" and "tip rs = tip ss'" using eq r(3) s(3) by auto
      then have "map content rs = map content ss' \<or> collision rs ss'"
        using snoc.IH r(1) s(1) False by blast
      with eq ss show ?thesis by (auto simp: collision_def)
    qed (use eq ss in auto)
  qed
qed simp

end

end
