(* ===== verification/Chain_Store.thy ===== *)
theory Chain_Store
  imports Record_Format Chain_Interfaces
begin

text \<open>
  The strict reader of a chain file, \<^verbatim>\<open>src/forensics/_store.py\<close>. A file is \<open>None\<close> when it does not
  exist and its bytes otherwise. The generator \<^verbatim>\<open>iter_validated_records\<close> is modelled with the body of
  the loop that consumes it, so that an exception of the body stops the reading where it does in
  the program. The specification \<open>linked\<close> says which lists of records form a chain, and
  \<open>check_line_iff\<close> that the reader accepts exactly the canonical lines of such a list. The
  interfaces \<open>line_codec\<close> and \<open>hash_chain\<close> are interpreted here: canonical JSON as the codec, the
  unsigned bytes of a record under SHA-256 as the hash chain.
\<close>

section \<open>The reader\<close>

datatype store_reason =
    NotTerminated
  | BlankLine
  | InvalidJson json_error
  | InvalidRecord format_reason
  | MixesVersions
  | NotCanonical
  | WrongSeq nat "pyval option"
  | WrongPrevHash
  | WrongRecordHash
  | DifferentVersion

text \<open>
  \<^verbatim>\<open>StoreError\<close> with its line number and reason; the other constructors are the exceptions the
  \<^verbatim>\<open>except\<close> clause of the reader does not name.
\<close>

datatype store_exn = StoreError nat store_reason | StoreValueError | StoreRaises format_error

record iter_state =
  it_seq :: nat
  it_prev :: pystr
  it_version :: "nat option"

definition iter_init :: iter_state where
  "iter_init = \<lparr>it_seq = 0, it_prev = GENESIS_PREV_HASH, it_version = None\<rparr>"

text \<open>\<^verbatim>\<open>record[k]\<close> of a field the validation has shown to be text or an integer.\<close>

definition str_item :: "pydict \<Rightarrow> string \<Rightarrow> pystr" where
  "str_item d k = (case dget d k of Some (PStr s) \<Rightarrow> s | _ \<Rightarrow> [])"

definition int_item :: "pydict \<Rightarrow> string \<Rightarrow> int" where
  "int_item d k = (case dget d k of Some (PInt n) \<Rightarrow> n | _ \<Rightarrow> 0)"

definition parse_record :: "nat \<Rightarrow> bytestr \<Rightarrow> store_exn + pydict" where
  "parse_record n line =
     (case loads_bytes line of
        Inl IntDigitsError \<Rightarrow> Inl StoreValueError
      | Inl e \<Rightarrow> Inl (StoreError n (InvalidJson e))
      | Inr v \<Rightarrow>
          (case validate_stored_record v of
             Inl (RecordFormatError r) \<Rightarrow> Inl (StoreError n (InvalidRecord r))
           | Inl e \<Rightarrow> Inl (StoreRaises e)
           | Inr d \<Rightarrow> Inr d))"

definition check_links :: "iter_state \<Rightarrow> nat \<Rightarrow> bytestr \<Rightarrow> pydict \<Rightarrow> store_exn + pydict \<times> bytestr" where
  "check_links st n line d =
     rbind (raise_if (case it_version st of None \<Rightarrow> False | Some v \<Rightarrow> record_format_version d \<noteq> v)
              (StoreError n MixesVersions)) (\<lambda>_.
     rbind (rmap_err StoreRaises (canonical_json_bytes d)) (\<lambda>bs.
     rbind (raise_if (bs \<noteq> line) (StoreError n NotCanonical)) (\<lambda>_.
     rbind (raise_if (dget d ''seq'' \<noteq> Some (PInt (int (it_seq st))))
              (StoreError n (WrongSeq (it_seq st) (dget d ''seq'')))) (\<lambda>_.
     rbind (raise_if (dget d ''prev_hash'' \<noteq> Some (PStr (it_prev st)))
              (StoreError n WrongPrevHash)) (\<lambda>_.
     rbind (rmap_err StoreRaises (hash_unsigned_record d)) (\<lambda>(msg, h).
     rbind (raise_if (dget d ''record_hash'' \<noteq> Some (PStr h))
              (StoreError n WrongRecordHash)) (\<lambda>_. Inr (d, msg))))))))"

definition check_line :: "iter_state \<Rightarrow> nat \<Rightarrow> bytestr \<Rightarrow> store_exn + pydict \<times> bytestr" where
  "check_line st n physical =
     rbind (raise_if (physical = [] \<or> last physical \<noteq> LF) (StoreError n NotTerminated)) (\<lambda>_.
     rbind (raise_if (butlast physical = []) (StoreError n BlankLine)) (\<lambda>_.
     rbind (parse_record n (butlast physical)) (\<lambda>d.
       check_links st n (butlast physical) d)))"

definition iter_next :: "iter_state \<Rightarrow> pydict \<Rightarrow> iter_state" where
  "iter_next st d =
     \<lparr>it_seq = it_seq st + 1, it_prev = str_item d ''record_hash'',
      it_version = Some (record_format_version d)\<rparr>"

text \<open>
  The \<^verbatim>\<open>for\<close> loop over the generator: \<open>body\<close> is the loop body on its own state, \<open>exn\<close> what becomes of
  an exception of the generator.
\<close>

fun iter_lines ::
    "(store_exn \<Rightarrow> 'e) \<Rightarrow> ('s \<Rightarrow> nat \<Rightarrow> pydict \<Rightarrow> bytestr \<Rightarrow> 'e + 's)
      \<Rightarrow> iter_state \<Rightarrow> nat \<Rightarrow> bytestr list \<Rightarrow> 's \<Rightarrow> 'e + 's" where
  "iter_lines exn body st n [] s = Inr s"
| "iter_lines exn body st n (l # ls) s =
     (case check_line st n l of
        Inl e \<Rightarrow> Inl (exn e)
      | Inr (d, msg) \<Rightarrow>
          rbind (body s n d msg) (\<lambda>s'. iter_lines exn body (iter_next st d) (Suc n) ls s'))"

definition iter_validated_records ::
    "(store_exn \<Rightarrow> 'e) \<Rightarrow> ('s \<Rightarrow> nat \<Rightarrow> pydict \<Rightarrow> bytestr \<Rightarrow> 'e + 's)
      \<Rightarrow> bytestr option \<Rightarrow> 's \<Rightarrow> 'e + 's" where
  "iter_validated_records exn body file s =
     (case file of
        None \<Rightarrow> Inr s
      | Some bs \<Rightarrow> iter_lines exn body iter_init 1 (split_lines bs) s)"

definition tip_step ::
    "nat option \<Rightarrow> nat \<times> pystr \<Rightarrow> nat \<Rightarrow> pydict \<Rightarrow> bytestr \<Rightarrow> store_exn + nat \<times> pystr" where
  "tip_step required s n d msg =
     rbind (raise_if (case required of None \<Rightarrow> False | Some v \<Rightarrow> record_format_version d \<noteq> v)
              (StoreError n DifferentVersion)) (\<lambda>_.
       Inr (nat (int_item d ''seq'' + 1), str_item d ''record_hash''))"

definition chain_tip :: "bytestr option \<Rightarrow> nat option \<Rightarrow> store_exn + nat \<times> pystr" where
  "chain_tip file required =
     iter_validated_records (\<lambda>e. e) (tip_step required) file (0, GENESIS_PREV_HASH)"

section \<open>Specification: linked records\<close>

text \<open>
  A dictionary as \<^verbatim>\<open>json.loads\<close> returns it from a canonical line, and a record that continues a chain
  in the given state.
\<close>

definition canonical_dict :: "pydict \<Rightarrow> bool" where
  "canonical_dict d \<longleftrightarrow> wf_val (PDict d) \<and> norm_dict d = d"

definition unsigned_bytes :: "pydict \<Rightarrow> bytestr" where
  "unsigned_bytes d = the (canon_enc (PDict (unsigned_of d)))"

definition links :: "iter_state \<Rightarrow> pydict \<Rightarrow> bool" where
  "links st d \<longleftrightarrow>
     canonical_dict d \<and> record_ok d \<and>
     (case it_version st of None \<Rightarrow> True | Some v \<Rightarrow> record_format_version d = v) \<and>
     dget d ''seq'' = Some (PInt (int (it_seq st))) \<and>
     dget d ''prev_hash'' = Some (PStr (it_prev st)) \<and>
     dget d ''record_hash'' = Some (PStr (sha256_hex (unsigned_bytes d)))"

fun linked :: "iter_state \<Rightarrow> pydict list \<Rightarrow> bool" where
  "linked st [] = True"
| "linked st (d # ds) = (links st d \<and> linked (iter_next st d) ds)"

definition line_of :: "pydict \<Rightarrow> bytestr" where
  "line_of d = the (canon_enc (PDict d)) @ [LF]"

definition file_of :: "pydict list \<Rightarrow> bytestr" where
  "file_of ds = concat (map line_of ds)"

section \<open>The reader accepts exactly the linked lines\<close>

lemma links_enc:
  assumes "links st d"
  obtains bs where "canon_enc (PDict d) = Some bs" "line_of d = bs @ [LF]" "LF \<notin> set bs" "bs \<noteq> []"
proof -
  have d: "record_ok d" "wf_val (PDict d)" using assms by (auto simp: links_def canonical_dict_def)
  then obtain bs where bs: "canon_enc (PDict d) = Some bs" using record_ok_enc by blast
  with canon_enc_no_lf [OF bs d(2)] that show thesis by (simp add: line_of_def LF_def)
qed

lemma record_unsigned_enc:
  assumes "record_ok d" and "wf_val (PDict d)"
  shows "canon_enc (PDict (unsigned_of d)) = Some (unsigned_bytes d)"
    and "hash_unsigned_record d = Inr (unsigned_bytes d, sha256_hex (unsigned_bytes d))"
proof -
  have "json_ok (PDict d)" using assms by (intro record_json_ok) auto
  then obtain bs where "canon_enc (PDict (unsigned_of d)) = Some bs"
    "hash_unsigned_record d = Inr (bs, sha256_hex bs)"
    using assms(2) by (rule hash_unsigned_record_ok)
  then show "canon_enc (PDict (unsigned_of d)) = Some (unsigned_bytes d)"
    "hash_unsigned_record d = Inr (unsigned_bytes d, sha256_hex (unsigned_bytes d))"
    by (simp_all add: unsigned_bytes_def)
qed

lemma parse_record_iff: "parse_record n line = Inr d \<longleftrightarrow> loads_bytes line = Inr (PDict d) \<and> record_ok d"
  by (auto simp: parse_record_def validate_stored_record_iff validate_stored_record_ok
      split: sum.splits json_error.splits format_error.splits)

lemma canonical_dict_loads:
  assumes "canonical_dict d" and "canon_enc (PDict d) = Some bs"
  shows "loads_bytes bs = Inr (PDict d)"
  using loads_canon [OF assms(2)] assms(1) by (simp add: canonical_dict_def norm_dict_def)

lemma loads_canonical_dict:
  assumes "loads_bytes bs = Inr (PDict d)" and "canon_enc (PDict d) = Some bs"
  shows "canonical_dict d"
proof -
  have wf: "wf_val (PDict d)" using loads_bytes_wf [OF assms(1)] by (simp add: wf_json_def)
  then show ?thesis using loads_canon [OF assms(2) wf] assms(1)
    by (simp add: canonical_dict_def norm_val_PDict del: norm_val.simps)
qed

lemma check_links_iff:
  "check_links st n line d = Inr (e, msg) \<longleftrightarrow>
    e = d \<and> (case it_version st of None \<Rightarrow> True | Some v \<Rightarrow> record_format_version d = v) \<and>
    canon_enc (PDict d) = Some line \<and>
    dget d ''seq'' = Some (PInt (int (it_seq st))) \<and> dget d ''prev_hash'' = Some (PStr (it_prev st)) \<and>
    hash_unsigned_record d = Inr (msg, str_item d ''record_hash'') \<and>
    dget d ''record_hash'' = Some (PStr (str_item d ''record_hash''))"
  by (auto simp: check_links_def res_simps str_item_def split: option.splits)

theorem check_line_iff:
  "check_line st n l = Inr (d, msg) \<longleftrightarrow> links st d \<and> l = line_of d \<and> msg = unsigned_bytes d"
proof
  assume "check_line st n l = Inr (d, msg)"
  then have l: "l \<noteq> []" "last l = LF" "loads_bytes (butlast l) = Inr (PDict d)" "record_ok d"
    "check_links st n (butlast l) d = Inr (d, msg)"
    by (auto simp: check_line_def res_simps parse_record_iff check_links_iff)
  then have c: "canon_enc (PDict d) = Some (butlast l)" by (simp add: check_links_iff)
  then have cd: "canonical_dict d" using loads_canonical_dict l(3) by blast
  then have "wf_val (PDict d)" by (simp add: canonical_dict_def)
  moreover have "butlast l @ [LF] = l" using l(1,2) by (metis append_butlast_last_id)
  ultimately show "links st d \<and> l = line_of d \<and> msg = unsigned_bytes d"
    using record_unsigned_enc [OF l(4)] cd l(4,5) c
    by (auto simp: links_def check_links_iff line_of_def split: option.splits)
next
  assume h: "links st d \<and> l = line_of d \<and> msg = unsigned_bytes d"
  then obtain bs where bs: "canon_enc (PDict d) = Some bs" "l = bs @ [LF]" "bs \<noteq> []"
    using links_enc by metis
  have d: "record_ok d" "canonical_dict d" "wf_val (PDict d)"
    using h by (auto simp: links_def canonical_dict_def)
  have "parse_record n bs = Inr d"
    using canonical_dict_loads [OF d(2) bs(1)] d(1) by (simp add: parse_record_iff)
  moreover have "check_links st n bs d = Inr (d, msg)"
    using h bs(1) record_unsigned_enc [OF d(1,3)] by (simp add: check_links_iff links_def str_item_def)
  ultimately show "check_line st n l = Inr (d, msg)" using bs by (simp add: check_line_def)
qed

section \<open>Whole files\<close>

text \<open>The loop body run on the records of a chain, and the state of the reader after them.\<close>

fun run_body ::
    "('s \<Rightarrow> nat \<Rightarrow> pydict \<Rightarrow> bytestr \<Rightarrow> 'e + 's) \<Rightarrow> nat \<Rightarrow> pydict list \<Rightarrow> 's \<Rightarrow> 'e + 's" where
  "run_body body n [] s = Inr s"
| "run_body body n (d # ds) s =
     rbind (body s n d (unsigned_bytes d)) (\<lambda>s'. run_body body (Suc n) ds s')"

definition iter_end :: "iter_state \<Rightarrow> pydict list \<Rightarrow> iter_state" where
  "iter_end st ds = foldl iter_next st ds"

definition tip_hash_of :: "pydict list \<Rightarrow> pystr" where
  "tip_hash_of ds = (if ds = [] then GENESIS_PREV_HASH else str_item (last ds) ''record_hash'')"

lemma iter_end_simps [simp]:
  "iter_end st [] = st" "iter_end st (d # ds) = iter_end (iter_next st d) ds"
  "iter_end st (ds @ es) = iter_end (iter_end st ds) es"
  by (simp_all add: iter_end_def)

lemma linked_append [simp]: "linked st (ds @ es) \<longleftrightarrow> linked st ds \<and> linked (iter_end st ds) es"
  by (induction ds arbitrary: st) auto

lemma it_seq_end [simp]: "it_seq (iter_end st ds) = it_seq st + length ds"
  by (induction ds arbitrary: st) (auto simp: iter_next_def)

lemma iter_end_snoc: "ds \<noteq> [] \<Longrightarrow> iter_end st ds = iter_next (iter_end st (butlast ds)) (last ds)"
  by (induction ds rule: rev_induct) auto

lemma it_prev_end: "it_prev (iter_end iter_init ds) = tip_hash_of ds"
  by (cases "ds = []") (simp_all add: iter_end_snoc tip_hash_of_def iter_next_def iter_init_def)

lemma it_version_end:
  "it_version (iter_end iter_init ds) =
    (if ds = [] then None else Some (record_format_version (last ds)))"
  by (cases "ds = []") (simp_all add: iter_end_snoc iter_next_def iter_init_def)

lemma run_body_append:
  "run_body body n (ds @ es) s = rbind (run_body body n ds s) (\<lambda>s'. run_body body (n + length ds) es s')"
proof (induction ds arbitrary: n s)
  case (Cons d ds)
  then show ?case by (cases "body s n d (unsigned_bytes d)") auto
qed simp

lemma check_line_linked:
  "links st d \<Longrightarrow> check_line st n (line_of d) = Inr (d, unsigned_bytes d)"
  by (simp add: check_line_iff)

lemma iter_lines_linked:
  assumes "linked st ds"
  shows "iter_lines exn body st n (map line_of ds @ ls) s =
    rbind (run_body body n ds s) (\<lambda>s'. iter_lines exn body (iter_end st ds) (n + length ds) ls s')"
  using assms
proof (induction ds arbitrary: st n s)
  case (Cons d ds)
  then show ?case by (cases "body s n d (unsigned_bytes d)") (simp_all add: check_line_linked)
qed simp

lemma iter_lines_Inr:
  "iter_lines exn body st n ls s = Inr s' \<Longrightarrow>
    \<exists>ds. linked st ds \<and> ls = map line_of ds \<and> run_body body n ds s = Inr s'"
proof (induction ls arbitrary: st n s)
  case (Cons l ls)
  then obtain d where d: "check_line st n l = Inr (d, unsigned_bytes d)" "links st d" "l = line_of d"
    by (auto simp: check_line_iff split: sum.splits)
  with Cons.prems obtain s1 where s1: "body s n d (unsigned_bytes d) = Inr s1"
    "iter_lines exn body (iter_next st d) (Suc n) ls s1 = Inr s'"
    by (auto simp: rbind_eq_Inr)
  with Cons.IH obtain ds where "linked (iter_next st d) ds" "ls = map line_of ds"
    "run_body body (Suc n) ds s1 = Inr s'" by blast
  with d s1 show ?case by (intro exI [of _ "d # ds"]) simp
qed simp

lemma split_lines_file:
  "linked st ds \<Longrightarrow> split_lines (file_of ds @ bs) = map line_of ds @ split_lines bs"
proof (induction ds arbitrary: st)
  case (Cons d ds)
  then have "links st d" "linked (iter_next st d) ds" by simp_all
  with Cons.IH show ?case by (auto simp: file_of_def split_lines_frame elim!: links_enc)
qed (simp add: file_of_def)

text \<open>
  A file is read to its end without an exception exactly when it is the concatenation of the
  canonical lines of linked records and the loop body returns on each of them.
\<close>

lemma iter_validated_iff:
  "iter_validated_records exn body (Some bs) s = Inr s' \<longleftrightarrow>
    (\<exists>ds. linked iter_init ds \<and> bs = file_of ds \<and> run_body body 1 ds s = Inr s')"
proof
  assume "iter_validated_records exn body (Some bs) s = Inr s'"
  then obtain ds where "linked iter_init ds" "split_lines bs = map line_of ds"
    "run_body body 1 ds s = Inr s'"
    using iter_lines_Inr [of exn body iter_init 1] by (fastforce simp: iter_validated_records_def)
  then show "\<exists>ds. linked iter_init ds \<and> bs = file_of ds \<and> run_body body 1 ds s = Inr s'"
    by (metis concat_split_lines file_of_def)
next
  assume "\<exists>ds. linked iter_init ds \<and> bs = file_of ds \<and> run_body body 1 ds s = Inr s'"
  then show "iter_validated_records exn body (Some bs) s = Inr s'"
    using split_lines_file [of iter_init _ "[]"] iter_lines_linked [of iter_init _ exn body 1 "[]" s]
    by (auto simp: iter_validated_records_def)
qed

lemma file_of_inject:
  assumes "linked iter_init ds" and "linked iter_init es" and "file_of ds = file_of es"
  shows "ds = es"
proof -
  let ?collect = "\<lambda>acc n d msg. Inr (acc @ [d]) :: store_exn + pydict list"
  have run: "run_body ?collect n ds acc = Inr (acc @ ds)" for n ds acc
    by (induction ds arbitrary: n acc) simp_all
  have "iter_validated_records (\<lambda>e. e) ?collect (Some (file_of ds)) [] = Inr ds"
    if "linked iter_init ds" for ds
    using that run by (auto simp: iter_validated_iff intro!: exI [of _ ds])
  with assms show ?thesis by (metis sum.inject(2))
qed

lemma run_tip_step:
  assumes "linked st ds"
  shows "run_body (tip_step req) n ds s = Inr t \<longleftrightarrow>
    (case req of None \<Rightarrow> True | Some v \<Rightarrow> \<forall>d \<in> set ds. record_format_version d = v) \<and>
    t = (if ds = [] then s else (it_seq (iter_end st ds), str_item (last ds) ''record_hash''))"
  using assms
proof (induction ds arbitrary: st n s)
  case (Cons d ds)
  then have d: "int_item d ''seq'' = int (it_seq st)" by (simp add: links_def int_item_def)
  then have "nat (int_item d ''seq'' + 1) = it_seq st + 1" by simp
  with Cons show ?case
    by (auto simp: tip_step_def res_simps iter_next_def simp del: it_seq_end split: option.splits)
qed (auto split: option.splits)

lemma chain_tip_iff:
  "chain_tip (Some bs) req = Inr (n, h) \<longleftrightarrow>
    (\<exists>ds. linked iter_init ds \<and> bs = file_of ds \<and> n = length ds \<and> h = tip_hash_of ds \<and>
      (case req of None \<Rightarrow> True | Some v \<Rightarrow> \<forall>d \<in> set ds. record_format_version d = v))"
proof -
  have "run_body (tip_step req) 1 ds (0, GENESIS_PREV_HASH) = Inr (n, h) \<longleftrightarrow>
      n = length ds \<and> h = tip_hash_of ds \<and>
      (case req of None \<Rightarrow> True | Some v \<Rightarrow> \<forall>d \<in> set ds. record_format_version d = v)"
    if "linked iter_init ds" for ds
    using run_tip_step [OF that, of req 1 "(0, GENESIS_PREV_HASH)" "(n, h)"]
    by (auto simp: tip_hash_of_def iter_init_def)
  then show ?thesis unfolding chain_tip_def iter_validated_iff by blast
qed

section \<open>The interfaces, provided by the program's definitions\<close>

text \<open>Canonical JSON, written by \<^verbatim>\<open>canonical_json_bytes\<close> and read by \<^verbatim>\<open>json.loads\<close>, one value per line.\<close>

interpretation json_lines: line_codec canon_enc loads_bytes wf_val norm_val
proof unfold_locales
  show "canon_enc v = Some bs \<Longrightarrow> wf_val v \<Longrightarrow> loads_bytes bs = Inr (norm_val v)" for v bs
    by (rule loads_canon)
  show "canon_enc v = Some bs \<Longrightarrow> wf_val v \<Longrightarrow> LF \<notin> set bs" for v bs
    unfolding LF_def by (rule canon_enc_no_lf(1))
qed

definition chain_record :: "pydict \<Rightarrow> bool" where
  "chain_record d \<longleftrightarrow> canonical_dict d \<and> record_ok d"

definition record_prev :: "pydict \<Rightarrow> pystr" where
  "record_prev d = str_item d ''prev_hash''"

definition record_seq :: "pydict \<Rightarrow> nat" where
  "record_seq d = nat (int_item d ''seq'')"

lemma dget_unsigned_of:
  "f \<noteq> ''record_hash'' \<Longrightarrow> f \<noteq> ''signature'' \<Longrightarrow> dget (unsigned_of d) f = dget d f"
  by (induction d) (auto simp: dget_def unsigned_of_def)

lemma unsigned_bytes_inject:
  assumes "chain_record d" and "chain_record e" and "unsigned_bytes d = unsigned_bytes e"
  shows "unsigned_of d = unsigned_of e"
proof -
  have norm: "norm_dict (unsigned_of d) = unsigned_of d" if "chain_record d" for d
    using that unsigned_of_norm [of d] by (simp add: chain_record_def canonical_dict_def)
  have enc: "canon_enc (PDict (unsigned_of d)) = Some (unsigned_bytes d)" "wf_val (PDict (unsigned_of d))"
    if "chain_record d" for d
    using that record_unsigned_enc(1) wf_filter [of d]
    by (auto simp: chain_record_def canonical_dict_def unsigned_of_def simp del: wf_val_PDict)
  from assms enc have "norm_val (PDict (unsigned_of d)) = norm_val (PDict (unsigned_of e))"
    by (metis canon_enc_inject)
  with assms norm show ?thesis by (simp add: norm_val_PDict del: norm_val.simps)
qed

interpretation forensic: hash_chain sha256_hex unsigned_bytes unsigned_of record_prev record_seq chain_record
proof unfold_locales
  fix d e assume "chain_record d" "chain_record e" "unsigned_bytes d = unsigned_bytes e"
  then have eq: "unsigned_of d = unsigned_of e" by (rule unsigned_bytes_inject)
  then show "unsigned_of d = unsigned_of e" .
  have "dget d f = dget e f" if "f \<noteq> ''record_hash''" "f \<noteq> ''signature''" for f
    using that eq by (metis dget_unsigned_of)
  then show "record_prev d = record_prev e" and "record_seq d = record_seq e"
    by (simp_all add: record_prev_def record_seq_def str_item_def int_item_def)
qed

lemma links_chain:
  assumes "links st d"
  shows "chain_record d" "record_prev d = it_prev st" "record_seq d = it_seq st"
    "str_item d ''record_hash'' = sha256_hex (unsigned_bytes d)"
  using assms by (simp_all add: links_def chain_record_def record_prev_def record_seq_def str_item_def int_item_def)

lemma linked_chained: "linked st ds \<Longrightarrow> forensic.chained (it_prev st) (it_seq st) ds"
proof (induction ds arbitrary: st)
  case (Cons d ds)
  then have "links st d" "forensic.chained (it_prev (iter_next st d)) (it_seq (iter_next st d)) ds" by auto
  then show ?case by (simp add: links_chain iter_next_def)
qed simp

lemma linked_last_hash:
  assumes "linked st ds" and "ds \<noteq> []"
  shows "tip_hash_of ds = forensic.tip ds"
proof -
  have "links (iter_end st (butlast ds)) (last ds)"
    using assms linked_append [of st "butlast ds" "[last ds]"] by simp
  with assms(2) show ?thesis by (simp add: tip_hash_of_def forensic.tip_def links_chain)
qed

lemma line_of_frame: "line_of d = json_lines.frame (PDict d)"
  by (simp add: line_of_def json_lines.frame_def)

lemma links_framed: "links st d \<Longrightarrow> json_lines.framed (PDict d)"
  using links_enc [of st d]
  by (fastforce simp: json_lines.framed_def links_def canonical_dict_def simp del: wf_val_PDict)

end
