(* ===== verification/Chain_Logger.thy ===== *)
theory Chain_Logger
  imports Chain_Store
begin

text \<open>
  The appending writer, \<^verbatim>\<open>src/forensics/logger.py\<close>. What the writer calls and this repository does not
  define is an argument: the file lock, the signer and the operating system's append, whose failures
  leave any prefix of the line in the file. The lemmas show that a returned record is the last record
  of a valid file, that every other outcome leaves the file as it was except an interrupted write, and
  that an interrupted write is refused by every later append.
\<close>

section \<open>Environment\<close>

text \<open>
  \<open>SignRaises\<close> is an exception of \<^verbatim>\<open>signer.sign\<close>, \<open>NotBytes\<close> a result that is not \<^verbatim>\<open>bytes\<close>.
  \<open>WriteFails k\<close> is an \<^verbatim>\<open>OSError\<close> of \<^verbatim>\<open>write\<close>, \<^verbatim>\<open>flush\<close> or \<^verbatim>\<open>fsync\<close> after \<open>k\<close> bytes of the line reached
  the file.
\<close>

datatype sign_result = Signature bytestr | NotBytes | SignRaises

datatype append_io = AppendOk | OpenFails | WriteFails nat

record log_env =
  le_mkdir :: bool
  le_lock :: bool
  le_sign :: "bytestr \<Rightarrow> sign_result"
  le_io :: append_io

datatype log_exn =
    EventRejected format_error
  | MkdirError
  | LockTimeout
  | RefusesInvalidChain nat store_reason
  | TipRaises store_exn
  | RecordRaises format_error
  | SignerRaised
  | BadSignatureValue
  | AppendFailed

section \<open>The writer\<close>

definition dset :: "pydict \<Rightarrow> string \<Rightarrow> pyval \<Rightarrow> pydict" where
  "dset d k v = AList.update (KStr (lit k)) v d"

definition file_bytes :: "bytestr option \<Rightarrow> bytestr" where
  "file_bytes file = (case file of None \<Rightarrow> [] | Some bs \<Rightarrow> bs)"

definition append_line :: "append_io \<Rightarrow> bytestr option \<Rightarrow> bytestr \<Rightarrow> bytestr option" where
  "append_line io file line =
     (case io of
        AppendOk \<Rightarrow> Some (file_bytes file @ line)
      | OpenFails \<Rightarrow> file
      | WriteFails k \<Rightarrow> Some (file_bytes file @ take k line))"

definition unsigned_record :: "pydict \<Rightarrow> nat \<Rightarrow> pystr \<Rightarrow> pydict" where
  "unsigned_record ev seq prev = dset (dset ev ''seq'' (PInt (int seq))) ''prev_hash'' (PStr prev)"

definition signed_record :: "pydict \<Rightarrow> pystr \<Rightarrow> bytestr \<Rightarrow> pydict" where
  "signed_record u h sigb = dset (dset u ''record_hash'' (PStr h)) ''signature'' (PStr (hexlify sigb))"

text \<open>The validation of the chain, reading its tip: \<^verbatim>\<open>StoreError\<close> becomes \<^verbatim>\<open>AppendError\<close>.\<close>

definition log_tip :: "bytestr option \<Rightarrow> nat \<Rightarrow> log_exn + nat \<times> pystr" where
  "log_tip file version =
     rmap_err (\<lambda>e. case e of StoreError n r \<Rightarrow> RefusesInvalidChain n r | _ \<Rightarrow> TipRaises e)
       (chain_tip file (Some version))"

definition take_signature :: "sign_result \<Rightarrow> log_exn + bytestr" where
  "take_signature r =
     (case r of
        Signature sigb \<Rightarrow> if length sigb = 64 then Inr sigb else Inl BadSignatureValue
      | NotBytes \<Rightarrow> Inl BadSignatureValue
      | SignRaises \<Rightarrow> Inl SignerRaised)"

definition build_record ::
    "pydict \<Rightarrow> nat \<Rightarrow> pystr \<Rightarrow> (bytestr \<Rightarrow> sign_result) \<Rightarrow> log_exn + pydict \<times> bytestr" where
  "build_record ev seq prev sign =
     rbind (rmap_err RecordRaises (hash_unsigned_record (unsigned_record ev seq prev))) (\<lambda>(bs, h).
     rbind (take_signature (sign bs)) (\<lambda>sigb.
     rbind (rmap_err RecordRaises
              (canonical_json_bytes (signed_record (unsigned_record ev seq prev) h sigb))) (\<lambda>line.
       Inr (signed_record (unsigned_record ev seq prev) h sigb, line @ [LF]))))"

definition log_event_locked ::
    "pydict \<Rightarrow> (bytestr \<Rightarrow> sign_result) \<Rightarrow> append_io \<Rightarrow> bytestr option
      \<Rightarrow> (log_exn + pydict) \<times> bytestr option" where
  "log_event_locked ev sign io file =
     (case rbind (log_tip file (record_format_version ev)) (\<lambda>(seq, prev). build_record ev seq prev sign) of
        Inl e \<Rightarrow> (Inl e, file)
      | Inr (d, line) \<Rightarrow>
          (if io = AppendOk then Inr d else Inl AppendFailed, append_line io file line))"

definition log_event :: "pyval \<Rightarrow> log_env \<Rightarrow> bytestr option \<Rightarrow> (log_exn + pydict) \<times> bytestr option" where
  "log_event event env file =
     (case validate_event event of
        Inl e \<Rightarrow> (Inl (EventRejected e), file)
      | Inr ev \<Rightarrow>
          if \<not> le_mkdir env then (Inl MkdirError, file)
          else if \<not> le_lock env then (Inl LockTimeout, file)
          else log_event_locked ev (le_sign env) (le_io env) file)"

section \<open>The record that is built\<close>

lemma take_signature_iff [simp]:
  "take_signature r = Inr sigb \<longleftrightarrow> r = Signature sigb \<and> length sigb = 64"
  by (cases r) (auto simp: take_signature_def)

lemma build_record_parts:
  assumes "build_record ev n p sign = Inr (d, line)"
  obtains bs h sigb l where "hash_unsigned_record (unsigned_record ev n p) = Inr (bs, h)"
    "sign bs = Signature sigb" "length sigb = 64" "d = signed_record (unsigned_record ev n p) h sigb"
    "canon_enc (PDict d) = Some l" "line = l @ [LF]"
  using assms by (auto simp: build_record_def res_simps)

lemma log_event_parts:
  assumes "log_event event env file = (Inr d, file')"
  obtains ev n p line where "event = PDict ev" "event_ok ev"
    "log_tip file (record_format_version ev) = Inr (n, p)"
    "build_record ev n p (le_sign env) = Inr (d, line)" "le_io env = AppendOk"
    "file' = append_line AppendOk file line"
proof -
  obtain ev where ev: "event = PDict ev" "event_ok ev"
    "log_event_locked ev (le_sign env) (le_io env) file = (Inr d, file')"
    using assms by (auto simp: log_event_def validate_event_iff split: sum.splits if_splits)
  then obtain n p line where "log_tip file (record_format_version ev) = Inr (n, p)"
    "build_record ev n p (le_sign env) = Inr (d, line)" "le_io env = AppendOk"
    "file' = append_line AppendOk file line"
    by (auto simp: log_event_locked_def rbind_eq_Inr split: sum.splits if_splits)
  with ev(1,2) show thesis by (rule that)
qed

lemma dget_dset [simp]: "dget (dset d k v) f = (if f = k then Some v else dget d f)"
  by (simp add: dget_def dset_def update_conv')

lemma dset_new: "KStr (lit k) \<notin> set (dkeys d) \<Longrightarrow> dset d k v = d @ [(KStr (lit k), v)]"
  by (simp add: dset_def dkeys_def update_new)

lemma dkeys_append [simp]: "dkeys (d @ e) = dkeys d @ dkeys e" "dkeys [] = []" "dkeys (kv # e) = fst kv # dkeys e"
  by (simp_all add: dkeys_def)

lemma managed_not_event:
  assumes "event_ok ev" and "f \<in> set MANAGED_FIELDS"
  shows "KStr (lit f) \<notin> set (dkeys ev)"
proof -
  obtain kind where "set (dkeys ev) = named_keys (kind_fields kind)"
    using assms(1) by (auto simp: event_ok_iff event_kind_ok_def)
  with assms(2) show ?thesis by (cases kind) (auto simp: named_keys_def field_lists)
qed

lemma record_append:
  assumes "event_ok ev"
  shows "unsigned_record ev n p = ev @ [(KStr (lit ''seq''), PInt (int n)), (KStr (lit ''prev_hash''), PStr p)]"
    and "signed_record (unsigned_record ev n p) h sigb =
      ev @ [(KStr (lit ''seq''), PInt (int n)), (KStr (lit ''prev_hash''), PStr p),
        (KStr (lit ''record_hash''), PStr h), (KStr (lit ''signature''), PStr (hexlify sigb))]"
  using managed_not_event [OF assms]
  by (simp_all add: unsigned_record_def signed_record_def dset_new MANAGED_FIELDS_def)

lemma filter_event:
  assumes "event_ok ev"
  shows "event_of ev = ev" "unsigned_of ev = ev"
proof -
  have "fst kv \<noteq> KStr (lit f)" if "kv \<in> set ev" "f \<in> set MANAGED_FIELDS" for kv f
    using managed_not_event [OF assms that(2)] that(1) by (force simp: dkeys_def)
  then show "event_of ev = ev" "unsigned_of ev = ev"
    by (auto simp: event_of_def unsigned_of_def MANAGED_FIELDS_def intro!: filter_True)
qed

lemma hash_text_sha [simp]: "is_hash_text (sha256_hex bs)"
  using sha256_hex_is_hex by (auto simp: is_hash_text_def list_all_iff)

lemma signed_record_parts:
  assumes "event_ok ev" and d: "d = signed_record (unsigned_record ev n p) h sigb"
  shows "event_of d = ev" "unsigned_of d = unsigned_record ev n p"
    "dget d ''seq'' = Some (PInt (int n))" "dget d ''prev_hash'' = Some (PStr p)"
    "dget d ''record_hash'' = Some (PStr h)" "dget d ''signature'' = Some (PStr (hexlify sigb))"
    "record_format_version d = record_format_version ev"
proof -
  show "event_of d = ev" "unsigned_of d = unsigned_record ev n p"
    using filter_event [OF assms(1)] unfolding d record_append(2) [OF assms(1)]
    by (simp_all add: record_append(1) [OF assms(1)] event_of_def unsigned_of_def MANAGED_FIELDS_def)
qed (simp_all add: d signed_record_def unsigned_record_def record_format_version_def)

lemma hex_wf_str: "(\<And>c. c \<in> set s \<Longrightarrow> is_hex c) \<Longrightarrow> wf_str s"
  by (force simp: wf_str_def list_all_iff is_hex_def)

lemma signed_record_ok:
  assumes ev: "event_ok ev" "wf_val (PDict ev)" and n: "n < 2 ^ 63" and p: "is_hash_text p"
    and h: "is_hash_text h" and sigb: "length sigb = 64"
    and d: "d = signed_record (unsigned_record ev n p) h sigb"
  shows "wf_val (PDict d)" and "record_ok d"
proof -
  note parts = signed_record_parts [OF ev(1) d]
  have keys: "dkeys d = dkeys ev @ map (\<lambda>f. KStr (lit f)) MANAGED_FIELDS"
    unfolding d record_append(2) [OF ev(1)] by (simp add: MANAGED_FIELDS_def)
  have "wf_str (lit f)" for f using scalar_lit by (auto simp: scalar_str_def wf_str_def list_all_iff)
  moreover have "wf_str p" "wf_str h" "wf_str (hexlify sigb)"
    using p h by (auto simp: is_hash_text_def list_all_iff intro!: hex_wf_str intro: hexlify_hex)
  moreover have "distinct (dkeys d)"
    using ev(2) managed_not_event [OF ev(1)] unfolding keys
    by (auto simp: dkeys_def [of ev, symmetric] MANAGED_FIELDS_def)
  ultimately show "wf_val (PDict d)"
    using ev(2) unfolding d record_append(2) [OF ev(1)] by (auto simp: dkeys_def)
  have "list_all is_kstr (dkeys ev)"
    using ev(1) by (auto simp: event_ok_iff event_kind_ok_def intro: named_keys_kstr)
  then show "record_ok d"
    using n p h sigb ev(1) hexlify_hex [of _ sigb]
    by (auto simp: record_ok_def item_ok_def parts keys named_keys_def list_all_iff)
qed

lemma genesis_hash_text [simp]: "is_hash_text GENESIS_PREV_HASH"
  by (simp add: is_hash_text_def GENESIS_PREV_HASH_def is_hex_def list_all_iff)

lemma links_hash_text: "links st d \<Longrightarrow> is_hash_text (str_item d ''record_hash'')"
  by (simp add: links_chain)

lemma tip_hash_text: "linked iter_init ds \<Longrightarrow> is_hash_text (tip_hash_of ds)"
  by (cases "ds = []") (auto simp: tip_hash_of_def linked_last_hash forensic.tip_def
      dest: linked_last_hash)

text \<open>A file that does not exist is a chain without records.\<close>

definition is_chain :: "bytestr option \<Rightarrow> pydict list \<Rightarrow> bool" where
  "is_chain file ds \<longleftrightarrow> linked iter_init ds \<and> file_bytes file = file_of ds"

lemma file_of_Nil: "[] = file_of ds \<longleftrightarrow> ds = []"
  by (cases ds) (simp_all add: file_of_def line_of_def)

lemma chain_tip_file:
  "chain_tip file req = Inr (n, h) \<longleftrightarrow>
    (\<exists>ds. is_chain file ds \<and> n = length ds \<and> h = tip_hash_of ds \<and>
      (case req of None \<Rightarrow> True | Some v \<Rightarrow> \<forall>d \<in> set ds. record_format_version d = v))"
proof (cases "file")
  case None
  have chain: "is_chain file ds \<longleftrightarrow> ds = []" for ds
    by (simp add: None is_chain_def file_bytes_def file_of_Nil) auto
  have "chain_tip file req = Inr (0, GENESIS_PREV_HASH)"
    by (simp add: None chain_tip_def iter_validated_records_def)
  then show ?thesis by (auto simp: chain tip_hash_of_def split: option.splits)
next
  case (Some bs)
  then show ?thesis by (simp add: chain_tip_iff is_chain_def file_bytes_def)
qed

lemma is_chain_unique: "is_chain file ds \<Longrightarrow> is_chain file es \<Longrightarrow> ds = es"
  by (auto simp: is_chain_def intro: file_of_inject)

text \<open>The new record, read back: the same fields in sorted order, and it continues the chain.\<close>

lemma links_signed_record:
  assumes ev: "event_ok ev" "wf_val (PDict ev)" and n: "n < 2 ^ 63" and p: "is_hash_text p"
    and sigb: "length sigb = 64"
    and bs: "canon_enc (PDict (unsigned_record ev n p)) = Some bs"
    and d: "d = signed_record (unsigned_record ev n p) (sha256_hex bs) sigb"
    and st: "it_seq st = n" "it_prev st = p"
      "case it_version st of None \<Rightarrow> True | Some v \<Rightarrow> record_format_version ev = v"
  shows "links st (norm_dict d)"
proof -
  have ok: "wf_val (PDict d)" "record_ok d"
    using signed_record_ok [OF ev n p hash_text_sha sigb d] by blast+
  then have dist: "distinct (map fst d)" by simp
  note parts = signed_record_parts [OF ev(1) d] dget_norm_dict [OF dist]
  have "wf_val (PDict (norm_dict d))" using wf_val_norm [OF ok(1)] by (simp add: norm_val_PDict del: norm_val.simps)
  then have "canonical_dict (norm_dict d)" by (simp add: canonical_dict_def)
  moreover have "canon_enc (PDict (norm_dict (unsigned_of d))) = canon_enc (PDict (unsigned_of d))"
    using canon_enc_norm [of "PDict (unsigned_of d)"] by (simp only: norm_val_PDict)
  then have "unsigned_bytes (norm_dict d) = bs"
    using bs by (simp add: unsigned_bytes_def unsigned_of_norm parts)
  ultimately show ?thesis
    using ok st dist
    by (auto simp: links_def record_ok_norm record_format_version_norm parts split: option.splits)
qed

section \<open>Appending\<close>

definition chain_version_ok :: "pydict list \<Rightarrow> pydict \<Rightarrow> bool" where
  "chain_version_ok ds ev \<longleftrightarrow> list_all (\<lambda>d. record_format_version d = record_format_version ev) ds"

lemma log_tip_iff:
  "log_tip file v = Inr (n, p) \<longleftrightarrow>
    (\<exists>ds. is_chain file ds \<and> n = length ds \<and> p = tip_hash_of ds \<and>
      (\<forall>d \<in> set ds. record_format_version d = v))"
  by (simp add: log_tip_def chain_tip_file)

lemma unsigned_record_enc:
  assumes "event_ok ev" and "wf_val (PDict ev)" and "n < 2 ^ 63" and "is_hash_text p"
  obtains bs where "canon_enc (PDict (unsigned_record ev n p)) = Some bs"
    "hash_unsigned_record (unsigned_record ev n p) = Inr (bs, sha256_hex bs)"
proof -
  let ?d = "signed_record (unsigned_record ev n p) GENESIS_PREV_HASH (replicate 64 0)"
  have "length (replicate 64 (0 :: byte)) = 64" by simp
  note ok = signed_record_ok [OF assms genesis_hash_text this refl]
  note parts = signed_record_parts [OF assms(1) refl, of n p GENESIS_PREV_HASH "replicate 64 0"]
  have "unsigned_of (unsigned_of ?d) = unsigned_of ?d" by (simp add: unsigned_of_def)
  with parts(2) have u: "unsigned_of (unsigned_record ev n p) = unsigned_record ev n p" by simp
  have "json_ok (PDict ?d)" using ok by (intro record_json_ok) auto
  then obtain bs where "canon_enc (PDict (unsigned_of ?d)) = Some bs"
    using ok(1) by (rule hash_unsigned_record_ok)
  then have bs: "canon_enc (PDict (unsigned_record ev n p)) = Some bs" using parts(2) by simp
  then have "hash_unsigned_record (unsigned_record ev n p) = Inr (bs, sha256_hex bs)"
    by (simp add: hash_unsigned_record_def rbind_eq_Inr u)
  with bs that show thesis by blast
qed

text \<open>
  What the writer builds on a valid chain: a record whose sorted form continues the chain, and its
  line.
\<close>

lemma build_record_links:
  assumes ev: "event_ok ev" "wf_val (PDict ev)" and chain: "linked iter_init ds" "length ds < 2 ^ 63"
    and v: "\<forall>d \<in> set ds. record_format_version d = record_format_version ev"
    and build: "build_record ev (length ds) (tip_hash_of ds) sign = Inr (d, line)"
  shows "links (iter_end iter_init ds) (norm_dict d)" and "line = line_of (norm_dict d)"
proof -
  have p: "is_hash_text (tip_hash_of ds)" using chain(1) by (rule tip_hash_text)
  obtain bs where bs: "canon_enc (PDict (unsigned_record ev (length ds) (tip_hash_of ds))) = Some bs"
    "hash_unsigned_record (unsigned_record ev (length ds) (tip_hash_of ds)) = Inr (bs, sha256_hex bs)"
    using ev chain(2) p by (rule unsigned_record_enc)
  obtain sigb l where d: "length sigb = 64"
    "d = signed_record (unsigned_record ev (length ds) (tip_hash_of ds)) (sha256_hex bs) sigb"
    "canon_enc (PDict d) = Some l" "line = l @ [LF]"
    using build bs(2) by (auto elim: build_record_parts)
  show "links (iter_end iter_init ds) (norm_dict d)"
    using ev chain(2) p d(1) bs(1) d(2)
  proof (rule links_signed_record)
    show "case it_version (iter_end iter_init ds) of None \<Rightarrow> True | Some w \<Rightarrow> record_format_version ev = w"
      using v by (auto simp: it_version_end)
  qed (simp_all add: it_prev_end, simp add: iter_init_def)
  have "canon_enc (PDict (norm_dict d)) = Some l"
    using d(3) canon_enc_norm [of "PDict d"] by (simp only: norm_val_PDict)
  with d(4) show "line = line_of (norm_dict d)" by (simp add: line_of_def)
qed

lemma file_of_snoc: "file_of (ds @ [d]) = file_of ds @ line_of d"
  by (simp add: file_of_def)

text \<open>A record is returned only after it became the last record of a valid chain.\<close>

lemma log_event_returns:
  assumes "log_event event env file = (Inr d, file')" and "wf_val event"
    and "\<And>ds. is_chain file ds \<Longrightarrow> length ds < 2 ^ 63"
  obtains ds ev where "event = PDict ev" "event_ok ev" "is_chain file ds"
    "is_chain file' (ds @ [norm_dict d])" "chain_version_ok ds ev"
    "dget d ''seq'' = Some (PInt (int (length ds)))" "dget d ''prev_hash'' = Some (PStr (tip_hash_of ds))"
proof -
  obtain ev n p line where ev: "event = PDict ev" "event_ok ev"
    and t: "log_tip file (record_format_version ev) = Inr (n, p)"
    "build_record ev n p (le_sign env) = Inr (d, line)" "le_io env = AppendOk"
    "file' = append_line AppendOk file line"
    using assms(1) by (rule log_event_parts)
  from t(1) obtain ds where ds: "is_chain file ds" "n = length ds" "p = tip_hash_of ds"
    "\<forall>d \<in> set ds. record_format_version d = record_format_version ev"
    by (auto simp: log_tip_iff)
  have wf: "wf_val (PDict ev)" using assms(2) ev(1) by simp
  have b: "links (iter_end iter_init ds) (norm_dict d)" "line = line_of (norm_dict d)"
    using build_record_links [OF ev(2) wf _ assms(3) [OF ds(1)] ds(4)] ds t(2)
    by (auto simp: is_chain_def)
  then have "is_chain file' (ds @ [norm_dict d])"
    using ds(1) t(4) by (simp add: is_chain_def append_line_def file_bytes_def file_of_snoc)
  moreover have "dget d ''seq'' = Some (PInt (int n))" "dget d ''prev_hash'' = Some (PStr p)"
    using t(2) by (auto simp: build_record_def res_simps signed_record_def unsigned_record_def)
  ultimately show thesis
    using that [of ev ds] ev ds by (auto simp: chain_version_ok_def list_all_iff)
qed

text \<open>With a lock, a signer that returns 64 bytes and a write that succeeds, the append succeeds.\<close>

lemma log_event_succeeds:
  assumes chain: "is_chain file ds" "length ds < 2 ^ 63"
    and ev: "event_ok ev" "wf_val (PDict ev)" "chain_version_ok ds ev"
    and env: "le_mkdir env" "le_lock env" "le_io env = AppendOk"
    and sign: "\<And>m. \<exists>sigb. le_sign env m = Signature sigb \<and> length sigb = 64"
  obtains d where "log_event (PDict ev) env file = (Inr d, Some (file_of (ds @ [norm_dict d])))"
    "linked iter_init (ds @ [norm_dict d])"
proof -
  have p: "is_hash_text (tip_hash_of ds)" using chain(1) by (auto simp: is_chain_def intro: tip_hash_text)
  let ?u = "unsigned_record ev (length ds) (tip_hash_of ds)"
  obtain bs where bs: "hash_unsigned_record ?u = Inr (bs, sha256_hex bs)"
    using ev(1,2) chain(2) p by (rule unsigned_record_enc)
  obtain sigb where sigb: "le_sign env bs = Signature sigb" "length sigb = 64" using sign by blast
  define d where d: "d = signed_record ?u (sha256_hex bs) sigb"
  have ok: "wf_val (PDict d)" "record_ok d"
    using signed_record_ok [OF ev(1,2) chain(2) p hash_text_sha sigb(2) d] by blast+
  then obtain l where l: "canonical_json_bytes d = Inr l" using record_ok_enc by fastforce
  have tip: "log_tip file (record_format_version ev) = Inr (length ds, tip_hash_of ds)"
    using chain(1) ev(3) by (auto simp: log_tip_iff chain_version_ok_def list_all_iff)
  have build: "build_record ev (length ds) (tip_hash_of ds) (le_sign env) = Inr (d, l @ [LF])"
    using bs sigb l by (simp add: build_record_def d take_signature_def del: canonical_json_bytes_iff)
  have links: "links (iter_end iter_init ds) (norm_dict d)" "l @ [LF] = line_of (norm_dict d)"
    using build_record_links [OF ev(1,2) _ chain(2) _ build] chain(1) ev(3)
    by (auto simp: is_chain_def chain_version_ok_def list_all_iff)
  have "log_event (PDict ev) env file = (Inr d, Some (file_of (ds @ [norm_dict d])))"
    using ev(1) env tip build links chain(1)
    by (simp add: log_event_def log_event_locked_def validate_event_ok append_line_def is_chain_def
        file_of_snoc)
  moreover have "linked iter_init (ds @ [norm_dict d])" using chain(1) links by (simp add: is_chain_def)
  ultimately show thesis by (rule that)
qed

text \<open>An exception leaves the file as it was, unless the operating system's write failed.\<close>

lemma log_event_error_keeps_file:
  "log_event event env file = (Inl e, file') \<Longrightarrow> e \<noteq> AppendFailed \<Longrightarrow> file' = file"
  by (auto simp: log_event_def log_event_locked_def split: sum.splits if_splits)

lemma log_event_write_failed:
  assumes "log_event event env file = (Inl AppendFailed, file')" and "wf_val event"
    and "\<And>ds. is_chain file ds \<Longrightarrow> length ds < 2 ^ 63"
  obtains ds d where "is_chain file ds" "links (iter_end iter_init ds) d"
    "file' = file \<or> (\<exists>k. file' = Some (file_of ds @ take k (line_of d)))"
proof -
  obtain ev where ev: "event = PDict ev" "event_ok ev"
    "log_event_locked ev (le_sign env) (le_io env) file = (Inl AppendFailed, file')"
    using assms(1)
    by (auto simp: log_event_def validate_event_iff split: sum.splits if_splits)
  have nt: "log_tip file v \<noteq> Inl AppendFailed" for v
    by (auto simp: log_tip_def rmap_err_eq_Inl split: store_exn.splits)
  have nb: "build_record ev n p sign \<noteq> Inl AppendFailed" for n p sign
    by (auto simp: build_record_def res_simps take_signature_def split: sign_result.splits if_splits)
  let ?m = "rbind (log_tip file (record_format_version ev)) (\<lambda>(seq, prev). build_record ev seq prev (le_sign env))"
  have "?m \<noteq> Inl AppendFailed" using nt nb by (auto simp: rbind_eq_Inl)
  then obtain d line where "?m = Inr (d, line)" and io: "le_io env \<noteq> AppendOk"
      "file' = append_line (le_io env) file line"
    using ev(3) by (cases ?m) (auto simp: log_event_locked_def split: if_splits)
  then obtain n p where t: "log_tip file (record_format_version ev) = Inr (n, p)"
    "build_record ev n p (le_sign env) = Inr (d, line)"
    by (auto simp: rbind_eq_Inr)
  from t(1) obtain ds where ds: "is_chain file ds" "n = length ds" "p = tip_hash_of ds"
    "\<forall>d \<in> set ds. record_format_version d = record_format_version ev"
    by (auto simp: log_tip_iff)
  have wf: "wf_val (PDict ev)" using assms(2) ev(1) by simp
  have "links (iter_end iter_init ds) (norm_dict d)" "line = line_of (norm_dict d)"
    using build_record_links [OF ev(2) wf _ assms(3) [OF ds(1)] ds(4)] ds t(2)
    by (auto simp: is_chain_def)
  with ds(1) io show thesis
    by (intro that [of ds "norm_dict d"])
      (auto simp: append_line_def is_chain_def split: append_io.splits)
qed

text \<open>
  A write interrupted inside the line leaves a file that the reader refuses at the line after the
  last complete record, so that no later append happens.
\<close>

lemma torn_check_line:
  assumes "links st d" and "0 < k" and "k < length (line_of d)"
  shows "split_lines (take k (line_of d)) = [take k (line_of d)]"
    and "check_line st' n (take k (line_of d)) = Inl (StoreError n NotTerminated)"
proof -
  let ?p = "take k (line_of d)"
  have p: "strict_prefix ?p (json_lines.frame (PDict d))" "?p \<noteq> []"
    using assms by (auto simp: line_of_frame [symmetric] strict_prefix_def take_is_prefix)
  note torn = json_lines.torn_frame [OF links_framed [OF assms(1)] p]
  from torn(2) show "split_lines ?p = [?p]" .
  have "last ?p \<noteq> LF" using torn(1) p(2) by (metis last_in_set)
  then show "check_line st' n ?p = Inl (StoreError n NotTerminated)" by (simp add: check_line_def)
qed

lemma torn_chain_tip:
  assumes "linked iter_init ds" and "links (iter_end iter_init ds) d"
    and "0 < k" and "k < length (line_of d)"
  shows "\<exists>n r. chain_tip (Some (file_of ds @ take k (line_of d))) req = Inl (StoreError n r)"
proof -
  note torn = torn_check_line [OF assms(2-4)]
  have "chain_tip (Some (file_of ds @ take k (line_of d))) req =
      rbind (run_body (tip_step req) 1 ds (0, GENESIS_PREV_HASH)) (\<lambda>_. Inl (StoreError (1 + length ds) NotTerminated))"
    by (simp add: chain_tip_def iter_validated_records_def split_lines_file [OF assms(1)]
        iter_lines_linked [OF assms(1)] torn)
  moreover have "\<exists>m r. e = StoreError m r" if "run_body (tip_step req) n es s = Inl e" for n es s e
    using that by (induction es arbitrary: n s) (auto simp: tip_step_def res_simps split: option.splits)
  ultimately show ?thesis
    by (cases "run_body (tip_step req) 1 ds (0, GENESIS_PREV_HASH)") fastforce+
qed

lemma torn_chain_tip_line:
  assumes "linked iter_init ds" and "links (iter_end iter_init ds) d"
    and "0 < k" and "k < length (line_of d)"
  shows "chain_tip (Some (file_of ds @ take k (line_of d))) None = Inl (StoreError (length ds + 1) NotTerminated)"
proof -
  have "run_body (tip_step None) 1 ds (0, GENESIS_PREV_HASH) =
      Inr (if ds = [] then (0, GENESIS_PREV_HASH)
        else (it_seq (iter_end iter_init ds), str_item (last ds) ''record_hash''))"
    using run_tip_step [OF assms(1), of None 1 "(0, GENESIS_PREV_HASH)"
        "if ds = [] then (0, GENESIS_PREV_HASH)
         else (it_seq (iter_end iter_init ds), str_item (last ds) ''record_hash'')"] by simp
  then show ?thesis
    by (simp add: chain_tip_def iter_validated_records_def split_lines_file [OF assms(1)]
        iter_lines_linked [OF assms(1)] torn_check_line [OF assms(2-4)])
qed

lemma log_event_refuses_torn:
  assumes "linked iter_init ds" and "links (iter_end iter_init ds) d"
    and "0 < k" and "k < length (line_of d)"
    and "file = Some (file_of ds @ take k (line_of d))"
  shows "\<exists>e. log_event event env file = (Inl e, file)"
proof -
  have "\<exists>e. log_tip file v = Inl e" for v
    using torn_chain_tip [OF assms(1-4), of "Some v"] assms(5) by (auto simp: log_tip_def)
  then have "\<exists>e. log_event_locked ev sign io file = (Inl e, file)" for ev sign io
    by (metis (no_types, lifting) log_event_locked_def rbind_Inl sum.case(1))
  then show ?thesis by (auto simp: log_event_def split: sum.splits)
qed

end
