(* ===== verification/Chain_Check.thy ===== *)
theory Chain_Check
  imports Chain_Logger
begin

text \<open>
  The verifier of \<^verbatim>\<open>src/forensics/chain_check.py\<close>. The Ed25519 check of the public key is an argument
  \<open>verify sig msg\<close> (false is \<^verbatim>\<open>InvalidSignature\<close>), the file lock another. The lemmas say exactly which
  files are verified, and with \<open>log_event\<close> that what was appended is verified.
\<close>

datatype verify_reason = SignatureFailed | StoreReason store_reason

datatype verify_exn =
    PublicKeyTypeError
  | ChainFileNotFound
  | VerifyLockTimeout
  | ChainVerificationError nat verify_reason
  | ReaderRaises store_exn

record verification_result =
  records_verified :: nat
  tip_hash :: "pystr option"

definition reader_exn :: "store_exn \<Rightarrow> verify_exn" where
  "reader_exn e =
     (case e of
        StoreError n r \<Rightarrow> ChainVerificationError n (StoreReason r)
      | _ \<Rightarrow> ReaderRaises e)"

definition verify_step ::
    "(bytestr \<Rightarrow> bytestr \<Rightarrow> bool) \<Rightarrow> verification_result \<Rightarrow> nat \<Rightarrow> pydict \<Rightarrow> bytestr
      \<Rightarrow> verify_exn + verification_result" where
  "verify_step verify s n d msg =
     rbind (raise_if (\<not> verify (fromhex (str_item d ''signature'')) msg)
              (ChainVerificationError n SignatureFailed)) (\<lambda>_.
       Inr \<lparr>records_verified = records_verified s + 1,
            tip_hash = Some (str_item d ''record_hash'')\<rparr>)"

text \<open>\<open>is_key\<close>: the argument is an \<^verbatim>\<open>Ed25519PublicKey\<close>; \<open>lock\<close>: the file lock was acquired in time.\<close>

definition verify_chain ::
    "bool \<Rightarrow> bool \<Rightarrow> (bytestr \<Rightarrow> bytestr \<Rightarrow> bool) \<Rightarrow> bytestr option
      \<Rightarrow> verify_exn + verification_result" where
  "verify_chain is_key lock verify file =
     (if \<not> is_key then Inl PublicKeyTypeError
      else if file = None then Inl ChainFileNotFound
      else if \<not> lock then Inl VerifyLockTimeout
      else iter_validated_records reader_exn (verify_step verify) file
             \<lparr>records_verified = 0, tip_hash = None\<rparr>)"

section \<open>Which files are verified\<close>

definition signature_ok :: "(bytestr \<Rightarrow> bytestr \<Rightarrow> bool) \<Rightarrow> pydict \<Rightarrow> bool" where
  "signature_ok verify d \<longleftrightarrow> verify (fromhex (str_item d ''signature'')) (unsigned_bytes d)"

definition verified_result :: "pydict list \<Rightarrow> verification_result" where
  "verified_result ds =
     \<lparr>records_verified = length ds, tip_hash = (if ds = [] then None else Some (tip_hash_of ds))\<rparr>"

lemma run_verify_step:
  "run_body (verify_step verify) n ds s = Inr t \<longleftrightarrow>
    (\<forall>d \<in> set ds. signature_ok verify d) \<and>
    t = (if ds = [] then s
         else \<lparr>records_verified = records_verified s + length ds,
               tip_hash = Some (str_item (last ds) ''record_hash'')\<rparr>)"
  by (induction ds arbitrary: n s) (auto simp: verify_step_def signature_ok_def res_simps)

lemma verify_chain_iff:
  "verify_chain True True verify (Some bs) = Inr t \<longleftrightarrow>
    (\<exists>ds. linked iter_init ds \<and> bs = file_of ds \<and> (\<forall>d \<in> set ds. signature_ok verify d) \<and>
      t = verified_result ds)"
proof -
  have "run_body (verify_step verify) 1 ds \<lparr>records_verified = 0, tip_hash = None\<rparr> = Inr t \<longleftrightarrow>
      (\<forall>d \<in> set ds. signature_ok verify d) \<and> t = verified_result ds" for ds
    by (auto simp: run_verify_step verified_result_def tip_hash_of_def)
  then show ?thesis by (simp add: verify_chain_def iter_validated_iff)
qed

lemma verify_chain_file:
  assumes "verify_chain True True verify file = Inr t"
  obtains ds where "is_chain file ds" "\<forall>d \<in> set ds. signature_ok verify d" "t = verified_result ds"
proof (cases "file")
  case (Some bs)
  with assms obtain ds where "linked iter_init ds" "bs = file_of ds"
    "\<forall>d \<in> set ds. signature_ok verify d" "t = verified_result ds"
    by (auto simp: verify_chain_iff)
  with Some that show thesis by (simp add: is_chain_def file_bytes_def)
qed (use assms in \<open>simp add: verify_chain_def\<close>)

text \<open>A record is written with the signer's signature of its unsigned bytes.\<close>

lemma log_event_signature:
  assumes log: "log_event event env file = (Inr d, file')"
    and sign: "\<And>m sigb. le_sign env m = Signature sigb \<Longrightarrow> verify sigb m"
    and wf: "wf_val event"
  shows "signature_ok verify (norm_dict d)"
proof -
  obtain ev n p line where ev: "event = PDict ev" "event_ok ev"
    and b: "build_record ev n p (le_sign env) = Inr (d, line)"
    using log by (rule log_event_parts)
  obtain bs h sigb where r: "hash_unsigned_record (unsigned_record ev n p) = Inr (bs, h)"
    "le_sign env bs = Signature sigb" "d = signed_record (unsigned_record ev n p) h sigb"
    using b by (rule build_record_parts)
  note parts = signed_record_parts [OF ev(2) r(3)]
  have "distinct (dkeys ev)" using wf ev(1) by (simp add: dkeys_def)
  then have dist: "distinct (map fst d)"
    using managed_not_event [OF ev(2)] unfolding r(3) record_append(2) [OF ev(2)]
    by (auto simp: dkeys_def MANAGED_FIELDS_def)
  have u: "unsigned_of (unsigned_record ev n p) = unsigned_record ev n p"
    using parts(2) by (metis (no_types, lifting) filter_filter filter_cong unsigned_of_def)
  have "canon_enc (PDict (unsigned_record ev n p)) = Some bs"
    using r(1) by (auto simp: hash_unsigned_record_def rbind_eq_Inr u)
  moreover have "canon_enc (PDict (norm_dict e)) = canon_enc (PDict e)" for e
    using canon_enc_norm [of "PDict e"] by (simp only: norm_val_PDict)
  ultimately have "unsigned_bytes (norm_dict d) = bs"
    by (simp add: unsigned_bytes_def unsigned_of_norm parts(2))
  moreover have "str_item (norm_dict d) ''signature'' = hexlify sigb"
    by (simp add: str_item_def dget_norm_dict [OF dist] parts(6))
  ultimately show ?thesis using sign [OF r(2)] by (simp add: signature_ok_def)
qed

end
