(* ===== verification/Chain_Processes.thy ===== *)
theory Chain_Processes
  imports Chain_Logger
begin

text \<open>
  Several processes that call \<^verbatim>\<open>log_event\<close> on the same file, as a step relation. The phases of a process
  are the points of \<^verbatim>\<open>src/forensics/logger.py\<close> between which other processes run: waiting for the file
  lock, after reading the tip, while the line is being written in pieces, after the return. A process
  may die in any phase, and a write may fail in any piece; the operating system then releases the
  lock. The invariant shows that the lock is enough: the file is always a valid chain followed at
  most by one interrupted line, a returned record stays in it, and no sequence number is given twice.
\<close>

section \<open>States and steps\<close>

datatype phase =
    Idle
  | Waiting pydict
  | TipRead pydict nat pystr
  | Writing pydict bytestr
  | Returned pydict
  | Stopped

record system =
  sys_file :: "bytestr option"
  sys_lock :: "nat option"
  sys_phase :: "nat \<Rightarrow> phase"

definition set_phase :: "nat \<Rightarrow> phase \<Rightarrow> system \<Rightarrow> system" where
  "set_phase p ph s = s\<lparr>sys_phase := (sys_phase s)(p := ph)\<rparr>"

definition release :: "nat \<Rightarrow> system \<Rightarrow> system" where
  "release p s = (if sys_lock s = Some p then s\<lparr>sys_lock := None\<rparr> else s)"

text \<open>
  \<open>Acquire\<close> is the entry of \<^verbatim>\<open>with lock\<close>; \<open>Tip\<close> is \<^verbatim>\<open>chain_tip\<close>, \<open>Build\<close> the hash and the signature of the
  record and the opening of the file, \<open>Write\<close> a piece of the line reaching the file, \<open>Finish\<close> the
  return. \<open>Refuse\<close> is an exception raised by \<^verbatim>\<open>chain_tip\<close> or the signer; \<open>Die\<close> is an \<^verbatim>\<open>OSError\<close>, a lock
  timeout or the end of the process. The operating system does not let a file reach \<open>2 ^ 63\<close> bytes.
\<close>

inductive step :: "(bytestr \<Rightarrow> sign_result) \<Rightarrow> system \<Rightarrow> system \<Rightarrow> bool" for sign where
  Call: "sys_phase s p = Idle \<Longrightarrow> validate_event event = Inr ev \<Longrightarrow> wf_val event \<Longrightarrow>
    step sign s (set_phase p (Waiting ev) s)"
| Acquire: "sys_phase s p = Waiting ev \<Longrightarrow> sys_lock s = None \<Longrightarrow> step sign s (s\<lparr>sys_lock := Some p\<rparr>)"
| Tip: "sys_phase s p = Waiting ev \<Longrightarrow> sys_lock s = Some p \<Longrightarrow>
    log_tip (sys_file s) (record_format_version ev) = Inr (n, h) \<Longrightarrow>
    step sign s (set_phase p (TipRead ev n h) s)"
| Refuse: "sys_lock s = Some p \<Longrightarrow>
    (sys_phase s p = Waiting ev \<and> log_tip (sys_file s) (record_format_version ev) = Inl e) \<or>
    (sys_phase s p = TipRead ev n h \<and> build_record ev n h sign = Inl e) \<Longrightarrow>
    step sign s (release p (set_phase p Stopped s))"
| Build: "sys_phase s p = TipRead ev n h \<Longrightarrow> build_record ev n h sign = Inr (d, line) \<Longrightarrow>
    step sign s (set_phase p (Writing d line) (s\<lparr>sys_file := Some (file_bytes (sys_file s))\<rparr>))"
| Write: "sys_phase s p = Writing d (piece @ rest) \<Longrightarrow> piece \<noteq> [] \<Longrightarrow>
    length (file_bytes (sys_file s) @ piece) < 2 ^ 63 \<Longrightarrow>
    step sign s (set_phase p (Writing d rest) (s\<lparr>sys_file := Some (file_bytes (sys_file s) @ piece)\<rparr>))"
| Finish: "sys_phase s p = Writing d [] \<Longrightarrow> step sign s (release p (set_phase p (Returned d) s))"
| Die: "sys_phase s p \<noteq> Idle \<Longrightarrow> \<forall>d. sys_phase s p \<noteq> Returned d \<Longrightarrow>
    step sign s (release p (set_phase p Stopped s))"

definition init_system :: "bytestr option \<Rightarrow> system" where
  "init_system f0 = \<lparr>sys_file = f0, sys_lock = None, sys_phase = (\<lambda>_. Idle)\<rparr>"

inductive reachable :: "(bytestr \<Rightarrow> sign_result) \<Rightarrow> bytestr option \<Rightarrow> system \<Rightarrow> bool" for sign f0 where
  Start: "reachable sign f0 (init_system f0)"
| Step: "reachable sign f0 s \<Longrightarrow> step sign s s' \<Longrightarrow> reachable sign f0 s'"

section \<open>The invariant\<close>

text \<open>A tail left by an interrupted write: a proper piece of a line that would continue the chain.\<close>

definition torn :: "pydict list \<Rightarrow> bytestr \<Rightarrow> bool" where
  "torn ds tail \<longleftrightarrow>
     (\<exists>d k. links (iter_end iter_init ds) d \<and> 0 < k \<and> k < length (line_of d) \<and> tail = take k (line_of d))"

text \<open>The records a process has completely written.\<close>

fun completed :: "phase \<Rightarrow> pydict option" where
  "completed (Writing d []) = Some d"
| "completed (Returned d) = Some d"
| "completed _ = None"

fun phase_ok :: "pydict list \<Rightarrow> bytestr \<Rightarrow> phase \<Rightarrow> bool" where
  "phase_ok ds tail (Waiting ev) = (event_ok ev \<and> wf_val (PDict ev))"
| "phase_ok ds tail (TipRead ev n h) =
     (event_ok ev \<and> wf_val (PDict ev) \<and> tail = [] \<and> n = length ds \<and> h = tip_hash_of ds \<and>
      (\<forall>d \<in> set ds. record_format_version d = record_format_version ev))"
| "phase_ok ds tail (Writing d rest) =
     (if rest = [] then tail = [] \<and> norm_dict d \<in> set ds
      else links (iter_end iter_init ds) (norm_dict d) \<and> tail @ rest = line_of (norm_dict d))"
| "phase_ok ds tail (Returned d) = (norm_dict d \<in> set ds)"
| "phase_ok ds tail _ = True"

definition in_section :: "phase \<Rightarrow> bool" where
  "in_section ph = (case ph of TipRead _ _ _ \<Rightarrow> True | Writing _ _ \<Rightarrow> True | _ \<Rightarrow> False)"

definition sys_chain :: "system \<Rightarrow> pydict list \<Rightarrow> bytestr \<Rightarrow> bool" where
  "sys_chain s ds tail \<longleftrightarrow>
     linked iter_init ds \<and> file_bytes (sys_file s) = file_of ds @ tail \<and> (tail = [] \<or> torn ds tail) \<and>
     length (file_bytes (sys_file s)) < 2 ^ 63"

definition sys_inv :: "system \<Rightarrow> pydict list \<Rightarrow> bytestr \<Rightarrow> bool" where
  "sys_inv s ds tail \<longleftrightarrow>
     sys_chain s ds tail \<and>
     (\<forall>p. phase_ok ds tail (sys_phase s p)) \<and>
     (\<forall>p. in_section (sys_phase s p) \<longrightarrow> sys_lock s = Some p) \<and>
     (\<forall>p q d e. p \<noteq> q \<longrightarrow> completed (sys_phase s p) = Some d \<longrightarrow> completed (sys_phase s q) = Some e \<longrightarrow>
        record_seq (norm_dict d) \<noteq> record_seq (norm_dict e))"

inductive_cases stepE: "step sign s s'"

lemma system_simps [simp]:
  "sys_phase (set_phase p ph s) q = (if q = p then ph else sys_phase s q)"
  "sys_file (set_phase p ph s) = sys_file s" "sys_lock (set_phase p ph s) = sys_lock s"
  "sys_phase (release p s) = sys_phase s" "sys_file (release p s) = sys_file s"
  "sys_lock (release p s) = (if sys_lock s = Some p then None else sys_lock s)"
  by (simp_all add: set_phase_def release_def)

lemma linked_seq: "linked st ds \<Longrightarrow> d \<in> set ds \<Longrightarrow> it_seq st \<le> record_seq d \<and> record_seq d < it_seq st + length ds"
proof (induction ds arbitrary: st)
  case (Cons e ds)
  then show ?case by (fastforce simp: links_chain(3) iter_next_def)
qed simp

lemma file_of_length: "length ds \<le> length (file_of ds)"
  by (induction ds) (auto simp: file_of_def line_of_def)

section \<open>The steps keep the invariant\<close>

declare wf_val_PDict [simp del]

lemma sys_inv_phase: "sys_inv s ds tail \<Longrightarrow> sys_phase s p = ph \<Longrightarrow> phase_ok ds tail ph"
  by (auto simp: sys_inv_def)

lemma phase_ok_mono:
  "phase_ok ds tail ph \<Longrightarrow> \<not> in_section ph \<Longrightarrow> set ds \<subseteq> set ds' \<Longrightarrow> phase_ok ds' tail' ph"
  by (cases ph) (auto simp: in_section_def)

lemma others_outside:
  assumes "sys_inv s ds tail" and "sys_lock s = Some p" and "q \<noteq> p"
  shows "\<not> in_section (sys_phase s q)"
  using assms by (auto simp: sys_inv_def)

text \<open>A step of one process that does not touch the file.\<close>

lemma quiet_step:
  assumes inv: "sys_inv s ds tail"
    and same: "file_bytes (sys_file s') = file_bytes (sys_file s)"
    and phase: "sys_phase s' = (sys_phase s)(p := ph)"
    and ok: "phase_ok ds tail ph"
    and lock: "\<And>q. in_section (sys_phase s' q) \<Longrightarrow> sys_lock s' = Some q"
    and comp: "completed ph = None \<or> completed ph = completed (sys_phase s p)"
  shows "sys_inv s' ds tail"
proof -
  have "sys_chain s' ds tail" using inv unfolding sys_inv_def sys_chain_def same by blast
  moreover have "phase_ok ds tail (sys_phase s' q)" for q using inv ok phase by (simp add: sys_inv_def)
  moreover have "record_seq (norm_dict d) \<noteq> record_seq (norm_dict e)"
    if "q \<noteq> r" "completed (sys_phase s' q) = Some d" "completed (sys_phase s' r) = Some e" for q r d e
  proof -
    have "completed (sys_phase s q') = Some x" if "completed (sys_phase s' q') = Some x" for q' x
      using that comp phase by (auto split: if_splits)
    with that inv show ?thesis unfolding sys_inv_def by metis
  qed
  ultimately show ?thesis using lock by (auto simp: sys_inv_def)
qed

lemma tip_step_inv:
  assumes inv: "sys_inv s ds tail" and ph: "sys_phase s p = Waiting ev" and lock: "sys_lock s = Some p"
    and tip: "log_tip (sys_file s) (record_format_version ev) = Inr (n, h)"
  shows "sys_inv (set_phase p (TipRead ev n h) s) ds tail"
proof -
  have ch: "linked iter_init ds" "file_bytes (sys_file s) = file_of ds @ tail" "tail = [] \<or> torn ds tail"
    using inv by (auto simp: sys_inv_def sys_chain_def)
  obtain es where es: "is_chain (sys_file s) es" "n = length es" "h = tip_hash_of es"
    "\<forall>d \<in> set es. record_format_version d = record_format_version ev"
    using tip by (auto simp: log_tip_iff)
  have "\<not> torn ds tail"
  proof
    assume "torn ds tail"
    then obtain d k where t: "links (iter_end iter_init ds) d" "0 < k" "k < length (line_of d)"
      "tail = take k (line_of d)" by (auto simp: torn_def)
    then have "tail \<noteq> []" by auto
    then have "sys_file s = Some (file_of ds @ take k (line_of d))"
      using ch(2) t(4) by (auto simp: file_bytes_def split: option.splits)
    with tip torn_chain_tip [OF ch(1) t(1-3), of "Some (record_format_version ev)"]
    show False by (auto simp: log_tip_def)
  qed
  then have tl: "tail = []" using ch(3) by blast
  then have "es = ds" using es(1) ch by (auto simp: is_chain_def intro: file_of_inject)
  then have ok: "phase_ok ds tail (TipRead ev n h)"
    using sys_inv_phase [OF inv ph] es tl by simp
  show ?thesis
  proof (rule quiet_step [OF inv _ _ ok])
    show "sys_phase (set_phase p (TipRead ev n h) s) = (sys_phase s)(p := TipRead ev n h)" by auto
    show "in_section (sys_phase (set_phase p (TipRead ev n h) s) q) \<Longrightarrow>
        sys_lock (set_phase p (TipRead ev n h) s) = Some q" for q
      using others_outside [OF inv lock] lock by (auto split: if_splits)
  qed simp_all
qed

lemma section_lock:
  "sys_inv s ds tail \<Longrightarrow> sys_phase s p = ph \<Longrightarrow> in_section ph \<Longrightarrow> sys_lock s = Some p"
  by (auto simp: sys_inv_def)

lemma build_step_inv:
  assumes inv: "sys_inv s ds tail" and ph: "sys_phase s p = TipRead ev n h"
    and build: "build_record ev n h sign = Inr (d, line)"
  shows "sys_inv (set_phase p (Writing d line) (s\<lparr>sys_file := Some (file_bytes (sys_file s))\<rparr>)) ds tail"
    (is "sys_inv ?s ds tail")
proof -
  have ok: "event_ok ev" "wf_val (PDict ev)" "tail = []" "n = length ds" "h = tip_hash_of ds"
    "\<forall>d \<in> set ds. record_format_version d = record_format_version ev"
    using sys_inv_phase [OF inv ph] by simp_all
  have ch: "linked iter_init ds" "length (file_of ds) < 2 ^ 63"
    using inv ok(3) by (auto simp: sys_inv_def sys_chain_def)
  then have "length ds < 2 ^ 63" using file_of_length [of ds] by linarith
  then have l: "links (iter_end iter_init ds) (norm_dict d)" "line = line_of (norm_dict d)"
    using build_record_links [OF ok(1,2) ch(1)] ok(4-6) build by auto
  then have ne: "line \<noteq> []" by (simp add: line_of_def)
  have w: "phase_ok ds tail (Writing d line)" using l ok(3) ne by simp
  have c: "completed (Writing d line) = None" using ne by (cases line) simp_all
  have lock: "sys_lock s = Some p" using section_lock [OF inv ph] by (simp add: in_section_def)
  show ?thesis
  proof (rule quiet_step [OF inv _ _ w])
    show "sys_phase ?s = (sys_phase s)(p := Writing d line)" by auto
    show "in_section (sys_phase ?s q) \<Longrightarrow> sys_lock ?s = Some q" for q
      using others_outside [OF inv lock] lock by (auto split: if_splits)
  qed (simp_all add: c file_bytes_def)
qed

lemma completed_in:
  "phase_ok ds tail ph \<Longrightarrow> completed ph = Some d \<Longrightarrow> norm_dict d \<in> set ds"
  by (cases ph rule: completed.cases) auto

lemma write_piece_inv:
  assumes inv: "sys_inv s ds tail" and ph: "sys_phase s p = Writing d (piece @ rest)"
    and piece: "piece \<noteq> []" "length (file_bytes (sys_file s) @ piece) < 2 ^ 63" and rest: "rest \<noteq> []"
  shows "sys_inv (set_phase p (Writing d rest) (s\<lparr>sys_file := Some (file_bytes (sys_file s) @ piece)\<rparr>))
    ds (tail @ piece)" (is "sys_inv ?s ds ?t")
proof -
  have w: "links (iter_end iter_init ds) (norm_dict d)" "tail @ piece @ rest = line_of (norm_dict d)"
    using sys_inv_phase [OF inv ph] piece(1) by (simp_all split: if_splits)
  have lock: "sys_lock s = Some p" using section_lock [OF inv ph] by (simp add: in_section_def)
  have out: "\<not> in_section (sys_phase s q)" if "q \<noteq> p" for q using others_outside [OF inv lock that] .
  have "?t = take (length ?t) (line_of (norm_dict d))" by (simp add: w(2) [symmetric])
  moreover have "length ?t < length (line_of (norm_dict d))" using rest by (simp add: w(2) [symmetric])
  moreover have "0 < length ?t" using piece(1) by simp
  ultimately have "torn ds ?t" unfolding torn_def using w(1) by blast
  then have "sys_chain ?s ds ?t" using inv piece(2) by (simp add: sys_inv_def sys_chain_def file_bytes_def)
  moreover have "phase_ok ds ?t (sys_phase ?s q)" for q
    using w rest inv out phase_ok_mono [of ds tail "sys_phase s q" ds ?t] by (auto simp: sys_inv_def)
  moreover have "completed (Writing d rest) = None" using rest by (cases rest) simp_all
  moreover have "in_section (sys_phase ?s q) \<longrightarrow> sys_lock ?s = Some q" for q using lock out by simp
  ultimately show ?thesis using inv by (simp add: sys_inv_def)
qed

lemma write_last_inv:
  assumes inv: "sys_inv s ds tail" and ph: "sys_phase s p = Writing d piece"
    and piece: "piece \<noteq> []" "length (file_bytes (sys_file s) @ piece) < 2 ^ 63"
  shows "sys_inv (set_phase p (Writing d []) (s\<lparr>sys_file := Some (file_bytes (sys_file s) @ piece)\<rparr>))
    (ds @ [norm_dict d]) []" (is "sys_inv ?s ?ds []")
proof -
  have w: "links (iter_end iter_init ds) (norm_dict d)" "tail @ piece = line_of (norm_dict d)"
    using sys_inv_phase [OF inv ph] piece(1) by (simp_all split: if_splits)
  have lock: "sys_lock s = Some p" using section_lock [OF inv ph] by (simp add: in_section_def)
  have out: "\<not> in_section (sys_phase s q)" if "q \<noteq> p" for q using others_outside [OF inv lock that] .
  have ch: "linked iter_init ds" "file_bytes (sys_file s) = file_of ds @ tail"
    using inv by (simp_all add: sys_inv_def sys_chain_def)
  have "sys_chain ?s ?ds []"
    using ch w piece(2) by (simp add: sys_chain_def file_bytes_def file_of_snoc)
  moreover have "phase_ok ?ds [] (sys_phase ?s q)" for q
    using w inv out phase_ok_mono [of ds tail "sys_phase s q" ?ds "[]"] by (auto simp: sys_inv_def)
  moreover have "in_section (sys_phase ?s q) \<longrightarrow> sys_lock ?s = Some q" for q using lock out by simp
  moreover have "record_seq (norm_dict d) \<noteq> record_seq (norm_dict e)"
    if "q \<noteq> p" "completed (sys_phase s q) = Some e" for q e
  proof -
    have "norm_dict e \<in> set ds" using completed_in [OF sys_inv_phase [OF inv refl] that(2)] .
    then have "record_seq (norm_dict e) < length ds" using linked_seq [OF ch(1)] by (simp add: iter_init_def)
    moreover have "record_seq (norm_dict d) = length ds" using links_chain(3) [OF w(1)] by (simp add: iter_init_def)
    ultimately show ?thesis by simp
  qed
  ultimately show ?thesis using inv unfolding sys_inv_def by (auto split: if_splits) metis+
qed

lemma release_step_inv:
  assumes inv: "sys_inv s ds tail" and ok: "phase_ok ds tail ph" and sec: "\<not> in_section ph"
    and comp: "completed ph = None \<or> completed ph = completed (sys_phase s p)"
  shows "sys_inv (release p (set_phase p ph s)) ds tail" (is "sys_inv ?s ds tail")
proof (rule quiet_step [OF inv _ _ ok])
  show "sys_phase ?s = (sys_phase s)(p := ph)" by auto
  fix q assume "in_section (sys_phase ?s q)"
  then have "q \<noteq> p" "in_section (sys_phase s q)" using sec by (auto split: if_splits)
  then show "sys_lock ?s = Some q" using section_lock [OF inv refl] by fastforce
qed (simp_all add: comp)

lemma call_step_inv:
  assumes inv: "sys_inv s ds tail" and ph: "sys_phase s p = Idle"
    and ev: "validate_event event = Inr ev" "wf_val event"
  shows "sys_inv (set_phase p (Waiting ev) s) ds tail" (is "sys_inv ?s ds tail")
proof -
  have ok: "phase_ok ds tail (Waiting ev)" using ev by (auto simp: validate_event_iff)
  show ?thesis
  proof (rule quiet_step [OF inv _ _ ok])
    show "sys_phase ?s = (sys_phase s)(p := Waiting ev)" by auto
    fix q assume "in_section (sys_phase ?s q)"
    then have "in_section (sys_phase s q)" by (auto simp: in_section_def split: if_splits)
    then show "sys_lock ?s = Some q" using section_lock [OF inv refl] by simp
  qed simp_all
qed

text \<open>Every step keeps the invariant, and the chain only grows at its end.\<close>

lemma step_inv:
  assumes "step sign s s'" and inv: "sys_inv s ds tail"
  shows "\<exists>ds' tail'. sys_inv s' ds' tail' \<and> prefix ds ds'"
  using assms(1)
proof (cases rule: step.cases)
  case (Call p event ev)
  then show ?thesis using call_step_inv [OF inv] by blast
next
  case (Acquire p ev)
  then have "sys_inv s' ds tail"
    using inv section_lock [OF inv refl] by (auto simp: sys_inv_def sys_chain_def)
  then show ?thesis by blast
next
  case (Tip p ev n h)
  then show ?thesis using tip_step_inv [OF inv] by blast
next
  case (Refuse p ev e n h)
  have "sys_inv (release p (set_phase p Stopped s)) ds tail"
    by (rule release_step_inv [OF inv]) (simp_all add: in_section_def)
  with Refuse(1) show ?thesis by blast
next
  case (Build p ev n h d line)
  then show ?thesis using build_step_inv [OF inv] by blast
next
  case (Write p d piece rest)
  show ?thesis
  proof (cases "rest = []")
    case True
    with Write have "sys_inv s' (ds @ [norm_dict d]) []" using write_last_inv [OF inv] by simp
    then show ?thesis by (meson prefixI)
  next
    case False
    with Write have "sys_inv s' ds (tail @ piece)" using write_piece_inv [OF inv] by simp
    then show ?thesis by blast
  qed
next
  case (Finish p d)
  have "phase_ok ds tail (Returned d)" using sys_inv_phase [OF inv Finish(2)] by simp
  then have "sys_inv (release p (set_phase p (Returned d) s)) ds tail"
    by (rule release_step_inv [OF inv]) (simp_all add: in_section_def Finish)
  with Finish(1) show ?thesis by blast
next
  case (Die p)
  have "sys_inv (release p (set_phase p Stopped s)) ds tail"
    by (rule release_step_inv [OF inv]) (simp_all add: in_section_def)
  with Die(1) show ?thesis by blast
qed

lemma init_inv:
  assumes "is_chain f0 ds" and "length (file_bytes f0) < 2 ^ 63"
  shows "sys_inv (init_system f0) ds []"
  using assms by (simp add: sys_inv_def sys_chain_def init_system_def is_chain_def in_section_def)

lemma reachable_inv:
  assumes "reachable sign f0 s" and "is_chain f0 ds0" and "length (file_bytes f0) < 2 ^ 63"
  shows "\<exists>ds tail. sys_inv s ds tail \<and> prefix ds0 ds"
  using assms(1)
proof induction
  case Start
  then show ?case using init_inv [OF assms(2,3)] by blast
next
  case (Step s s')
  then obtain ds tail where "sys_inv s ds tail" "prefix ds0 ds" by blast
  with step_inv [OF Step.hyps(2)] show ?case by (meson prefix_order.trans)
qed

section \<open>The steps are those of the function\<close>

text \<open>A call of \<open>log_event\<close> that returns is a sequence of steps of an undisturbed process.\<close>

lemma steps_of_log_event:
  assumes log: "log_event event env f = (Inr d, f')" and wf: "wf_val event"
    and s: "sys_phase s p = Idle" "sys_lock s = None" "sys_file s = f"
    and size: "length (file_bytes f') < 2 ^ 63"
  shows "\<exists>s'. (step (le_sign env))\<^sup>*\<^sup>* s s' \<and> sys_phase s' p = Returned d \<and> sys_file s' = f' \<and>
    sys_lock s' = None \<and> (\<forall>q. q \<noteq> p \<longrightarrow> sys_phase s' q = sys_phase s q)"
proof -
  obtain ev n h line where ev: "event = PDict ev" "event_ok ev"
    and t: "log_tip f (record_format_version ev) = Inr (n, h)"
    "build_record ev n h (le_sign env) = Inr (d, line)" "f' = append_line AppendOk f line"
    using log by (rule log_event_parts)
  have f': "f' = Some (file_bytes f @ line)" using t(3) by (simp add: append_line_def)
  have ne: "line \<noteq> []" using t(2) by (auto elim: build_record_parts)
  define s1 where "s1 = set_phase p (Waiting ev) s"
  define s2 where "s2 = s1\<lparr>sys_lock := Some p\<rparr>"
  define s3 where "s3 = set_phase p (TipRead ev n h) s2"
  define s4 where "s4 = set_phase p (Writing d line) (s3\<lparr>sys_file := Some (file_bytes (sys_file s3))\<rparr>)"
  define s5 where "s5 = set_phase p (Writing d []) (s4\<lparr>sys_file := Some (file_bytes (sys_file s4) @ line)\<rparr>)"
  define s6 where "s6 = release p (set_phase p (Returned d) s5)"
  note defs = s1_def s2_def s3_def s4_def s5_def s6_def
  have file4: "file_bytes (sys_file s4) = file_bytes f" using s(3) by (simp add: defs file_bytes_def)
  have "step (le_sign env) s s1"
    unfolding s1_def using s(1) validate_event_ok [OF ev(2)] wf ev(1) by (metis step.Call)
  moreover have "step (le_sign env) s1 s2" unfolding s2_def using s(2) by (intro step.Acquire) (auto simp: s1_def)
  moreover have "step (le_sign env) s2 s3"
    unfolding s3_def using s(3) t(1) by (intro step.Tip) (auto simp: s1_def s2_def)
  moreover have "step (le_sign env) s3 s4"
    unfolding s4_def using t(2) by (intro step.Build) (auto simp: s3_def)
  moreover have "step (le_sign env) s4 s5"
    unfolding s5_def using ne size f' file4 by (intro step.Write [where piece = line and rest = "[]", simplified])
      (auto simp: s4_def file_bytes_def)
  moreover have "step (le_sign env) s5 s6" unfolding s6_def by (intro step.Finish) (simp add: s5_def)
  ultimately have "(step (le_sign env))\<^sup>*\<^sup>* s s6" by (meson rtranclp.rtrancl_into_rtrancl rtranclp.rtrancl_refl)
  moreover have "sys_phase s6 p = Returned d" "sys_file s6 = f'" "sys_lock s6 = None"
    "\<forall>q. q \<noteq> p \<longrightarrow> sys_phase s6 q = sys_phase s q"
    using f' file4 by (simp_all add: s6_def s5_def) (simp_all add: defs)
  ultimately show ?thesis by blast
qed

end
