(* ===== verification/Samples.thy ===== *)
theory Samples
  imports Chain_Check Chain_Processes
begin

text \<open>
  Concrete inputs at which the properties are applied: an ingestion event, a classification event, a
  signature function and its check, and an environment in which nothing fails. They show that the
  hypotheses of the properties can hold.
\<close>

definition sample_event :: pydict where
  "sample_event =
     [(KStr (lit ''format_version''), PInt 2),
      (KStr (lit ''event_type''), PStr (lit ''ingestion_accepted'')),
      (KStr (lit ''ts_utc''), PStr (lit ''2026-01-31T23:59:59.250000Z'')),
      (KStr (lit ''node_id''), PStr (lit ''node-1'')),
      (KStr (lit ''raw_csi_hash''), PStr (replicate 64 97)),
      (KStr (lit ''collector_schema_version''), PStr (lit ''0.1'')),
      (KStr (lit ''collector_sequence_number''), PInt 7)]"

definition sample_legacy :: pydict where
  "sample_legacy =
     [(KStr (lit ''ts_utc''), PStr (lit ''2026-01-31T23:59:59.250000Z'')),
      (KStr (lit ''node_id''), PStr (lit ''node-1'')),
      (KStr (lit ''raw_csi_hash''), PStr (replicate 64 97)),
      (KStr (lit ''features_hash''), PStr (replicate 64 98)),
      (KStr (lit ''model_id''), PStr (lit ''rf'')),
      (KStr (lit ''model_config_hash''), PStr (replicate 64 99)),
      (KStr (lit ''class''), PStr (lit ''occupied'')),
      (KStr (lit ''confidence''), PInt 1),
      (KStr (lit ''top_shap''), PList [PInt 3, PNone])]"

definition sample_signature :: "bytestr \<Rightarrow> bytestr" where
  "sample_signature m = sha256 m @ sha256 m"

definition sample_verify :: "bytestr \<Rightarrow> bytestr \<Rightarrow> bool" where
  "sample_verify sigb m \<longleftrightarrow> sigb = sample_signature m"

definition sample_env :: log_env where
  "sample_env = \<lparr>le_mkdir = True, le_lock = True, le_sign = (\<lambda>m. Signature (sample_signature m)),
     le_io = AppendOk\<rparr>"

lemma lit_Cons: "lit (c # s) = of_char c # lit s"
  by (simp add: lit_def)

lemma sample_time: "time_ok (PStr (lit ''2026-01-31T23:59:59.250000Z''))"
proof -
  have "utc_shape None (lit ''2026-01-31T23:59:59.250000Z'')"
    by (simp add: utc_shape_def lit_Cons is_nd_def nd_zeros_def)
  moreover have "fromisoformat_utc (lit ''2026-01-31T23:59:59.250000Z'') \<noteq> None"
    by (simp add: fromisoformat_utc_def lit_Cons digits_at_def is_digit_def undec_def valid_dt_def
        valid_date_def days_in_month_def Let_def)
  ultimately show ?thesis by simp
qed

lemmas event_eval = event_ok_def event_kind_ok_def item_ok_def dget_def field_lists dkeys_def named_keys_def
  is_hash_text_def list_all_iff list_ex_iff is_hex_def

lemma sample_event_ok: "event_ok sample_event"
  using sample_time
  by (simp add: event_eval sample_event_def del: time_ok.simps) (auto simp: lit_def is_surrogate_def)

lemma sample_legacy_ok: "event_ok sample_legacy"
  using sample_time
  by (simp add: event_eval sample_legacy_def del: time_ok.simps) (auto simp: lit_def is_surrogate_def)

lemma sample_event_wf: "wf_val (PDict sample_event)"
  by (simp add: sample_event_def wf_str_def list_all_iff lit_def wf_val_PDict)

lemma sample_legacy_wf: "wf_val (PDict sample_legacy)"
  by (simp add: sample_legacy_def wf_str_def list_all_iff lit_def wf_val_PDict)

lemma sample_versions: "record_format_version sample_event = 2" "record_format_version sample_legacy = 1"
  by (simp_all add: record_format_version_def dget_def sample_event_def sample_legacy_def)

lemma sample_env_simps [simp]:
  "le_mkdir sample_env" "le_lock sample_env" "le_io sample_env = AppendOk"
  "le_sign sample_env m = Signature (sample_signature m)" "length (sample_signature m) = 64"
  by (simp_all add: sample_env_def sample_signature_def)

lemma empty_chain [simp]: "is_chain None []" "is_chain (Some []) []"
  by (simp_all add: is_chain_def file_bytes_def file_of_def)

lemma is_chain_None_iff: "is_chain None ds \<longleftrightarrow> ds = []"
  using is_chain_unique [OF empty_chain(1)] by auto

section \<open>The size of a line\<close>

definition val_bound :: "pyval \<Rightarrow> nat" where
  "val_bound v = (case v of PStr s \<Rightarrow> 6 * length s + 2 | PInt n \<Rightarrow> length (int_text n) | _ \<Rightarrow> 0)"

definition is_flat :: "pyval \<Rightarrow> bool" where
  "is_flat v = (case v of PStr s \<Rightarrow> True | PInt n \<Rightarrow> True | _ \<Rightarrow> False)"

lemma join_comma_length: "length (join_comma us) \<le> sum_list (map (\<lambda>u. length u + 1) us)"
  by (induction us rule: join_comma.induct) auto

lemma quote_length: "length (quote s) \<le> 6 * length s + 2"
  by (induction s) (auto simp: quote_def escape_char_def)

lemma sum_list_sort: "sum_list (map f (sort_key K xs)) = (sum_list (map f xs) :: nat)"
proof -
  have "sum_list (map f (insort_key K x xs)) = f x + sum_list (map f xs)" for x xs
    by (induction xs) simp_all
  then show ?thesis by (induction xs) simp_all
qed

lemma flat_text_length: "canon_text v = Some t \<Longrightarrow> is_flat v \<Longrightarrow> length t \<le> val_bound v"
  using quote_length by (cases v) (auto simp: val_bound_def is_flat_def split: if_splits)

lemma flat_object_length:
  assumes t: "canon_text (PDict d) = Some t" and flat: "\<And>kv. kv \<in> set d \<Longrightarrow> is_flat (snd kv)"
  shows "length t \<le> 2 + sum_list (map (\<lambda>kv. 6 * length (key_text (fst kv)) + val_bound (snd kv) + 4) d)"
proof -
  obtain kts where kts: "those (map member_key (map (map_prod id canon_text) d)) = Some kts"
    "t = 123 # join_comma (map (\<lambda>(k, t). quote k @ 58 # t) (sort_key fst kts)) @ [125]"
    using t by (auto simp: object_text_def)
  let ?f = "\<lambda>(k, t). length (quote k) + length t + 2"
  have "length t \<le> 2 + sum_list (map (\<lambda>u. length u + 1) (map (\<lambda>(k, t). quote k @ 58 # t) (sort_key fst kts)))"
    using join_comma_length [of "map (\<lambda>(k, t). quote k @ 58 # t) (sort_key fst kts)"] kts(2) by simp
  also have "\<dots> = 2 + sum_list (map ?f (sort_key fst kts))"
    by (simp add: comp_def case_prod_unfold)
  also have "\<dots> = 2 + sum_list (map ?f kts)" by (simp add: sum_list_sort)
  also have "sum_list (map ?f kts) \<le> sum_list (map (\<lambda>kv. 6 * length (key_text (fst kv)) + val_bound (snd kv) + 4) d)"
  proof -
    have "list_all2 (\<lambda>kv kt. member_key (map_prod id canon_text kv) = Some kt) d kts"
      using kts(1) by (simp add: those_Some_iff list_all2_map1)
    then show ?thesis using flat
    proof (induction rule: list_all2_induct)
      case (Cons kv d kt kts)
      obtain k v where kv: "kv = (KStr k, v)" using Cons.hyps(1) by (cases kv; cases "fst kv") auto
      with Cons.hyps(1) obtain u where "kt = (k, u)" "canon_text v = Some u" by auto
      with Cons quote_length [of k] flat_text_length [of v u] kv show ?case by fastforce
    qed simp
  qed
  finally show ?thesis by simp
qed

lemma utf8_length: "length (concat (map utf8_char t)) \<le> 4 * length t"
  by (induction t) (auto simp: utf8_char_def)

lemma flat_line_length:
  assumes "canon_enc (PDict d) = Some bs" and "wf_val (PDict d)"
    and "\<And>kv. kv \<in> set d \<Longrightarrow> is_flat (snd kv)"
  shows "length bs \<le> 8 + 4 * sum_list (map (\<lambda>kv. 6 * length (key_text (fst kv)) + val_bound (snd kv) + 4) d)"
proof -
  obtain t where "canon_text (PDict d) = Some t" "bs = concat (map utf8_char t)"
    using assms(1,2) by (rule canon_enc_textD)
  with flat_object_length [of d t, OF _ assms(3)] utf8_length [of t] show ?thesis by simp
qed

lemma sample_line_length:
  assumes "d = signed_record (unsigned_record sample_event n p) h sigb" and "n < 10"
    and "length p = 64" and "length h = 64" and "length sigb = 64" and "canon_enc (PDict d) = Some bs"
    and "wf_val (PDict d)"
  shows "length bs < 2 ^ 20"
proof -
  have d: "d = sample_event @ [(KStr (lit ''seq''), PInt (int n)), (KStr (lit ''prev_hash''), PStr p),
        (KStr (lit ''record_hash''), PStr h), (KStr (lit ''signature''), PStr (hexlify sigb))]"
    using assms(1) record_append(2) [OF sample_event_ok] by simp
  have flat: "kv \<in> set d \<Longrightarrow> is_flat (snd kv)" for kv by (auto simp: d sample_event_def is_flat_def)
  have digit: "length (int_text (int m)) = 1" if "m < 10" for m
    using that by (simp add: int_text_def dec.simps)
  show ?thesis
    using flat_line_length [OF assms(6,7) flat] assms(2-5) digit [OF assms(2)] digit [of 2] digit [of 7]
    by (simp add: d sample_event_def val_bound_def)
qed
lemma sample_append:
  assumes "is_chain f ds" and "length ds < 10" and "chain_version_ok ds sample_event"
  obtains d where "log_event (PDict sample_event) sample_env f = (Inr d, Some (file_of (ds @ [norm_dict d])))"
    "is_chain (Some (file_of (ds @ [norm_dict d]))) (ds @ [norm_dict d])"
    "chain_version_ok (ds @ [norm_dict d]) sample_event" "length (line_of (norm_dict d)) \<le> 2 ^ 20"
proof -
  have "length ds < 2 ^ 63" using assms(2) by simp
  then obtain d where d: "log_event (PDict sample_event) sample_env f = (Inr d, Some (file_of (ds @ [norm_dict d])))"
    "linked iter_init (ds @ [norm_dict d])"
    by (rule log_event_succeeds [OF assms(1) _ sample_event_ok sample_event_wf assms(3), of sample_env]) simp_all
  obtain ev n p line where ev: "PDict sample_event = PDict ev" "log_tip f (record_format_version ev) = Inr (n, p)"
    and b: "build_record ev n p (le_sign sample_env) = Inr (d, line)"
    using d(1) by (rule log_event_parts)
  obtain bs h sigb l where r: "hash_unsigned_record (unsigned_record ev n p) = Inr (bs, h)" "length sigb = 64"
    "d = signed_record (unsigned_record ev n p) h sigb" "canon_enc (PDict d) = Some l"
    using b by (rule build_record_parts)
  have np: "n = length ds" "is_hash_text p"
    using ev(2) is_chain_unique [OF assms(1)] by (auto simp: log_tip_iff is_chain_def tip_hash_text)
  have h: "length h = 64" using r(1) by (auto simp: hash_unsigned_record_def rbind_eq_Inr)
  have dd: "d = signed_record (unsigned_record sample_event n p) h sigb" using r(3) ev(1) by simp
  have "is_hash_text h" using r(1) by (auto simp: hash_unsigned_record_def rbind_eq_Inr)
  then have wf: "wf_val (PDict d)"
    using signed_record_ok(1) [OF sample_event_ok sample_event_wf _ np(2) _ r(2) dd] np(1) assms(2) by simp
  have "length l < 2 ^ 20"
    using sample_line_length [OF dd _ _ h r(2,4) wf] np assms(2) by (simp add: is_hash_text_def)
  moreover have "canon_enc (PDict (norm_dict d)) = Some l"
    using r(4) canon_enc_norm [of "PDict d"] by (simp only: norm_val_PDict)
  ultimately have "length (line_of (norm_dict d)) \<le> 2 ^ 20" by (simp add: line_of_def)
  moreover have "record_format_version (norm_dict d) = record_format_version sample_event"
    using record_format_version_norm [of d] wf signed_record_parts(7) [OF sample_event_ok dd]
    by (simp add: wf_val_PDict)
  moreover have "is_chain (Some (file_of (ds @ [norm_dict d]))) (ds @ [norm_dict d])"
    using d(2) by (simp add: is_chain_def file_bytes_def)
  ultimately show thesis using d(1) assms(3) by (intro that) (auto simp: chain_version_ok_def)
qed

end
