(* ===== verification/Forensic_Properties.thy ===== *)
theory Forensic_Properties
  imports Samples
begin

text \<open>
  The properties of the forensic chain: the record format, the reader, the writer, the verifier and
  several writers at once, each with an instance on the inputs of \<^verbatim>\<open>Samples\<close>.
\<close>

section \<open>Lemmas\<close>

lemma verify_bytes_chain:
  assumes "verify_chain True True verify (Some (file_bytes f)) = Inr t"
  obtains ds where "is_chain f ds" "\<forall>d \<in> set ds. signature_ok verify d" "t = verified_result ds"
  using assms by (auto simp: verify_chain_iff is_chain_def)

lemma chain_length: "is_chain f ds \<Longrightarrow> length (file_bytes f) < 2 ^ 63 \<Longrightarrow> length ds < 2 ^ 63"
  using file_of_length [of ds] by (simp add: is_chain_def)

lemma log_event_returns_size:
  assumes "log_event event env f = (Inr d, f')" and "wf_val event" and "length (file_bytes f) < 2 ^ 63"
  obtains ds ev where "event = PDict ev" "event_ok ev" "is_chain f ds"
    "is_chain f' (ds @ [norm_dict d])" "chain_version_ok ds ev"
    "dget d ''seq'' = Some (PInt (int (length ds)))" "dget d ''prev_hash'' = Some (PStr (tip_hash_of ds))"
  using log_event_returns [OF assms(1,2)] chain_length assms(3) by metis

lemma str_item_norm: "distinct (map fst d) \<Longrightarrow> str_item (norm_dict d) k = str_item d k"
proof -
  assume d: "distinct (map fst d)"
  have "(case norm_val v of PStr s \<Rightarrow> s | _ \<Rightarrow> []) = (case v of PStr s \<Rightarrow> s | _ \<Rightarrow> [])" for v
    by (cases v) simp_all
  then show ?thesis by (simp add: str_item_def dget_norm_dict [OF d] split: option.splits)
qed

lemma log_event_distinct:
  assumes "log_event event env f = (Inr d, f')" and "wf_val event"
  shows "distinct (map fst d)"
proof -
  obtain ev n p line where ev: "event = PDict ev" "event_ok ev"
    and b: "build_record ev n p (le_sign env) = Inr (d, line)"
    using assms(1) by (rule log_event_parts)
  obtain bs h sigb where r: "d = signed_record (unsigned_record ev n p) h sigb"
    using b by (rule build_record_parts)
  have "distinct (map fst ev)" using assms(2) ev(1) by (simp add: wf_val_PDict)
  then show ?thesis using managed_not_event [OF ev(2)] unfolding r record_append(2) [OF ev(2)]
    by (auto simp: dkeys_def MANAGED_FIELDS_def)
qed

definition sample_env_torn :: log_env where
  "sample_env_torn = sample_env\<lparr>le_io := WriteFails 1\<rparr>"

lemma sample_log:
  obtains d where "log_event (PDict sample_event) sample_env None = (Inr d, Some (line_of (norm_dict d)))"
    "links iter_init (norm_dict d)"
proof -
  obtain d where "log_event (PDict sample_event) sample_env None = (Inr d, Some (file_of ([] @ [norm_dict d])))"
    "linked iter_init ([] @ [norm_dict d])"
    by (rule log_event_succeeds [OF empty_chain(1) _ sample_event_ok sample_event_wf, of sample_env])
      (simp_all add: chain_version_ok_def)
  then show thesis by (intro that) (simp_all add: file_of_def)
qed

lemma sample_torn:
  obtains f' where "log_event (PDict sample_event) sample_env_torn None = (Inl AppendFailed, f')"
    "file_bytes f' \<noteq> []" "last (file_bytes f') \<noteq> LF"
proof -
  obtain d where d: "log_event (PDict sample_event) sample_env None = (Inr d, Some (line_of (norm_dict d)))"
    "links iter_init (norm_dict d)" by (rule sample_log)
  then have l: "log_event (PDict sample_event) sample_env_torn None =
      (Inl AppendFailed, Some (take 1 (line_of (norm_dict d))))"
    by (auto simp: log_event_def log_event_locked_def sample_env_torn_def append_line_def file_bytes_def
        split: sum.splits if_splits)
  obtain c cs where "line_of (norm_dict d) = c # cs" "c \<noteq> LF"
    using d(2) by (elim links_enc) (force simp: neq_Nil_conv)
  then show thesis by (intro that [OF l]) (simp_all add: file_bytes_def)
qed

section \<open>Appending and verifying\<close>

text \<open>
  C1. What is appended is verified. On a file the verifier accepts, an event the validator accepts, of
  the version of the chain, is appended, and the verifier accepts the new file with one record more
  and the new record's hash as its tip. The signer is assumed to return 64 bytes that the key checks.
\<close>

theorem append_then_verify:
  assumes "validate_event event = Inr ev" and "wf_val event"
    and "verify_chain True True verify (Some (file_bytes f)) = Inr t"
    and "chain_tip f (Some (record_format_version ev)) = Inr (n, h)"
    and "length (file_bytes f) < 2 ^ 63"
    and "le_mkdir env" and "le_lock env" and "le_io env = AppendOk"
    and "\<And>m. \<exists>sigb. le_sign env m = Signature sigb \<and> length sigb = 64 \<and> verify sigb m"
  shows "\<exists>d bs. log_event event env f = (Inr d, Some bs) \<and>
    verify_chain True True verify (Some bs) =
      Inr \<lparr>records_verified = records_verified t + 1, tip_hash = Some (str_item d ''record_hash'')\<rparr>"
proof -
  have ev: "event = PDict ev" "event_ok ev" using assms(1) by (auto simp: validate_event_iff)
  obtain ds where ds: "is_chain f ds" "\<forall>d \<in> set ds. signature_ok verify d" "t = verified_result ds"
    using assms(3) by (rule verify_bytes_chain)
  have v: "chain_version_ok ds ev"
    using assms(4) ds(1) is_chain_unique by (auto simp: chain_tip_file chain_version_ok_def list_all_iff)
  obtain d where d: "log_event (PDict ev) env f = (Inr d, Some (file_of (ds @ [norm_dict d])))"
    "linked iter_init (ds @ [norm_dict d])"
    using log_event_succeeds [OF ds(1) chain_length [OF ds(1) assms(5)] ev(2) _ v assms(6-8)] assms(2,9) ev(1)
    by metis
  have log: "log_event event env f = (Inr d, Some (file_of (ds @ [norm_dict d])))" using d(1) ev(1) by simp
  have "le_sign env m = Signature sigb \<Longrightarrow> verify sigb m" for m sigb using assms(9) [of m] by auto
  then have "signature_ok verify (norm_dict d)" by (rule log_event_signature [OF log _ assms(2)])
  then have "verify_chain True True verify (Some (file_of (ds @ [norm_dict d]))) =
      Inr (verified_result (ds @ [norm_dict d]))"
    using d(2) ds(2) unfolding verify_chain_iff by (intro exI [of _ "ds @ [norm_dict d]"]) simp
  moreover have "verified_result (ds @ [norm_dict d]) = \<lparr>records_verified = records_verified t + 1,
      tip_hash = Some (str_item d ''record_hash'')\<rparr>"
    using ds(3) str_item_norm [OF log_event_distinct [OF log assms(2)]]
    by (simp add: verified_result_def tip_hash_of_def)
  ultimately show ?thesis using log by auto
qed

theorem append_then_verify_witness:
  "\<exists>d bs. log_event (PDict sample_event) sample_env None = (Inr d, Some bs) \<and>
    verify_chain True True sample_verify (Some bs) =
      Inr \<lparr>records_verified = 1, tip_hash = Some (str_item d ''record_hash'')\<rparr>"
proof -
  have v: "verify_chain True True sample_verify (Some (file_bytes None)) =
      Inr \<lparr>records_verified = 0, tip_hash = None\<rparr>"
    by (simp add: verify_chain_def iter_validated_records_def file_bytes_def)
  have c: "chain_tip None (Some (record_format_version sample_event)) = Inr (0, GENESIS_PREV_HASH)"
    by (simp add: chain_tip_def iter_validated_records_def)
  show ?thesis
    using append_then_verify [OF validate_event_ok [OF sample_event_ok] sample_event_wf v c, of sample_env]
    by (simp add: file_bytes_def sample_verify_def)
qed

text \<open>
  C9. The writer only appends, allots the next number and links to the tip. A returned record has the
  number of records before it as its sequence number and the previous tip as its \<^verbatim>\<open>prev_hash\<close>; the new
  file is the old file with one line after it, and its tip is the new record.
\<close>

theorem log_event_appends:
  assumes "log_event event env f = (Inr d, f')" and "wf_val event" and "length (file_bytes f) < 2 ^ 63"
  shows "\<exists>n h line. chain_tip f None = Inr (n, h) \<and> dget d ''seq'' = Some (PInt (int n)) \<and>
    dget d ''prev_hash'' = Some (PStr h) \<and> f' = Some (file_bytes f @ line @ [LF]) \<and> LF \<notin> set line \<and>
    chain_tip f' None = Inr (n + 1, str_item d ''record_hash'')"
proof -
  obtain ds ev where r: "is_chain f ds" "is_chain f' (ds @ [norm_dict d])"
    "dget d ''seq'' = Some (PInt (int (length ds)))" "dget d ''prev_hash'' = Some (PStr (tip_hash_of ds))"
    using assms by (rule log_event_returns_size)
  obtain line where l: "line_of (norm_dict d) = line @ [LF]" "LF \<notin> set line"
    using r(2) by (auto simp: is_chain_def elim: links_enc)
  have "f' \<noteq> None" using assms(1) by (auto elim!: log_event_parts simp: append_line_def)
  then have "f' = Some (file_bytes f @ line @ [LF])"
    using r(1,2) l(1) by (auto simp: is_chain_def file_bytes_def file_of_snoc)
  moreover have "tip_hash_of (ds @ [norm_dict d]) = str_item d ''record_hash''"
    using str_item_norm [OF log_event_distinct [OF assms(1,2)]] by (simp add: tip_hash_of_def)
  ultimately show ?thesis using r l(2)
    by (intro exI [of _ "length ds"] exI [of _ "tip_hash_of ds"] exI [of _ line]) (force simp: chain_tip_file)
qed

theorem log_event_appends_witness:
  "\<exists>d f'. log_event (PDict sample_event) sample_env None = (Inr d, f') \<and>
    (\<exists>n h line. chain_tip None None = Inr (n, h) \<and> dget d ''seq'' = Some (PInt (int n)) \<and>
    dget d ''prev_hash'' = Some (PStr h) \<and> f' = Some (file_bytes None @ line @ [LF]) \<and> LF \<notin> set line \<and>
    chain_tip f' None = Inr (n + 1, str_item d ''record_hash''))"
proof -
  obtain d where l: "log_event (PDict sample_event) sample_env None = (Inr d, Some (line_of (norm_dict d)))"
    by (rule sample_log)
  from log_event_appends [OF this sample_event_wf] l show ?thesis by (auto simp: file_bytes_def)
qed

text \<open>
  C4. The tip hash commits to the whole history. Two files the verifier accepts with the same tip hash
  hold the same records, signatures apart, in the same order; otherwise two of their records have
  different signed bytes with the same SHA-256 hash.
\<close>

theorem tip_commits_to_history:
  assumes "verify_chain True True verify (Some a) = Inr t" and "verify_chain True True verify' (Some b) = Inr u"
    and "tip_hash t = tip_hash u"
  shows "\<exists>ds es. a = file_of ds \<and> b = file_of es \<and>
    (map unsigned_of ds = map unsigned_of es \<or>
     (\<exists>d \<in> set ds. \<exists>e \<in> set es. unsigned_bytes d \<noteq> unsigned_bytes e \<and>
        sha256 (unsigned_bytes d) = sha256 (unsigned_bytes e)))"
proof -
  obtain ds where ds: "linked iter_init ds" "a = file_of ds" "t = verified_result ds"
    using assms(1) by (auto simp: verify_chain_iff)
  obtain es where es: "linked iter_init es" "b = file_of es" "u = verified_result es"
    using assms(2) by (auto simp: verify_chain_iff)
  have "map unsigned_of ds = map unsigned_of es \<or> forensic.collision ds es"
  proof (cases "ds = [] \<or> es = []")
    case True
    with assms(3) ds(3) es(3) show ?thesis by (auto simp: verified_result_def split: if_splits)
  next
    case False
    then have "forensic.tip ds = forensic.tip es"
      using assms(3) ds es linked_last_hash by (simp add: verified_result_def)
    with False show ?thesis
      using linked_chained [OF ds(1)] linked_chained [OF es(1)] forensic.tip_commits [of GENESIS_PREV_HASH ds es]
      by (simp add: iter_init_def)
  qed
  then show ?thesis using ds(2) es(2) by (auto simp: forensic.collision_def)
qed

text \<open>The same event, signed with two keys: two files with one tip.\<close>

definition other_env :: log_env where
  "other_env = sample_env\<lparr>le_sign := (\<lambda>m. Signature (replicate 64 7))\<rparr>"

definition other_verify :: "bytestr \<Rightarrow> bytestr \<Rightarrow> bool" where
  "other_verify sigb m \<longleftrightarrow> sigb = replicate 64 7"

lemma same_record_hash:
  assumes "log_event event env f = (Inr d, g)" and "log_event event env2 f = (Inr e, g2)"
  shows "str_item d ''record_hash'' = str_item e ''record_hash''"
proof -
  obtain ev n p line where d: "event = PDict ev" "event_ok ev" "log_tip f (record_format_version ev) = Inr (n, p)"
    "build_record ev n p (le_sign env) = Inr (d, line)" using assms(1) by (rule log_event_parts)
  with assms(2) obtain line2 where "build_record ev n p (le_sign env2) = Inr (e, line2)" by (auto elim: log_event_parts)
  with d(4) obtain h sig1 sig2 where "d = signed_record (unsigned_record ev n p) h sig1"
    "e = signed_record (unsigned_record ev n p) h sig2"
    by (auto elim!: build_record_parts)
  with d(2) show ?thesis by (simp add: str_item_def signed_record_parts)
qed

theorem tip_commits_to_history_witness:
  "\<exists>a b t. verify_chain True True sample_verify (Some a) = Inr t \<and> verify_chain True True other_verify (Some b) = Inr t \<and>
    records_verified t = 1 \<and>
    (\<exists>ds es. a = file_of ds \<and> b = file_of es \<and>
    (map unsigned_of ds = map unsigned_of es \<or>
     (\<exists>d \<in> set ds. \<exists>e \<in> set es. unsigned_bytes d \<noteq> unsigned_bytes e \<and>
        sha256 (unsigned_bytes d) = sha256 (unsigned_bytes e))))"
proof -
  have v: "verify_chain True True verify (Some (file_bytes None)) = Inr \<lparr>records_verified = 0, tip_hash = None\<rparr>" for verify
    by (simp add: verify_chain_def iter_validated_records_def file_bytes_def)
  have c: "chain_tip None (Some (record_format_version sample_event)) = Inr (0, GENESIS_PREV_HASH)"
    by (simp add: chain_tip_def iter_validated_records_def)
  note append = append_then_verify [OF validate_event_ok [OF sample_event_ok] sample_event_wf v c]
  obtain d a where a: "log_event (PDict sample_event) sample_env None = (Inr d, Some a)"
    "verify_chain True True sample_verify (Some a) = Inr \<lparr>records_verified = 1, tip_hash = Some (str_item d ''record_hash'')\<rparr>"
    using append [of sample_env sample_verify] by (auto simp: file_bytes_def sample_verify_def)
  obtain e b where b: "log_event (PDict sample_event) other_env None = (Inr e, Some b)"
    "verify_chain True True other_verify (Some b) = Inr \<lparr>records_verified = 1, tip_hash = Some (str_item e ''record_hash'')\<rparr>"
    using append [of other_env other_verify] by (auto simp: file_bytes_def other_verify_def other_env_def)
  have h: "str_item e ''record_hash'' = str_item d ''record_hash''" by (rule same_record_hash [OF b(1) a(1)])
  note b' = b(2) [unfolded h]
  have r: "records_verified \<lparr>records_verified = 1, tip_hash = Some (str_item d ''record_hash'')\<rparr> = 1" by simp
  from a(2) b' r tip_commits_to_history [OF a(2) b' refl] show ?thesis by blast
qed

section \<open>Failures of the writer\<close>

text \<open>
  C13. A refused append changes nothing: whatever exception leaves the writer, the file is the one it
  found, except when the operating system's write itself failed.
\<close>

theorem refused_append_keeps_file:
  assumes "log_event event env f = (Inl e, f')" and "e \<noteq> AppendFailed"
  shows "f' = f"
  using assms by (rule log_event_error_keeps_file)

theorem refused_append_keeps_file_witness:
  "log_event PNone sample_env (Some [LF]) = (Inl (EventRejected (RecordFormatError EventNotMapping)), Some [LF])
    \<and> Some [LF] = Some [LF]"
  using refused_append_keeps_file [of PNone sample_env "Some [LF]"
      "EventRejected (RecordFormatError EventNotMapping)" "Some [LF]"]
  by (simp add: log_event_def validate_event_def)

text \<open>
  C21. A failed write is one of three things: nothing reached the file, an unfinished line did and the
  next reader reports it as not terminated, or the whole line did and the file is a valid chain with the
  new record, although the caller got an exception.
\<close>

theorem failed_write_outcomes:
  assumes "log_event event env f = (Inl AppendFailed, f')" and "wf_val event"
    and "length (file_bytes f) < 2 ^ 63"
  shows "\<exists>n h. chain_tip f None = Inr (n, h) \<and>
    (file_bytes f' = file_bytes f
     \<or> chain_tip f' None = Inl (StoreError (n + 1) NotTerminated)
     \<or> (\<exists>h'. chain_tip f' None = Inr (n + 1, h')))"
proof -
  obtain ds d where ds: "is_chain f ds" "links (iter_end iter_init ds) d"
    "f' = f \<or> (\<exists>k. f' = Some (file_of ds @ take k (line_of d)))"
    using log_event_write_failed [OF assms(1,2)] chain_length assms(3) by metis
  have ch: "linked iter_init ds" "file_bytes f = file_of ds" using ds(1) by (simp_all add: is_chain_def)
  have "file_bytes f' = file_bytes f \<or> chain_tip f' None = Inl (StoreError (length ds + 1) NotTerminated)
      \<or> (\<exists>h'. chain_tip f' None = Inr (length ds + 1, h'))"
  proof (cases "f' = f")
    case False
    then obtain k where k: "f' = Some (file_of ds @ take k (line_of d))" using ds(3) by blast
    consider "k = 0" | "0 < k" "k < length (line_of d)" | "length (line_of d) \<le> k" by linarith
    then show ?thesis
    proof cases
      case 1
      then show ?thesis using k ch by (simp add: file_bytes_def)
    next
      case 2
      then have "chain_tip f' None = Inl (StoreError (length ds + 1) NotTerminated)"
        using torn_chain_tip_line [OF ch(1) ds(2)] k by simp
      then show ?thesis by blast
    next
      case 3
      then have "is_chain f' (ds @ [d])"
        using k ch(1) ds(2) by (simp add: is_chain_def file_bytes_def file_of_snoc)
      then show ?thesis by (force simp: chain_tip_file)
    qed
  qed simp
  moreover have "chain_tip f None = Inr (length ds, tip_hash_of ds)" using ds(1) by (auto simp: chain_tip_file)
  ultimately show ?thesis by auto
qed

theorem failed_write_outcomes_witness:
  "\<exists>f'. log_event (PDict sample_event) sample_env_torn None = (Inl AppendFailed, f') \<and>
    (\<exists>n h. chain_tip None None = Inr (n, h) \<and>
    (file_bytes f' = file_bytes None
     \<or> chain_tip f' None = Inl (StoreError (n + 1) NotTerminated)
     \<or> (\<exists>h'. chain_tip f' None = Inr (n + 1, h'))))"
proof -
  obtain f' where l: "log_event (PDict sample_event) sample_env_torn None = (Inl AppendFailed, f')"
    by (rule sample_torn)
  from failed_write_outcomes [OF this sample_event_wf] l show ?thesis by (auto simp: file_bytes_def)
qed

text \<open>
  C14. After an interrupted write nothing is ever appended: when the operating system took only a piece of the line, even one
  that lacks nothing but its LF, the reader reports the line after the old chain as not terminated, and every later call of the
  writer, with any event, key and operating system, raises and leaves the file unchanged.
\<close>

theorem interrupted_write_blocks_appends:
  assumes "log_event event env f = (Inl AppendFailed, f')" and "wf_val event"
    and "length (file_bytes f) < 2 ^ 63"
    and "file_bytes f' \<noteq> file_bytes f" and "last (file_bytes f') \<noteq> LF"
  shows "\<exists>n h. chain_tip f None = Inr (n, h) \<and> chain_tip f' None = Inl (StoreError (n + 1) NotTerminated) \<and>
    (\<forall>event2 env2. \<exists>e. log_event event2 env2 f' = (Inl e, f'))"
proof -
  obtain ds d where ds: "is_chain f ds" "links (iter_end iter_init ds) d"
    "f' = f \<or> (\<exists>k. f' = Some (file_of ds @ take k (line_of d)))"
    using log_event_write_failed [OF assms(1,2)] chain_length assms(3) by metis
  have ch: "linked iter_init ds" "file_bytes f = file_of ds" using ds(1) by (simp_all add: is_chain_def)
  obtain k where k: "f' = Some (file_of ds @ take k (line_of d))" using ds(3) assms(4) by blast
  have "0 < k" using assms(4) k ch(2) by (cases k) (simp_all add: file_bytes_def)
  moreover have "k < length (line_of d)"
    using assms(5) k by (cases "k < length (line_of d)") (simp_all add: file_bytes_def line_of_def)
  ultimately have k': "0 < k" "k < length (line_of d)" .
  have "\<exists>e. log_event event2 env2 f' = (Inl e, f')" for event2 env2
    by (rule log_event_refuses_torn [OF ch(1) ds(2) k' k])
  moreover have "chain_tip f' None = Inl (StoreError (length ds + 1) NotTerminated)"
    using torn_chain_tip_line [OF ch(1) ds(2) k'] k by simp
  moreover have "chain_tip f None = Inr (length ds, tip_hash_of ds)" using ds(1) by (auto simp: chain_tip_file)
  ultimately show ?thesis by blast
qed

theorem interrupted_write_blocks_appends_witness:
  "\<exists>f'. log_event (PDict sample_event) sample_env_torn None = (Inl AppendFailed, f') \<and>
    (\<exists>n h. chain_tip None None = Inr (n, h) \<and> chain_tip f' None = Inl (StoreError (n + 1) NotTerminated)) \<and>
    (\<exists>e. log_event (PDict sample_event) sample_env f' = (Inl e, f'))"
proof -
  obtain f' where l: "log_event (PDict sample_event) sample_env_torn None = (Inl AppendFailed, f')"
    "file_bytes f' \<noteq> []" "last (file_bytes f') \<noteq> LF"
    by (rule sample_torn)
  from interrupted_write_blocks_appends [OF l(1) sample_event_wf _ _ l(3)] l(1,2)
  show ?thesis by (auto simp: file_bytes_def)
qed

text \<open>
  A chain never mixes format versions: on a chain whose records have another format version than
  the event, the writer refuses with the number of the first line and leaves the file unchanged.
\<close>

theorem other_version_refused:
  assumes "validate_event event = Inr ev" and "chain_tip f (Some v) = Inr (n, h)" and "0 < n" and "v \<noteq> record_format_version ev" and "le_mkdir env" and "le_lock env"
  shows "log_event event env f = (Inl (RefusesInvalidChain 1 DifferentVersion), f)"
proof -
  obtain ds where ds: "is_chain f ds" "n = length ds" "\<forall>d \<in> set ds. record_format_version d = v"
    using assms(2) by (auto simp: chain_tip_file)
  then obtain d es where d: "ds = d # es" "record_format_version d = v" using assms(3) by (cases ds) auto
  have ch: "linked iter_init ds" "file_bytes f = file_of ds" using ds(1) by (simp_all add: is_chain_def)
  then obtain bs where f: "f = Some bs" "bs = file_of ds"
    using d(1) file_of_Nil [of ds] by (cases f) (auto simp: file_bytes_def)
  have "chain_tip f (Some (record_format_version ev)) = Inl (StoreError 1 DifferentVersion)"
    using split_lines_file [OF ch(1), of "[]"] ch(1) d assms(4)
    by (simp add: f chain_tip_def iter_validated_records_def tip_step_def check_line_linked)
  then show ?thesis
    using assms(1,5,6) by (simp add: log_event_def log_event_locked_def log_tip_def)
qed

theorem other_version_refused_witness:
  "\<exists>f. log_event (PDict sample_legacy) sample_env f = (Inl (RefusesInvalidChain 1 DifferentVersion), f)"
proof -
  obtain d where d: "log_event (PDict sample_event) sample_env None = (Inr d, Some (line_of (norm_dict d)))"
    "links iter_init (norm_dict d)" by (rule sample_log)
  have ch: "is_chain (Some (line_of (norm_dict d))) [norm_dict d]"
    using d(2) by (simp add: is_chain_def file_bytes_def file_of_def)
  have "distinct (map fst d)" using d(1) sample_event_wf by (rule log_event_distinct)
  moreover have "record_format_version d = 2"
    using d(1) by (auto elim!: log_event_parts build_record_parts simp: signed_record_parts(7) sample_versions)
  ultimately have v: "record_format_version (norm_dict d) = 2" by (simp add: record_format_version_norm)
  have t: "chain_tip (Some (line_of (norm_dict d))) (Some 2) = Inr (1, tip_hash_of [norm_dict d])"
    using ch v by (auto simp: chain_tip_file intro!: exI [of _ "[norm_dict d]"])
  show ?thesis
    using other_version_refused [OF validate_event_ok [OF sample_legacy_ok] t, of sample_env]
    by (auto simp: sample_versions)
qed

section \<open>The reader and the verifier\<close>

text \<open>
  C22. The reader accepts exactly the chains: reading a file to its end without an exception, with any
  loop body, is the same as the file being the concatenation of the canonical lines of linked records
  and the body returning on each of them in turn.
\<close>

theorem reader_accepts_exactly_chains:
  "iter_validated_records exn body (Some bs) s = Inr s' \<longleftrightarrow>
    (\<exists>ds. linked iter_init ds \<and> bs = file_of ds \<and> run_body body 1 ds s = Inr s')"
  by (rule iter_validated_iff)

text \<open>
  C8. The verifier accepts exactly the files of linked records whose signatures the public key checks
  over their unsigned bytes, and reports their number and the hash of the last one.
\<close>

theorem verifier_accepts_exactly:
  "verify_chain True True verify (Some bs) = Inr t \<longleftrightarrow>
    (\<exists>ds. linked iter_init ds \<and> bs = file_of ds \<and>
      (\<forall>d \<in> set ds. verify (fromhex (str_item d ''signature'')) (unsigned_bytes d)) \<and>
      t = \<lparr>records_verified = length ds, tip_hash = (if ds = [] then None else Some (tip_hash_of ds))\<rparr>)"
  by (auto simp: verify_chain_iff signature_ok_def verified_result_def)

theorem verifier_accepts_exactly_witness:
  "verify_chain True True sample_verify (Some []) = Inr \<lparr>records_verified = 0, tip_hash = None\<rparr>"
  unfolding verifier_accepts_exactly by (intro exI [of _ "[]"]) (simp add: file_of_def)

lemma cut_file:
  assumes "linked st ds"
  shows "(\<exists>n. take k (file_of ds) = file_of (take n ds)) \<or>
    (\<exists>n d j. n < length ds \<and> links (iter_end st (take n ds)) d \<and> 0 < j \<and> j < length (line_of d) \<and>
      take k (file_of ds) = file_of (take n ds) @ take j (line_of d))"
  using assms
proof (induction ds arbitrary: st k)
  case (Cons d ds)
  have fo: "file_of (d # es) = line_of d @ file_of es" for es by (simp add: file_of_def)
  consider "k = 0" | "0 < k" "k < length (line_of d)" | "length (line_of d) \<le> k" by linarith
  then show ?case
  proof cases
    case 1
    then show ?thesis by (intro disjI1 exI [of _ 0]) (simp add: file_of_def)
  next
    case 2
    with Cons.prems show ?thesis by (intro disjI2 exI [of _ 0] exI [of _ d] exI [of _ k]) (simp add: fo file_of_def)
  next
    case 3
    have "linked (iter_next st d) ds" using Cons.prems by simp
    from Cons.IH [OF this, of "k - length (line_of d)"] show ?thesis
    proof (elim disjE exE conjE)
      fix n assume "take (k - length (line_of d)) (file_of ds) = file_of (take n ds)"
      then show ?thesis by (intro disjI1 exI [of _ "Suc n"]) (use 3 in \<open>simp add: fo\<close>)
    next
      fix n e j
      assume "n < length ds" "links (iter_end (iter_next st d) (take n ds)) e" "0 < j"
        "j < length (line_of e)"
        "take (k - length (line_of d)) (file_of ds) = file_of (take n ds) @ take j (line_of e)"
      then show ?thesis by (intro disjI2 exI [of _ "Suc n"] exI [of _ e] exI [of _ j]) (use 3 in \<open>simp add: fo\<close>)
    qed
  qed
qed (simp add: file_of_def)

lemma last_file_of: "ds \<noteq> [] \<Longrightarrow> last (file_of ds) = LF"
  by (induction ds rule: rev_induct) (simp_all add: file_of_snoc, simp add: line_of_def)

text \<open>
  C18. Cutting a verified file: what is left is accepted exactly when it is empty or ends with LF, so
  when the cut is between two records. A chain alone does not show that its last records are missing;
  every other cut is detected.
\<close>

theorem cut_accepted_iff:
  assumes "verify_chain True True verify (Some bs) = Inr t"
  shows "(\<exists>u. verify_chain True True verify (Some (take k bs)) = Inr u) \<longleftrightarrow>
    take k bs = [] \<or> last (take k bs) = LF"
proof
  assume "\<exists>u. verify_chain True True verify (Some (take k bs)) = Inr u"
  then obtain es where "take k bs = file_of es" by (auto simp: verify_chain_iff)
  then show "take k bs = [] \<or> last (take k bs) = LF" using last_file_of by (cases "es = []") (auto simp: file_of_def)
next
  assume end_lf: "take k bs = [] \<or> last (take k bs) = LF"
  obtain ds where ds: "linked iter_init ds" "bs = file_of ds" "\<forall>d \<in> set ds. signature_ok verify d"
    using assms by (auto simp: verify_chain_iff)
  have no: False if "links st d" "0 < j" "j < length (line_of d)"
    "take k bs = file_of (take n ds) @ take j (line_of d)" for st d j n
  proof -
    have p: "strict_prefix (take j (line_of d)) (json_lines.frame (PDict d))" "take j (line_of d) \<noteq> []"
      using that by (auto simp: line_of_frame [symmetric] strict_prefix_def take_is_prefix)
    have "last (take k bs) = last (take j (line_of d))" "take k bs \<noteq> []" using that(4) p(2) by auto
    then have "LF \<in> set (take j (line_of d))" using end_lf p(2) by (metis last_in_set)
    with json_lines.torn_frame(1) [OF links_framed [OF that(1)] p] show False by blast
  qed
  then obtain n where n: "take k bs = file_of (take n ds)" using cut_file [OF ds(1), of k] ds(2) by blast
  have "linked iter_init (take n ds)"
    using ds(1) linked_append [of iter_init "take n ds" "drop n ds"] by simp
  moreover have "\<forall>d \<in> set (take n ds). signature_ok verify d" using ds(3) by (auto dest: in_set_takeD)
  ultimately show "\<exists>u. verify_chain True True verify (Some (take k bs)) = Inr u"
    unfolding verify_chain_iff n by blast
qed

theorem cut_accepted_iff_witness:
  "\<exists>bs t. verify_chain True True sample_verify (Some bs) = Inr t \<and> records_verified t = 1 \<and>
    ((\<exists>u. verify_chain True True sample_verify (Some (take 1 bs)) = Inr u) \<longleftrightarrow>
      take 1 bs = [] \<or> last (take 1 bs) = LF)"
proof -
  obtain d where d: "log_event (PDict sample_event) sample_env None = (Inr d, Some (line_of (norm_dict d)))"
    "links iter_init (norm_dict d)" by (rule sample_log)
  have "signature_ok sample_verify (norm_dict d)"
    by (rule log_event_signature [OF d(1) _ sample_event_wf]) (simp add: sample_verify_def)
  with d(2) have v: "verify_chain True True sample_verify (Some (line_of (norm_dict d))) =
      Inr (verified_result [norm_dict d])"
    unfolding verify_chain_iff by (intro exI [of _ "[norm_dict d]"]) (simp add: file_of_def)
  from cut_accepted_iff [OF v, of 1] v show ?thesis
    by (intro exI [of _ "line_of (norm_dict d)"] exI) (auto simp: verified_result_def)
qed

section \<open>The record format\<close>

lemma kstr_key_text: "is_kstr k \<Longrightarrow> KStr (key_text k) = k"
  by (cases k) simp_all

lemma norm_dict_unique:
  assumes "set d = set e" and "wf_val (PDict d)" and "wf_val (PDict e)" and "list_all is_kstr (dkeys d)"
  shows "norm_dict d = norm_dict e"
proof -
  let ?K = "\<lambda>kv :: pykey \<times> pyval. key_text (fst kv)"
  have inj: "inj_on ?K (set (norm_dict d))"
  proof (rule inj_onI)
    fix x y assume xy: "x \<in> set (norm_dict d)" "y \<in> set (norm_dict d)" "?K x = ?K y"
    then have "fst x \<in> set (dkeys d)" "fst y \<in> set (dkeys d)"
      by (metis dkeys_def dkeys_norm_dict image_eqI set_map)+
    then have "is_kstr (fst x)" "is_kstr (fst y)" using assms(4) by (auto simp: list_all_iff)
    then have "fst x = fst y" using xy(3) by (metis kstr_key_text)
    moreover have "distinct (map fst (norm_dict d))" using assms(2) by (simp add: wf_val_PDict)
    ultimately show "x = y" using xy(1,2) by (metis eq_key_imp_eq_value prod.collapse)
  qed
  have st: "set (norm_dict d) = set (norm_dict e)" using assms(1) by (simp add: set_norm_dict)
  have dist: "distinct (norm_dict d)" "distinct (norm_dict e)"
    using assms(2,3) distinct_norm_dict [of d] distinct_norm_dict [of e]
    by (auto simp: wf_val_PDict distinct_map)
  have "sorted (map ?K (norm_dict d))" "sorted (map ?K (norm_dict e))" by (simp_all add: norm_dict_def)
  moreover have "distinct (map ?K (norm_dict d))" "distinct (map ?K (norm_dict e))"
    using inj st dist by (simp_all add: distinct_map)
  ultimately have "map ?K (norm_dict d) = map ?K (norm_dict e)"
    using st by (intro sorted_distinct_set_unique) simp_all
  then show ?thesis using inj st inj_on_map_eq_map [of ?K "norm_dict d" "norm_dict e"] by simp
qed

lemma canonical_order_enc:
  assumes "set d = set e" and "wf_val (PDict d)" and "wf_val (PDict e)" and "list_all is_kstr (dkeys d)"
  shows "canonical_json_bytes d = Inr bs \<longleftrightarrow> canonical_json_bytes e = Inr bs"
  using norm_dict_unique [OF assms] canon_enc_norm [of "PDict d"] canon_enc_norm [of "PDict e"]
  by (simp add: norm_val_PDict del: norm_val.simps)

definition sample_ba :: pydict where
  "sample_ba = [(KStr (lit ''b''), PInt 2), (KStr (lit ''a''), PNone)]"

definition sample_ab :: pydict where
  "sample_ab = [(KStr (lit ''a''), PNone), (KStr (lit ''b''), PInt 2)]"

lemma sample_ab_facts:
  "set sample_ba = set sample_ab" "wf_val (PDict sample_ba)" "wf_val (PDict sample_ab)"
  "list_all is_kstr (dkeys sample_ba)" "\<exists>bs. canonical_json_bytes sample_ba = Inr bs"
proof -
  show wf: "wf_val (PDict sample_ba)" "wf_val (PDict sample_ab)"
    by (simp_all add: sample_ba_def sample_ab_def wf_val_PDict wf_str_def lit_def)
  have "json_ok (PDict sample_ba)" by (simp add: sample_ba_def lit_def is_surrogate_def)
  then show "\<exists>bs. canonical_json_bytes sample_ba = Inr bs" using json_ok_enc [OF _ wf(1)] by auto
qed (auto simp: sample_ba_def sample_ab_def dkeys_def)

text \<open>
  C23. The event validator accepts exactly the events of the format: a mapping whose fields are those of
  one kind of event and whose values satisfy the rule of their field; it returns a copy of the event.
\<close>

theorem validate_event_accepts_exactly: "validate_event v = Inr d \<longleftrightarrow> v = PDict d \<and> event_ok d"
  by (rule validate_event_iff)

text \<open>
  The record validator accepts exactly the complete records: text keys, the four managed fields with
  a number below \<open>2 ^ 63\<close>, two hashes and a signature of 128 hexadecimal digits, and a valid event in the rest.
\<close>

theorem validate_record_accepts_exactly:
  "validate_stored_record v = Inr d \<longleftrightarrow> v = PDict d \<and> record_ok d"
  by (rule validate_stored_record_iff)

text \<open>
  C20. Reading canonical bytes gives the value back: what \<^verbatim>\<open>canonical_json_bytes\<close> writes, \<^verbatim>\<open>json.loads\<close> reads as
  the same dictionary with its keys sorted, at every depth, and writing that gives the same bytes.
\<close>

theorem canonical_roundtrip:
  assumes "canonical_json_bytes d = Inr bs" and "wf_val (PDict d)"
  shows "loads_bytes bs = Inr (PDict (norm_dict d)) \<and> canonical_json_bytes (norm_dict d) = Inr bs"
  using assms loads_canon [of "PDict d" bs] canon_enc_norm [of "PDict d"]
  by (simp add: norm_val_PDict del: norm_val.simps)

theorem canonical_roundtrip_witness:
  "\<exists>bs. canonical_json_bytes sample_legacy = Inr bs \<and> loads_bytes bs = Inr (PDict (norm_dict sample_legacy))"
proof -
  have "json_ok (PDict sample_legacy)"
    using event_ok_json_ok [OF sample_legacy_ok] sample_legacy_wf by (simp add: wf_val_PDict)
  then obtain bs where "canonical_json_bytes sample_legacy = Inr bs"
    using json_ok_enc [OF _ sample_legacy_wf] by auto
  with canonical_roundtrip [OF this sample_legacy_wf] show ?thesis by blast
qed

text \<open>
  The canonical bytes determine the value: two dictionaries with the same canonical bytes are the same
  mapping, so two different records never have the same bytes to hash and sign.
\<close>

theorem canonical_injective:
  assumes "canonical_json_bytes d = Inr bs" and "canonical_json_bytes e = Inr bs"
    and "wf_val (PDict d)" and "wf_val (PDict e)"
  shows "norm_dict d = norm_dict e"
  using assms canon_enc_inject [of "PDict d" bs "PDict e"] by (simp add: norm_val_PDict del: norm_val.simps)

theorem canonical_injective_witness: "sample_ba \<noteq> sample_ab \<and> norm_dict sample_ba = norm_dict sample_ab"
proof -
  obtain bs where "canonical_json_bytes sample_ba = Inr bs" using sample_ab_facts(5) by blast
  moreover from this have "canonical_json_bytes sample_ab = Inr bs"
    using canonical_order_enc [OF sample_ab_facts(1-4)] by blast
  ultimately show ?thesis
    using canonical_injective [OF _ _ sample_ab_facts(2,3)] by (simp add: sample_ba_def sample_ab_def)
qed

text \<open>
  The canonical bytes do not depend on the order in which the keys were inserted.
\<close>

theorem canonical_order_independent:
  assumes "set d = set e" and "wf_val (PDict d)" and "wf_val (PDict e)" and "list_all is_kstr (dkeys d)"
    and "canonical_json_bytes d = Inr bs"
  shows "canonical_json_bytes e = Inr bs"
  using canonical_order_enc [OF assms(1-4)] assms(5) by blast

theorem canonical_order_independent_witness:
  "\<exists>bs. canonical_json_bytes sample_ba = Inr bs \<and> canonical_json_bytes sample_ab = Inr bs"
proof -
  obtain bs where "canonical_json_bytes sample_ba = Inr bs" using sample_ab_facts(5) by blast
  with canonical_order_independent [OF sample_ab_facts(1-4) this] show ?thesis by blast
qed

text \<open>
  A validated record can always be written and hashed: \<^verbatim>\<open>canonical_json_bytes\<close> and \<^verbatim>\<open>hash_unsigned_record\<close>
  raise nothing on it.
\<close>

theorem validated_record_encodes:
  assumes "validate_stored_record v = Inr d" and "wf_val v"
  shows "\<exists>bs us. canonical_json_bytes d = Inr bs \<and> hash_unsigned_record d = Inr (us, sha256_hex us)"
proof -
  have d: "record_ok d" "wf_val (PDict d)" using assms by (auto simp: validate_stored_record_iff)
  then obtain bs where "canonical_json_bytes d = Inr bs" using record_ok_enc by fastforce
  then show ?thesis using record_unsigned_enc(2) [OF d] by blast
qed

theorem validated_record_encodes_witness:
  "\<exists>d bs us. validate_stored_record (PDict d) = Inr d \<and> canonical_json_bytes d = Inr bs \<and>
    hash_unsigned_record d = Inr (us, sha256_hex us)"
proof -
  obtain d where "links iter_init (norm_dict d)" by (rule sample_log)
  then have v: "validate_stored_record (PDict (norm_dict d)) = Inr (norm_dict d)" "wf_val (PDict (norm_dict d))"
    by (auto simp: links_def validate_stored_record_ok canonical_dict_def)
  from validated_record_encodes [OF v] v(1) show ?thesis by blast
qed

text \<open>
  The exceptions of the event validator: every rejection is a \<^verbatim>\<open>RecordFormatError\<close>, except that an integer
  confidence too large for a float leaves it as an \<^verbatim>\<open>OverflowError\<close>.
\<close>

theorem validate_event_exceptions:
  assumes "validate_event v = Inl e"
  shows "(\<exists>r. e = RecordFormatError r) \<or>
    e = OverflowError \<and> (\<exists>d n. v = PDict d \<and> dget d ''confidence'' = Some (PInt n) \<and> f64_of_int n = None)"
proof -
  have "\<exists>n. dget d ''confidence'' = Some (PInt n) \<and> f64_of_int n = None" if "huge_confidence d" for d
    using that by (auto simp: huge_confidence_def split: option.splits pyval.splits)
  with validate_event_errors [OF assms] show ?thesis
    by (auto simp: is_format_error_def split: format_error.splits)
qed

text \<open>The overflow happens: a confidence of \<open>2 ^ 1024\<close> in an otherwise valid event.\<close>

definition sample_huge :: pydict where
  "sample_huge =
     map (\<lambda>(k, v). (k, if k = KStr (lit ''confidence'') then PInt (2 ^ 1024) else v)) sample_legacy"

lemma f64_of_int_huge: "f64_of_int (2 ^ 1024) = None"
proof -
  have "floorlog 2 (2 ^ 1024 * f64_unit) = 2099"
    using floorlog_power [of 1 2 2098]
    by (simp add: f64_unit_def floorlog_def power_add [symmetric] del: power_numeral)
  moreover have "round_half_even (2 ^ 1024 * f64_unit) (2 ^ 2046) = 4503599627370496"
    by (simp add: round_half_even_def f64_unit_def)
  ultimately have "inf_mag \<le> dec_mag (2 ^ 1024) 0"
    by (simp add: dec_mag_def round_units_def inf_mag_def del: power_numeral)
  then show ?thesis by (simp add: f64_of_int_def nat_power_eq)
qed

theorem validate_event_exceptions_witness:
  "validate_event (PDict sample_huge) = Inl OverflowError \<and>
   (\<exists>d n. PDict sample_huge = PDict d \<and> dget d ''confidence'' = Some (PInt n) \<and> f64_of_int n = None)"
proof -
  have keys: "dkeys sample_huge = map (\<lambda>f. KStr (lit f)) V1_EVENT_FIELDS"
    by (simp add: sample_huge_def sample_legacy_def dkeys_def V1_EVENT_FIELDS_def)
  then have fields: "list_all is_kstr (dkeys sample_huge)" "missing_fields V1_EVENT_FIELDS sample_huge = []"
    "unknown_fields V1_EVENT_FIELDS sample_huge = []"
    by (simp_all add: list_all_iff unknown_fields_Nil named_keys_def image_image)
  have str: "require_nonempty_string (PStr (lit t)) f = Inr ()" if "t \<noteq> []" for t f
    using that scalar_lit [of t] by (auto simp: scalar_str_def list_all_iff list_ex_iff)
  have hash: "require_hash (PStr (replicate 64 c)) f = Inr ()" if "is_hex c" for c f
    using that by (simp add: is_hash_text_def list_all_iff)
  have time: "require_timestamp (PStr (lit ''2026-01-31T23:59:59.250000Z'')) = Inr ()"
    using sample_time by simp
  have "validate_event_values sample_huge = Inl OverflowError"
    by (simp add: str hash is_hex_def time validate_event_values_def validate_classification_values_def check_item_def ditem_def
        event_fields_def record_format_version_def dget_def sample_huge_def sample_legacy_def
        require_confidence_def f64_of_int_huge del: power_numeral)
  moreover have "event_fields sample_huge = Inr V1_EVENT_FIELDS"
    by (simp add: event_fields_def dget_def sample_huge_def sample_legacy_def)
  ultimately have "validate_event (PDict sample_huge) = Inl OverflowError"
    using fields by (simp add: validate_event_def)
  with validate_event_exceptions [OF this] show ?thesis by auto
qed

lemma check_links_exceptions:
  assumes "loads_bytes b = Inr (PDict d)" and "record_ok d" and "check_links st n b d = Inl e"
  shows "\<exists>m r. e = StoreError m r"
proof -
  have wf: "wf_val (PDict d)" using loads_bytes_wf [OF assms(1)] by (simp add: wf_json_def)
  obtain bs where "canonical_json_bytes d = Inr bs" using record_ok_enc [OF assms(2) wf] by auto
  with record_unsigned_enc(2) [OF assms(2) wf] assms(3) show ?thesis
    by (auto simp: check_links_def res_simps simp del: canonical_json_bytes_iff)
qed

definition reader_exn_known :: "store_exn \<Rightarrow> bool" where
  "reader_exn_known e \<longleftrightarrow> (\<exists>n r. e = StoreError n r) \<or> e = StoreValueError \<or> e = StoreRaises OverflowError"

lemma parse_record_exceptions:
  assumes p: "parse_record n b = Inl e"
  shows "reader_exn_known e"
proof (cases "loads_bytes b")
  case (Inl j)
  with p show ?thesis by (cases j) (auto simp: parse_record_def reader_exn_known_def)
next
  case (Inr v)
  with p show ?thesis using validate_stored_record_errors [of v]
    by (cases "validate_stored_record v")
      (auto simp: parse_record_def is_format_error_def reader_exn_known_def split: format_error.splits)
qed

lemma check_line_exceptions: "check_line st n l = Inl e \<Longrightarrow> reader_exn_known e"
  using parse_record_exceptions check_links_exceptions
  by (fastforce simp: check_line_def res_simps parse_record_iff reader_exn_known_def)

lemma iter_lines_exceptions:
  assumes "\<And>s n d msg e. body s n d msg = Inl e \<Longrightarrow> P e"
    and "\<And>st n l e. check_line st n l = Inl e \<Longrightarrow> P (exn e)"
  shows "iter_lines exn body st n ls s = Inl e \<Longrightarrow> P e"
  using assms by (induction exn body st n ls s rule: iter_lines.induct) (auto simp: res_simps split: sum.splits)

text \<open>
  The exceptions of the reader: besides \<^verbatim>\<open>StoreError\<close> only two others leave it, the plain \<^verbatim>\<open>ValueError\<close> of an
  integer literal with more than 4300 digits and the \<^verbatim>\<open>OverflowError\<close> of a huge confidence. The
  callers turn only \<^verbatim>\<open>StoreError\<close> into their own exceptions.
\<close>

theorem reader_exceptions:
  assumes "chain_tip f req = Inl e"
  shows "(\<exists>n r. e = StoreError n r) \<or> e = StoreValueError \<or> e = StoreRaises OverflowError"
proof (cases f)
  case (Some bs)
  have step: "reader_exn_known x" if "tip_step req s n d msg = Inl x" for s n d msg x
    using that by (auto simp: tip_step_def res_simps reader_exn_known_def split: option.splits)
  have "iter_lines (\<lambda>e. e) (tip_step req) iter_init 1 (split_lines bs) (0, GENESIS_PREV_HASH) = Inl e"
    using assms Some by (simp add: chain_tip_def iter_validated_records_def)
  then have "reader_exn_known e"
    by (rule iter_lines_exceptions [of "tip_step req" reader_exn_known "\<lambda>e. e", rotated 2])
      (auto intro: step check_line_exceptions)
  then show ?thesis by (simp add: reader_exn_known_def)
qed (use assms in \<open>simp add: chain_tip_def iter_validated_records_def\<close>)

text \<open>A line of more than 4300 digits.\<close>

lemma loads_long_integer:
  assumes "4300 < n"
  shows "loads_bytes (replicate n (byte_of 49)) = Inl IntDigitsError"
proof -
  have n: "n = Suc (Suc (Suc (Suc (n - 4))))" using assms by simp
  have "detect_encoding (replicate n (byte_of 49)) = Utf8"
    by (subst n) (simp add: detect_encoding_def starts_with_def map_replicate)
  moreover have "decode_utf8 True (replicate m (byte_of 49)) = Some (replicate m 49)" for m
    by (induction m) simp_all
  ultimately have d: "decode_json (replicate n (byte_of 49)) = Some (replicate n 49)"
    by (simp add: decode_json_def)
  have w: "skip_ws (replicate n 49) = replicate n 49" by (subst n, subst (2) n) (simp add: skip_ws_def is_ws_def)
  have c: "scan_constant (replicate n 49) = None"
    by (subst n) (simp add: scan_constant_def strip_prefix_def lit_def)
  have t: "takeWhile is_digit (replicate m 49) = replicate m 49" "dropWhile is_digit (replicate m 49) = []" for m
    by (induction m) (simp_all add: is_digit_def)
  obtain r where r: "replicate n (49 :: nat) = 49 # r" using n by (metis replicate_Suc)
  have "match_int (replicate n 49) = Some (replicate n 49, [])"
    using t [of n] by (simp add: match_int_def r is_digit_def)
  then have "scan_number (replicate n 49) = Inl IntDigitsError"
    using assms by (simp add: scan_number_def match_frac_def match_exp_def max_str_digits_def)
  then have "scan_once (replicate n 49) = Inl IntDigitsError"
    using c by (simp add: scan_once.simps r)
  with d w show ?thesis by (simp add: loads_bytes_def)
qed

theorem reader_exceptions_witness:
  "chain_tip (Some (replicate 4301 (byte_of 49) @ [LF])) None = Inl StoreValueError \<and>
   ((\<exists>n r. StoreValueError = StoreError n r) \<or> StoreValueError = StoreValueError
     \<or> StoreValueError = StoreRaises OverflowError)"
proof -
  have ne: "LF \<noteq> byte_of 49" by (simp add: LF_def byte_of_eq_iff)
  have "check_line st 1 (replicate 4301 (byte_of 49) @ [LF]) = Inl StoreValueError" for st
    using loads_long_integer [of 4301] by (simp add: check_line_def parse_record_def)
  moreover have "split_lines (replicate 4301 (byte_of 49) @ [LF]) = [replicate 4301 (byte_of 49) @ [LF]]"
    using split_lines_frame [of "replicate 4301 (byte_of 49)" "[]"] ne by simp
  ultimately have "chain_tip (Some (replicate 4301 (byte_of 49) @ [LF])) None = Inl StoreValueError"
    by (simp add: chain_tip_def iter_validated_records_def)
  with reader_exceptions [OF this] show ?thesis by blast
qed

section \<open>Several writers\<close>

lemma tip_chain: "chain_tip f None = Inr (n, h) \<longleftrightarrow> (\<exists>ds. is_chain f ds \<and> n = length ds \<and> h = tip_hash_of ds)"
  by (simp add: chain_tip_file)

lemma sys_chain_tip:
  assumes "sys_chain s ds tail"
  shows "chain_tip (sys_file s) None =
    (if tail = [] then Inr (length ds, tip_hash_of ds) else Inl (StoreError (length ds + 1) NotTerminated))"
proof (cases "tail = []")
  case True
  with assms have "is_chain (sys_file s) ds" by (simp add: sys_chain_def is_chain_def)
  with True show ?thesis by (auto simp: tip_chain)
next
  case False
  with assms obtain d k where t: "links (iter_end iter_init ds) d" "0 < k" "k < length (line_of d)"
    "tail = take k (line_of d)" "linked iter_init ds" "file_bytes (sys_file s) = file_of ds @ tail"
    by (auto simp: sys_chain_def torn_def)
  then have "sys_file s = Some (file_of ds @ take k (line_of d))"
    using False by (auto simp: file_bytes_def split: option.splits)
  with False torn_chain_tip_line [OF t(5,1-3)] show ?thesis by simp
qed

lemma reachable_steps: "(step sign)\<^sup>*\<^sup>* s s' \<Longrightarrow> reachable sign f0 s \<Longrightarrow> reachable sign f0 s'"
  by (induction rule: rtranclp_induct) (auto intro: reachable.Step)

text \<open>Two calls, one after the other.\<close>

lemma sample_run:
  obtains s d e where "reachable (le_sign sample_env) None s" "sys_phase s 0 = Returned d"
    "sys_phase s 1 = Returned e"
proof -
  obtain d where d: "log_event (PDict sample_event) sample_env None = (Inr d, Some (file_of ([] @ [norm_dict d])))"
    "is_chain (Some (file_of ([] @ [norm_dict d]))) ([] @ [norm_dict d])"
    "chain_version_ok ([] @ [norm_dict d]) sample_event" "length (line_of (norm_dict d)) \<le> 2 ^ 20"
    by (rule sample_append [OF empty_chain(1)]) (simp_all add: chain_version_ok_def)
  obtain e where e: "log_event (PDict sample_event) sample_env (Some (file_of ([] @ [norm_dict d]))) =
      (Inr e, Some (file_of (([] @ [norm_dict d]) @ [norm_dict e])))" "length (line_of (norm_dict e)) \<le> 2 ^ 20"
    by (rule sample_append [OF d(2) _ d(3)]) simp_all
  have size: "length (file_bytes (Some (file_of ([] @ [norm_dict d])))) < 2 ^ 63"
    "length (file_bytes (Some (file_of (([] @ [norm_dict d]) @ [norm_dict e])))) < 2 ^ 63"
    using d(4) e(2) by (simp_all add: file_bytes_def file_of_def)
  obtain s1 where s1: "(step (le_sign sample_env))\<^sup>*\<^sup>* (init_system None) s1" "sys_phase s1 0 = Returned d"
    "sys_file s1 = Some (file_of ([] @ [norm_dict d]))" "sys_lock s1 = None" "sys_phase s1 1 = Idle"
    using steps_of_log_event [OF d(1) sample_event_wf _ _ _ size(1), of "init_system None" 0]
    by (auto simp: init_system_def)
  obtain s2 where s2: "(step (le_sign sample_env))\<^sup>*\<^sup>* s1 s2" "sys_phase s2 1 = Returned e" "sys_phase s2 0 = Returned d"
    using steps_of_log_event [OF e(1) sample_event_wf s1(5,4,3) size(2)] s1(2) by auto
  have "reachable (le_sign sample_env) None s2"
    using s1(1) s2(1) reachable.Start by (blast intro: reachable_steps)
  with s2 show thesis by (intro that)
qed

lemma empty_tip: "chain_tip None None = Inr (0, GENESIS_PREV_HASH)"
  by (simp add: chain_tip_def iter_validated_records_def)

text \<open>
  C5. The lock keeps the file a chain: from a valid chain, after any interleaving of writers, failed
  writes and deaths of processes, the file is always at least the chain it was, followed by complete new
  records and at most one unfinished line, which the reader reports at its number.
\<close>

theorem interleaved_writers_keep_chain:
  assumes "reachable sign f0 s" and "chain_tip f0 None = Inr (n0, h0)" and "length (file_bytes f0) < 2 ^ 63"
  shows "\<exists>n \<ge> n0. (\<exists>h. chain_tip (sys_file s) None = Inr (n, h)) \<or>
    chain_tip (sys_file s) None = Inl (StoreError (n + 1) NotTerminated)"
proof -
  obtain ds0 where "is_chain f0 ds0" "n0 = length ds0" using assms(2) by (auto simp: tip_chain)
  then obtain ds tail where d: "sys_inv s ds tail" "prefix ds0 ds" "n0 = length ds0"
    using reachable_inv [OF assms(1) _ assms(3)] by blast
  then have "n0 \<le> length ds" by (auto dest: prefix_length_le)
  moreover have "sys_chain s ds tail" using d(1) by (simp add: sys_inv_def)
  ultimately show ?thesis using sys_chain_tip by (intro exI [of _ "length ds"]) auto
qed

definition sample_system :: system where
  "sample_system = (init_system None)\<lparr>sys_phase := (sys_phase (init_system None))(0 := Waiting sample_event)\<rparr>"

lemma sample_reachable: "reachable (le_sign sample_env) None sample_system"
proof -
  have "step (le_sign sample_env) (init_system None) (set_phase 0 (Waiting sample_event) (init_system None))"
    by (rule step.Call [OF _ validate_event_ok [OF sample_event_ok] sample_event_wf]) (simp add: init_system_def)
  then have "step (le_sign sample_env) (init_system None) sample_system"
    by (simp add: sample_system_def set_phase_def)
  then show ?thesis using reachable.Start reachable.Step by metis
qed

theorem interleaved_writers_keep_chain_witness:
  "\<exists>n \<ge> 0. (\<exists>h. chain_tip (sys_file sample_system) None = Inr (n, h)) \<or>
    chain_tip (sys_file sample_system) None = Inl (StoreError (n + 1) NotTerminated)"
proof -
  have "chain_tip None None = Inr (0, GENESIS_PREV_HASH)" by (simp add: chain_tip_def iter_validated_records_def)
  from interleaved_writers_keep_chain [OF sample_reachable this] show ?thesis by (simp add: file_bytes_def)
qed

text \<open>
  C19. No two calls get the same number: records returned to two different callers, in any interleaving,
  have different sequence numbers.
\<close>

theorem interleaved_writers_distinct_seq:
  assumes "reachable sign f0 s" and "chain_tip f0 None = Inr (n0, h0)" and "length (file_bytes f0) < 2 ^ 63"
    and "p \<noteq> q" and "sys_phase s p = Returned d" and "sys_phase s q = Returned e"
  shows "dget (norm_dict d) ''seq'' \<noteq> dget (norm_dict e) ''seq''"
proof -
  obtain ds0 where "is_chain f0 ds0" using assms(2) by (auto simp: tip_chain)
  then obtain ds tail where "sys_inv s ds tail" using reachable_inv [OF assms(1) _ assms(3)] by blast
  then have "record_seq (norm_dict d) \<noteq> record_seq (norm_dict e)"
    unfolding sys_inv_def using assms(4-6) by (metis completed.simps(2))
  then show ?thesis by (auto simp: record_seq_def int_item_def)
qed

theorem interleaved_writers_distinct_seq_witness:
  "\<exists>s d e. reachable (le_sign sample_env) None s \<and> sys_phase s 0 = Returned d \<and> sys_phase s 1 = Returned e \<and>
    dget (norm_dict d) ''seq'' \<noteq> dget (norm_dict e) ''seq''"
proof -
  obtain s d e where s: "reachable (le_sign sample_env) None s" "sys_phase s 0 = Returned d"
    "sys_phase s 1 = Returned e" by (rule sample_run)
  from interleaved_writers_distinct_seq [OF s(1) empty_tip _ _ s(2,3)] s show ?thesis
    by (auto simp: file_bytes_def)
qed

text \<open>
  A returned record is durable in the chain: in every state after the return, whatever other
  processes do, its line is a line of the file.
\<close>

theorem returned_record_stays:
  assumes "reachable sign f0 s" and "chain_tip f0 None = Inr (n0, h0)" and "length (file_bytes f0) < 2 ^ 63"
    and "sys_phase s p = Returned d"
  shows "line_of (norm_dict d) \<in> set (split_lines (file_bytes (sys_file s)))"
proof -
  obtain ds0 where "is_chain f0 ds0" using assms(2) by (auto simp: tip_chain)
  then obtain ds tail where inv: "sys_inv s ds tail" using reachable_inv [OF assms(1) _ assms(3)] by blast
  have "norm_dict d \<in> set ds" using sys_inv_phase [OF inv assms(4)] by simp
  moreover have "linked iter_init ds" "file_bytes (sys_file s) = file_of ds @ tail"
    using inv by (simp_all add: sys_inv_def sys_chain_def)
  ultimately show ?thesis by (simp add: split_lines_file)
qed

theorem returned_record_stays_witness:
  "\<exists>s d. reachable (le_sign sample_env) None s \<and> sys_phase s 0 = Returned d \<and>
    line_of (norm_dict d) \<in> set (split_lines (file_bytes (sys_file s)))"
proof -
  obtain s d e where s: "reachable (le_sign sample_env) None s" "sys_phase s 0 = Returned d" by (rule sample_run)
  from returned_record_stays [OF s(1) empty_tip _ s(2)] s show ?thesis by (auto simp: file_bytes_def)
qed

text \<open>
  The step relation is the function, cut in pieces: a call of \<open>log_event\<close> that returns is a run of
  an undisturbed process from its call to its return, with the same record and the same file.
\<close>

theorem log_event_is_a_run:
  assumes "log_event event env f = (Inr d, f')" and "wf_val event"
    and "sys_phase s p = Idle" and "sys_lock s = None" and "sys_file s = f"
    and "length (file_bytes f') < 2 ^ 63"
  shows "\<exists>s'. (step (le_sign env))\<^sup>*\<^sup>* s s' \<and> sys_phase s' p = Returned d \<and> sys_file s' = f' \<and>
    sys_lock s' = None \<and> (\<forall>q. q \<noteq> p \<longrightarrow> sys_phase s' q = sys_phase s q)"
  using assms by (rule steps_of_log_event)

theorem log_event_is_a_run_witness:
  "\<exists>s' d. (step (le_sign sample_env))\<^sup>*\<^sup>* (init_system None) s' \<and> sys_phase s' 0 = Returned d \<and> sys_lock s' = None"
proof -
  obtain d where d: "log_event (PDict sample_event) sample_env None = (Inr d, Some (file_of ([] @ [norm_dict d])))"
    "length (line_of (norm_dict d)) \<le> 2 ^ 20"
    by (rule sample_append [OF empty_chain(1)]) (simp_all add: chain_version_ok_def)
  then have "length (file_bytes (Some (file_of ([] @ [norm_dict d])))) < 2 ^ 63"
    by (simp add: file_bytes_def file_of_def)
  from log_event_is_a_run [OF d(1) sample_event_wf _ _ _ this, of "init_system None" 0] show ?thesis
    by (auto simp: init_system_def)
qed

end
