(* ===== verification/Collector_Models.thy ===== *)
theory Collector_Models
  imports Record_Format Chain_Logger
begin

text \<open>
  The ingest schema of \<^verbatim>\<open>src/collector/vestrix_collector/models.py\<close> and the adapter of
  \<^verbatim>\<open>src/collector/vestrix_collector/forensics.py\<close>, which turns an ingest payload into a forensic event. The
  lemmas relate the two formats: an accepted payload is an event the forensic validator accepts exactly
  when its sequence number is below \<open>2 ^ 63\<close>.
\<close>

section \<open>Payloads\<close>

definition PAYLOAD_FIELDS :: "string list" where
  "PAYLOAD_FIELDS =
     [''schema_version'', ''node_id'', ''timestamp_utc'', ''csi_window_sha256'', ''sequence_number'']"

definition MAX_SEQUENCE_NUMBER :: int where
  "MAX_SEQUENCE_NUMBER = 2 ^ 64 - 1"

text \<open>\<^verbatim>\<open>[A-Za-z0-9]\<close>, and a full match of \<^verbatim>\<open>[A-Za-z0-9][A-Za-z0-9._-]{0,127}\<close>.\<close>

definition is_alnum :: "nat \<Rightarrow> bool" where
  "is_alnum c \<longleftrightarrow> (48 \<le> c \<and> c \<le> 57) \<or> (65 \<le> c \<and> c \<le> 90) \<or> (97 \<le> c \<and> c \<le> 122)"

definition is_node_char :: "nat \<Rightarrow> bool" where
  "is_node_char c \<longleftrightarrow> is_alnum c \<or> c = 46 \<or> c = 95 \<or> c = 45"

definition is_node_id :: "pystr \<Rightarrow> bool" where
  "is_node_id s \<longleftrightarrow>
     s \<noteq> [] \<and> is_alnum (hd s) \<and> list_all is_node_char (tl s) \<and> length (tl s) \<le> 127"

datatype payload_error =
    PayloadNotObject
  | MissingFields "pystr list"
  | UnknownFields "pystr list"
  | UnsupportedSchemaVersion
  | InvalidNodeId
  | InvalidTimestamp
  | InvalidDigest
  | InvalidSequenceNumber

definition payload_time_ok :: "pyval \<Rightarrow> bool" where
  "payload_time_ok v =
     (case v of PStr s \<Rightarrow> utc_shape (Some 9) s \<and> fromisoformat_utc s \<noteq> None | _ \<Rightarrow> False)"

definition payload_sequence_ok :: "pyval \<Rightarrow> bool" where
  "payload_sequence_ok v =
     (case v of PInt n \<Rightarrow> 0 \<le> n \<and> n \<le> MAX_SEQUENCE_NUMBER | _ \<Rightarrow> False)"

definition payload_node_ok :: "pyval \<Rightarrow> bool" where
  "payload_node_ok v = (case v of PStr s \<Rightarrow> is_node_id s | _ \<Rightarrow> False)"

definition validate_payload :: "pyval \<Rightarrow> payload_error + pydict" where
  "validate_payload value =
     (case value of
        PDict d \<Rightarrow>
          rbind (raise_if (\<not> list_all is_kstr (dkeys d)) PayloadNotObject) (\<lambda>_.
          rbind (raise_if (missing_fields PAYLOAD_FIELDS d \<noteq> [])
                   (MissingFields (missing_fields PAYLOAD_FIELDS d))) (\<lambda>_.
          rbind (raise_if (unknown_fields PAYLOAD_FIELDS d \<noteq> [])
                   (UnknownFields (unknown_fields PAYLOAD_FIELDS d))) (\<lambda>_.
          rbind (raise_if (dget d ''schema_version'' \<noteq> Some (PStr (lit ''0.1'')))
                   UnsupportedSchemaVersion) (\<lambda>_.
          rbind (raise_if (\<not> item_ok d ''node_id'' payload_node_ok) InvalidNodeId) (\<lambda>_.
          rbind (raise_if (\<not> item_ok d ''timestamp_utc'' payload_time_ok) InvalidTimestamp) (\<lambda>_.
          rbind (raise_if (\<not> item_ok d ''csi_window_sha256'' hash_ok) InvalidDigest) (\<lambda>_.
          rbind (raise_if (\<not> item_ok d ''sequence_number'' payload_sequence_ok)
                   InvalidSequenceNumber) (\<lambda>_.
            Inr d))))))))
      | _ \<Rightarrow> Inl PayloadNotObject)"

section \<open>The forensic event of a payload\<close>

definition ditem_or_none :: "pydict \<Rightarrow> string \<Rightarrow> pyval" where
  "ditem_or_none d k = (case dget d k of None \<Rightarrow> PNone | Some v \<Rightarrow> v)"

definition forensic_event :: "pydict \<Rightarrow> pydict" where
  "forensic_event event =
     [(KStr (lit ''format_version''), PInt 2),
      (KStr (lit ''event_type''), PStr (lit ''ingestion_accepted'')),
      (KStr (lit ''ts_utc''), ditem_or_none event ''timestamp_utc''),
      (KStr (lit ''node_id''), ditem_or_none event ''node_id''),
      (KStr (lit ''raw_csi_hash''), ditem_or_none event ''csi_window_sha256''),
      (KStr (lit ''collector_schema_version''), ditem_or_none event ''schema_version''),
      (KStr (lit ''collector_sequence_number''), ditem_or_none event ''sequence_number'')]"

text \<open>
  The adapter: \<open>key_path\<close> says whether \<^verbatim>\<open>VESTRIX_FORENSICS_PRIVATE_KEY\<close> is set, \<open>load_key\<close> whether
  \<^verbatim>\<open>load_private_key\<close> returned; the environment holds the signer it returned.
\<close>

datatype handoff_exn = KeyPathMissing | KeyLoadRaises string | HandoffRaises log_exn

record handoff_env =
  ho_key_path :: bool
  ho_load_key :: "string option"
  ho_log :: log_env

definition collector_log_event ::
    "handoff_env \<Rightarrow> pydict \<Rightarrow> bytestr option \<Rightarrow> (handoff_exn + unit) \<times> bytestr option" where
  "collector_log_event env event f =
     (if \<not> ho_key_path env then (Inl KeyPathMissing, f)
      else case ho_load_key env of
        Some e \<Rightarrow> (Inl (KeyLoadRaises e), f)
      | None \<Rightarrow>
          (case log_event (PDict (forensic_event event)) (ho_log env) f of
             (Inl e, f') \<Rightarrow> (Inl (HandoffRaises e), f')
           | (Inr d, f') \<Rightarrow> (Inr (), f')))"

section \<open>What is accepted\<close>

definition payload_ok :: "pydict \<Rightarrow> bool" where
  "payload_ok d \<longleftrightarrow>
     set (dkeys d) = named_keys PAYLOAD_FIELDS \<and> dget d ''schema_version'' = Some (PStr (lit ''0.1'')) \<and>
     item_ok d ''node_id'' payload_node_ok \<and> item_ok d ''timestamp_utc'' payload_time_ok \<and>
     item_ok d ''csi_window_sha256'' hash_ok \<and> item_ok d ''sequence_number'' payload_sequence_ok"

lemma validate_payload_iff: "validate_payload v = Inr d \<longleftrightarrow> v = PDict d \<and> payload_ok d"
proof (cases v)
  case (PDict e)
  have "list_all is_kstr (dkeys e) \<Longrightarrow>
      (missing_fields PAYLOAD_FIELDS e = [] \<and> unknown_fields PAYLOAD_FIELDS e = []) =
      (set (dkeys e) = named_keys PAYLOAD_FIELDS)"
    by (auto simp: unknown_fields_Nil)
  moreover have "payload_ok e \<Longrightarrow> list_all is_kstr (dkeys e)"
    by (auto simp: payload_ok_def intro: named_keys_kstr)
  ultimately show ?thesis using PDict
    by (auto simp: validate_payload_def res_simps payload_ok_def unknown_fields_Nil)
qed (simp_all add: validate_payload_def)

lemma node_char_bound: "is_node_char c \<Longrightarrow> c < 128"
  by (auto simp: is_node_char_def is_alnum_def)

lemma node_id_chars: "is_node_id s \<Longrightarrow> c \<in> set s \<Longrightarrow> c < 128"
  using node_char_bound by (cases s) (auto simp: is_node_id_def list_all_iff is_node_char_def)

lemma utc_shape_mono: "utc_shape (Some n) s \<Longrightarrow> utc_shape None s"
  by (auto simp: utc_shape_def Let_def)

lemma payload_field_ok:
  "payload_node_ok v \<Longrightarrow> str_ok v" "payload_time_ok v \<Longrightarrow> time_ok v"
  by (cases v; auto simp: payload_node_ok_def payload_time_ok_def is_node_id_def list_ex_iff
      is_surrogate_def dest: utc_shape_mono node_id_chars [rotated])+

lemma forensic_event_dget:
  "dget (forensic_event d) ''format_version'' = Some (PInt 2)"
  "dget (forensic_event d) ''event_type'' = Some (PStr (lit ''ingestion_accepted''))"
  "dget (forensic_event d) ''ts_utc'' = Some (ditem_or_none d ''timestamp_utc'')"
  "dget (forensic_event d) ''node_id'' = Some (ditem_or_none d ''node_id'')"
  "dget (forensic_event d) ''raw_csi_hash'' = Some (ditem_or_none d ''csi_window_sha256'')"
  "dget (forensic_event d) ''collector_schema_version'' = Some (ditem_or_none d ''schema_version'')"
  "dget (forensic_event d) ''collector_sequence_number'' = Some (ditem_or_none d ''sequence_number'')"
  by (simp_all add: forensic_event_def dget_def)

lemma item_ok_or_none: "item_ok d k P \<Longrightarrow> P (ditem_or_none d k)"
  by (auto simp: item_ok_def ditem_or_none_def split: option.splits)

lemma forensic_event_ok:
  assumes "payload_ok d"
  shows "event_ok (forensic_event d) \<longleftrightarrow> int63_ok (ditem_or_none d ''sequence_number'')"
proof -
  have p: "time_ok (ditem_or_none d ''timestamp_utc'')" "str_ok (ditem_or_none d ''node_id'')"
    "hash_ok (ditem_or_none d ''csi_window_sha256'')" "str_ok (ditem_or_none d ''schema_version'')"
    using assms payload_field_ok item_ok_or_none [of d]
    by (auto simp: payload_ok_def ditem_or_none_def item_ok_def lit_def is_surrogate_def split: option.splits)
  have keys: "set (dkeys (forensic_event d)) = named_keys V2_INGESTION_EVENT_FIELDS"
    by (auto simp: dkeys_def forensic_event_def named_keys_def field_lists)
  have k: "has_kind kind (forensic_event d) \<longleftrightarrow> kind = Ingestion" for kind
    by (cases kind) (simp_all add: forensic_event_dget)
  show ?thesis
    using p keys by (simp add: event_ok_iff event_kind_ok_def k item_ok_def forensic_event_dget)
qed

lemma forensic_event_wf:
  assumes "payload_ok d" and "wf_val (PDict d)"
  shows "wf_val (PDict (forensic_event d))"
proof -
  have "wf_val (ditem_or_none d k)" for k
    using assms(2) by (auto simp: ditem_or_none_def dget_def dest: map_of_SomeD split: option.splits)
  moreover have "wf_str (lit f)" for f using scalar_lit by (auto simp: scalar_str_def wf_str_def list_all_iff)
  ultimately show ?thesis by (simp add: forensic_event_def)
qed

end
