(* ===== verification/Py_Json_Ascii.thy ===== *)
theory Py_Json_Ascii
  imports Py_Json_Roundtrip Py_Json_Wf
begin

text \<open>
  \<^verbatim>\<open>json.dumps(value, sort_keys=True, separators=(",", ":"))\<close> with the defaults \<^verbatim>\<open>ensure_ascii=True\<close> and
  \<^verbatim>\<open>allow_nan=True\<close>, as the log formatter, the responses of the collector and the alert mapper use it. Every
  text it writes is one line of ASCII without control characters.
\<close>

section \<open>Writing\<close>

definition hex4_text :: "nat \<Rightarrow> pystr" where
  "hex4_text u = [92, 117, hex_digit (u div 4096), hex_digit (u div 256 mod 16),
     hex_digit (u div 16 mod 16), hex_digit (u mod 16)]"

definition escape_ascii :: "nat \<Rightarrow> pystr" where
  "escape_ascii c =
     (if c < 127 then escape_char c
      else if c < 0x10000 then hex4_text c
      else hex4_text (0xD800 + (c - 0x10000) div 1024) @ hex4_text (0xDC00 + (c - 0x10000) mod 1024))"

definition quote_ascii :: "pystr \<Rightarrow> pystr" where
  "quote_ascii s = 34 # concat (map escape_ascii s) @ [34]"

definition any_float_text :: "f64 \<Rightarrow> pystr" where
  "any_float_text x =
     (if f64_isfinite x then float_text x
      else if f64_isnan x then lit ''NaN''
      else if f64_neg x then lit ''-Infinity'' else lit ''Infinity'')"

definition ascii_member :: "pystr \<times> pystr \<Rightarrow> pystr" where
  "ascii_member kt = quote_ascii (fst kt) @ 58 # snd kt"

definition ascii_object :: "(pykey \<times> pystr option) list \<Rightarrow> pystr option" where
  "ascii_object ms =
     map_option (\<lambda>kts. 123 # join_comma (map ascii_member (sort_key fst kts)) @ [125])
       (those (map member_key ms))"

primrec ascii_text :: "pyval \<Rightarrow> pystr option" where
  "ascii_text PNone = Some (lit ''null'')"
| "ascii_text (PBool b) = Some (if b then lit ''true'' else lit ''false'')"
| "ascii_text (PInt n) =
     (if length (dec (nat \<bar>n\<bar>)) \<le> max_str_digits then Some (int_text n) else None)"
| "ascii_text (PFloat x) = Some (any_float_text x)"
| "ascii_text (PStr s) = Some (quote_ascii s)"
| "ascii_text (PList vs) = array_text (map ascii_text vs)"
| "ascii_text (PDict kvs) = ascii_object (map (map_prod id ascii_text) kvs)"
| "ascii_text (POther t) = None"

section \<open>One line of ASCII\<close>

abbreviation ascii_line :: "pystr \<Rightarrow> bool" where
  "ascii_line t \<equiv> printable (\<lambda>c. c < 128) t"

lemma ascii_hex4: "u < 0x10000 \<Longrightarrow> ascii_line (hex4_text u)"
proof -
  assume "u < 0x10000"
  then have "u div 4096 < 16" by simp
  moreover have "32 \<le> hex_digit n \<and> hex_digit n < 128" if "n < 16" for n
    using that by (simp add: hex_digit_def)
  ultimately show ?thesis by (simp add: hex4_text_def)
qed

lemma ascii_escape: "c < 0x110000 \<Longrightarrow> ascii_line (escape_ascii c)"
proof -
  assume c: "c < 0x110000"
  then have "(c - 0x10000) div 1024 < 1024" by simp
  moreover have "(c - 0x10000) mod 1024 < 1024" by simp
  ultimately show ?thesis
    by (simp add: escape_ascii_def ascii_hex4 printable_escape)
qed

lemma ascii_quote: "wf_str s \<Longrightarrow> ascii_line (quote_ascii s)"
  using ascii_escape by (induction s) (simp_all add: quote_ascii_def wf_str_def)

lemma ascii_float: "ascii_line (any_float_text x)"
  using printable_float [of "\<lambda>c. c < 128" x] by (auto simp: any_float_text_def lit_def)

theorem ascii_text_line:
  "ascii_text v = Some t \<Longrightarrow> wf_val v \<Longrightarrow> ascii_line t"
proof (induction v arbitrary: t rule: pyval_induct)
  case (PList vs)
  then obtain us where us: "t = 91 # join_comma us @ [93]"
    and all: "list_all2 (\<lambda>v u. ascii_text v = Some u) vs us"
    by (auto simp: array_text_def those_Some_iff list_all2_map1)
  have "ascii_line u" if "u \<in> set us" for u
    using list_all2_left [OF all that] PList by auto
  then show ?case using us by (auto intro!: printable_join)
next
  case (PDict kvs)
  obtain kts where t: "t = 123 # join_comma (map ascii_member (sort_key fst kts)) @ [125]"
    and kts: "list_all2 (\<lambda>kv kt. fst kv = KStr (fst kt) \<and> ascii_text (snd kv) = Some (snd kt)) kvs kts"
    using PDict.prems(1) by (auto simp: ascii_object_def members_those simp del: map_map)
  have "ascii_line (ascii_member kt)" if kt: "kt \<in> set kts" for kt
  proof -
    obtain kv where kv: "kv \<in> set kvs" "fst kv = KStr (fst kt)" "ascii_text (snd kv) = Some (snd kt)"
      using list_all2_left [OF kts kt] by blast
    have "ascii_line (snd kt)" using PDict.IH [OF kv(1,3)] PDict.prems(2) kv(1) by simp
    moreover have "wf_str (fst kt)" using PDict.prems(2) kv(1,2) by force
    ultimately show ?thesis using ascii_quote by (simp add: ascii_member_def)
  qed
  then show ?case using t by (auto intro!: printable_join)
qed (auto simp: ascii_quote ascii_float printable_int lit_def split: if_splits)

text \<open>It writes every value whose integers are short and that holds nothing else \<^verbatim>\<open>json\<close> refuses.\<close>

fun plain_scalar :: "pyval \<Rightarrow> bool" where
  "plain_scalar PNone = True"
| "plain_scalar (PBool b) = True"
| "plain_scalar (PInt n) = (\<bar>n\<bar> < 2 ^ 64)"
| "plain_scalar (PFloat x) = True"
| "plain_scalar (PStr s) = wf_str s"
| "plain_scalar _ = False"

lemma short_int: "\<bar>n\<bar> < 2 ^ 64 \<Longrightarrow> length (dec (nat \<bar>n\<bar>)) \<le> max_str_digits"
proof -
  assume "\<bar>n\<bar> < 2 ^ 64"
  then have "nat \<bar>n\<bar> < 10 ^ 20" by simp
  then have "length (dec (nat \<bar>n\<bar>)) \<le> 20" by (rule length_dec) simp
  then show ?thesis by (simp add: max_str_digits_def)
qed

lemma plain_scalar_text: "plain_scalar v \<Longrightarrow> \<exists>t. ascii_text v = Some t"
  by (cases v) (simp_all add: short_int)

lemma plain_dict_text:
  assumes "\<And>kv. kv \<in> set kvs \<Longrightarrow> is_kstr (fst kv) \<and> (\<exists>t. ascii_text (snd kv) = Some t)"
  shows "\<exists>t. ascii_text (PDict kvs) = Some t"
proof -
  have "\<exists>kts. list_all2 (\<lambda>kv kt. fst kv = KStr (fst kt) \<and> ascii_text (snd kv) = Some (snd kt)) kvs kts"
    using assms
  proof (induction kvs)
    case (Cons kv kvs)
    obtain k t where kv: "fst kv = KStr k" "ascii_text (snd kv) = Some t"
      using Cons.prems [of kv] by (cases "fst kv") auto
    obtain kts where "list_all2 (\<lambda>kv kt. fst kv = KStr (fst kt) \<and> ascii_text (snd kv) = Some (snd kt)) kvs kts"
      using Cons by auto
    with kv have "list_all2 (\<lambda>kv kt. fst kv = KStr (fst kt) \<and> ascii_text (snd kv) = Some (snd kt)) (kv # kvs) ((k, t) # kts)"
      by simp
    then show ?case by blast
  qed (rule exI [of _ "[]"], simp)
  then show ?thesis by (auto simp: ascii_object_def simp flip: members_those simp del: map_map)
qed

lemma list_all2_exists: "\<forall>x \<in> set xs. \<exists>y. P x y \<Longrightarrow> \<exists>ys. list_all2 P xs ys"
proof (induction xs)
  case (Cons x xs)
  then obtain y ys where "P x y" "list_all2 P xs ys" by auto
  then have "list_all2 P (x # xs) (y # ys)" by simp
  then show ?case by blast
qed (rule exI [of _ "[]"], simp)

text \<open>Every value \<^verbatim>\<open>json.loads\<close> returns can be written.\<close>

theorem json_ascii_text: "json_typed v \<Longrightarrow> \<exists>t. ascii_text v = Some t"
proof (induction v rule: pyval_induct)
  case (PList vs)
  then have "\<exists>us. list_all2 (\<lambda>v u. ascii_text v = Some u) vs us"
    by (intro list_all2_exists) simp
  then show ?case by (auto simp: array_text_def those_Some_iff list_all2_map1)
next
  case (PDict kvs)
  then show ?case by (intro plain_dict_text) simp
qed auto

section \<open>Reading the canonical text\<close>

lemma loads_text_canon:
  assumes "canon_text v = Some t" and "wf_val v"
  shows "loads_text t = Inr (norm_val v)"
proof -
  have rd: "reads t (norm_val v)" using assms by (rule reads_canon)
  then have ne: "t \<noteq> []" by (auto simp: reads_def)
  then have "hd t < 128" using hd_ascii [OF rd assms(1)] by simp
  moreover have "skip_ws t = t" using skip_ws_reads [OF rd, of "[]"] by simp
  moreover have "scan_once t = Inr (norm_val v, [])" using rd by (auto simp: reads_def dest: spec [of _ "[]"])
  ultimately show ?thesis by (simp add: loads_text_def) (simp add: skip_ws_def)
qed

end
