(* ===== verification/Collector_Server.thy ===== *)
theory Collector_Server
  imports Collector_Models Py_Json_Ascii
begin

text \<open>
  The ingest server of \<^verbatim>\<open>src/collector/vestrix_collector/server.py\<close>: the enrolled nodes, the reading of one
  line from a socket in pieces of any size, and the handler of one connection with every decision it
  takes. TLS is an argument: the certificate of an accepted handshake, or a failed handshake. The
  interface \<open>replay_register\<close> states what the reservation of sequence numbers promises; it is
  interpreted on \<open>reserve_sequence\<close>.
\<close>

section \<open>Enrolled nodes\<close>

text \<open>
  What reading the file gives: the value \<^verbatim>\<open>yaml.safe_load\<close> returned; an \<^verbatim>\<open>OSError\<close> or \<^verbatim>\<open>YAMLError\<close>; or another exception
  with its name, as \<^verbatim>\<open>UnicodeDecodeError\<close> for a file that is not UTF-8, which is no \<^verbatim>\<open>AllowlistError\<close> and escapes.
\<close>

datatype yaml_file = LoadedYaml pyval | UnreadableYaml | EscapingYaml string

datatype allowlist_error =
    AllowlistUnreadable
  | AllowlistKeys
  | AllowlistNotList
  | AllowlistNotText
  | AllowlistDuplicates
  | AllowlistEscapes string

fun nonempty_text :: "pyval \<Rightarrow> bool" where
  "nonempty_text (PStr s) = (s \<noteq> [])"
| "nonempty_text _ = False"

fun text_of :: "pyval \<Rightarrow> pystr" where
  "text_of (PStr s) = s"
| "text_of _ = []"

definition load_enrolled_nodes :: "yaml_file \<Rightarrow> allowlist_error + pystr list" where
  "load_enrolled_nodes yaml =
     (case yaml of
        LoadedYaml (PDict d) \<Rightarrow>
          if set (dkeys d) \<noteq> {KStr (lit ''nodes'')} then Inl AllowlistKeys
          else (case dget d ''nodes'' of
             Some (PList nodes) \<Rightarrow>
               rbind (raise_if (nodes = []) AllowlistNotList) (\<lambda>_.
               rbind (raise_if (\<not> list_all nonempty_text nodes) AllowlistNotText) (\<lambda>_.
               rbind (raise_if (length nodes \<noteq> card (set nodes)) AllowlistDuplicates) (\<lambda>_.
                 Inr (map text_of nodes))))
           | _ \<Rightarrow> Inl AllowlistNotList)
      | LoadedYaml _ \<Rightarrow> Inl AllowlistKeys
      | UnreadableYaml \<Rightarrow> Inl AllowlistUnreadable
      | EscapingYaml name \<Rightarrow> Inl (AllowlistEscapes name))"

section \<open>Reading one line\<close>

text \<open>
  The rest of what a socket delivers: each \<open>Chunk\<close> is what one \<^verbatim>\<open>recv\<close> can return at most, and is cut when
  less was asked for; the end of the list is the end of the stream.
\<close>

datatype recv_event = Chunk bytestr | RecvTimeout | RecvError

datatype read_error =
    PayloadMissingNewline
  | PayloadTooLarge
  | EmptyPayload
  | ReadTimeout
  | ReadOSError
  | PayloadNotUtf8

fun recv_size :: "recv_event \<Rightarrow> nat" where
  "recv_size (Chunk c) = length c + 1"
| "recv_size _ = 1"

function read_loop :: "nat \<Rightarrow> bytestr \<Rightarrow> recv_event list \<Rightarrow> read_error + bytestr" where
  "read_loop limit payload evs =
     (if limit < length payload then Inr payload
      else case evs of
        [] \<Rightarrow> Inl PayloadMissingNewline
      | RecvTimeout # _ \<Rightarrow> Inl ReadTimeout
      | RecvError # _ \<Rightarrow> Inl ReadOSError
      | Chunk c # rest \<Rightarrow>
          (let n = min 4096 (limit + 1 - length payload); chunk = take n c; left = drop n c in
           if chunk = [] then Inl PayloadMissingNewline
           else if LF \<in> set chunk then Inr (payload @ takeWhile (\<lambda>b. b \<noteq> LF) chunk)
           else read_loop limit (payload @ chunk) (if left = [] then rest else Chunk left # rest)))"
  by pat_completeness auto
termination
  by (relation "measure (\<lambda>(limit, payload, evs). sum_list (map recv_size evs))") auto

declare read_loop.simps [simp del]

definition read_json_line :: "recv_event list \<Rightarrow> nat \<Rightarrow> read_error + pystr" where
  "read_json_line evs limit =
     rbind (read_loop limit [] evs) (\<lambda>payload.
     rbind (raise_if (limit < length payload) PayloadTooLarge) (\<lambda>_.
     rbind (raise_if (payload = []) EmptyPayload) (\<lambda>_.
       case decode_utf8 False payload of None \<Rightarrow> Inl PayloadNotUtf8 | Some s \<Rightarrow> Inr s)))"

section \<open>Responses and decisions\<close>

text \<open>The texts here are written by \<^verbatim>\<open>json.dumps\<close> with \<^verbatim>\<open>ensure_ascii=True\<close>.\<close>

definition response :: "string \<Rightarrow> pystr \<Rightarrow> bytestr" where
  "response status reason =
     map byte_of (lit ''{'' @ quote_ascii (lit ''status'') @ [58] @ quote_ascii (lit status) @ [44] @
       quote_ascii (lit ''reason'') @ [58] @ quote_ascii reason @ lit ''}'') @ [LF]"

record entry =
  en_decision :: string
  en_reason :: pystr
  en_fields :: "(string \<times> pyval) list"

record collector =
  co_last :: "pystr \<Rightarrow> int option"
  co_chain :: "bytestr option"
  co_log :: "entry list"

definition decision :: "string \<Rightarrow> pystr \<Rightarrow> (string \<times> pyval) list \<Rightarrow> collector \<Rightarrow> collector" where
  "decision what reason flds st =
     st\<lparr>co_log := co_log st @ [\<lparr>en_decision = what, en_reason = reason, en_fields = flds\<rparr>]\<rparr>"

text \<open>The exceptions that leave the handler: they reach the last \<^verbatim>\<open>except\<close> clause of \<^verbatim>\<open>_handle_socket\<close>.\<close>

datatype tls_exn = TlsValueError | TlsTypeError

type_synonym outcome = "(tls_exn + bytestr) \<times> collector"

definition reject_tls_socket :: "pystr \<Rightarrow> (string \<times> pyval) list \<Rightarrow> collector \<Rightarrow> outcome" where
  "reject_tls_socket reason flds st =
     (Inr (response ''rejected'' reason), decision ''reject'' reason flds st)"

definition join_names :: "pystr list \<Rightarrow> pystr" where
  "join_names ns = join_comma ns"

fun payload_reason :: "payload_error \<Rightarrow> pystr" where
  "payload_reason PayloadNotObject = lit ''payload_not_object''"
| "payload_reason (MissingFields ns) = lit ''missing_fields:'' @ join_names ns"
| "payload_reason (UnknownFields ns) = lit ''unknown_fields:'' @ join_names ns"
| "payload_reason UnsupportedSchemaVersion = lit ''unsupported_schema_version''"
| "payload_reason InvalidNodeId = lit ''invalid_node_id''"
| "payload_reason InvalidTimestamp = lit ''invalid_timestamp_utc''"
| "payload_reason InvalidDigest = lit ''invalid_csi_window_sha256''"
| "payload_reason InvalidSequenceNumber = lit ''invalid_sequence_number''"

section \<open>One connection\<close>

type_synonym certificate = "(pystr \<times> pyval) list list"

fun common_name :: "pystr \<times> pyval \<Rightarrow> pystr list" where
  "common_name (key, PStr s) = (if key = lit ''commonName'' then [s] else [])"
| "common_name (key, _) = []"

definition certificate_common_names :: "certificate \<Rightarrow> pystr list" where
  "certificate_common_names cert = concat (map (\<lambda>rdn. concat (map common_name rdn)) cert)"

datatype ingest_error = ReadFailed read_error | JsonFailed json_error | PayloadInvalid payload_error

definition read_event :: "nat \<Rightarrow> recv_event list \<Rightarrow> ingest_error + pydict" where
  "read_event limit evs =
     rbind (rmap_err ReadFailed (read_json_line evs limit)) (\<lambda>raw.
     rbind (rmap_err JsonFailed (loads_text raw)) (\<lambda>decoded.
       rmap_err PayloadInvalid (validate_payload decoded)))"

text \<open>The reason of the \<^verbatim>\<open>except\<close> clause that catches the error; \<open>None\<close> when none does.\<close>

fun ingest_reason :: "ingest_error \<Rightarrow> pystr option" where
  "ingest_reason (ReadFailed ReadTimeout) = Some (lit ''payload_read_timeout'')"
| "ingest_reason (ReadFailed PayloadMissingNewline) = Some (lit ''payload_missing_newline'')"
| "ingest_reason (ReadFailed PayloadTooLarge) = Some (lit ''payload_too_large'')"
| "ingest_reason (ReadFailed EmptyPayload) = Some (lit ''empty_payload'')"
| "ingest_reason (ReadFailed ReadOSError) = Some (lit ''invalid_json_payload'')"
| "ingest_reason (ReadFailed PayloadNotUtf8) = Some (lit ''invalid_json_payload'')"
| "ingest_reason (JsonFailed IntDigitsError) = None"
| "ingest_reason (JsonFailed _) = Some (lit ''invalid_json_payload'')"
| "ingest_reason (PayloadInvalid e) = Some (payload_reason e)"

text \<open>\<^verbatim>\<open>hmac.compare_digest\<close> of two texts raises \<^verbatim>\<open>TypeError\<close> unless both are ASCII.\<close>

definition compare_digest :: "pystr \<Rightarrow> pystr \<Rightarrow> tls_exn + bool" where
  "compare_digest a b =
     (if list_all (\<lambda>c. c < 128) a \<and> list_all (\<lambda>c. c < 128) b then Inr (a = b) else Inl TlsTypeError)"

text \<open>The reservation under \<^verbatim>\<open>_sequence_lock\<close>: the previous number, whether it is a replay, the register.\<close>

definition reserve_sequence ::
    "pystr \<Rightarrow> int \<Rightarrow> (pystr \<Rightarrow> int option) \<Rightarrow> bool \<times> (pystr \<Rightarrow> int option)" where
  "reserve_sequence node n reg =
     (case reg node of
        Some previous \<Rightarrow> if n \<le> previous then (True, reg) else (False, reg(node \<mapsto> n))
      | None \<Rightarrow> (False, reg(node \<mapsto> n)))"

fun handoff_exn_name :: "handoff_exn \<Rightarrow> string" where
  "handoff_exn_name KeyPathMissing = ''RuntimeError''"
| "handoff_exn_name (KeyLoadRaises name) = name"
| "handoff_exn_name (HandoffRaises (EventRejected (RecordFormatError _))) = ''RecordFormatError''"
| "handoff_exn_name (HandoffRaises (EventRejected (KeyError _))) = ''KeyError''"
| "handoff_exn_name (HandoffRaises (EventRejected OverflowError)) = ''OverflowError''"
| "handoff_exn_name (HandoffRaises MkdirError) = ''OSError''"
| "handoff_exn_name (HandoffRaises LockTimeout) = ''Timeout''"
| "handoff_exn_name (HandoffRaises (TipRaises StoreValueError)) = ''ValueError''"
| "handoff_exn_name (HandoffRaises (TipRaises (StoreRaises OverflowError))) = ''OverflowError''"
| "handoff_exn_name (HandoffRaises (TipRaises _)) = ''RecordFormatError''"
| "handoff_exn_name (HandoffRaises (RecordRaises _)) = ''RecordFormatError''"
| "handoff_exn_name (HandoffRaises SignerRaised) = ''Exception''"
| "handoff_exn_name (HandoffRaises _) = ''AppendError''"

text \<open>The end of the handler, after the reservation: the handoff to the forensic chain.\<close>

definition hand_off :: "handoff_env \<Rightarrow> pystr \<Rightarrow> pystr \<Rightarrow> pydict \<Rightarrow> collector \<Rightarrow> outcome" where
  "hand_off env peer cn event st =
     (case collector_log_event env event (co_chain st) of
        (Inl e, f') \<Rightarrow>
          reject_tls_socket (lit ''forensics_handoff_failed'')
            [(''peer'', PStr peer), (''node_id'', PStr cn),
             (''sequence_number'', ditem_or_none event ''sequence_number''),
             (''error_type'', PStr (lit (handoff_exn_name e)))] (st\<lparr>co_chain := f'\<rparr>)
      | (Inr _, f') \<Rightarrow>
          (Inr (response ''accepted'' (lit ''authenticated_event_handed_off'')),
           decision ''accept'' (lit ''authenticated_event_handed_off'')
             [(''peer'', PStr peer), (''node_id'', PStr cn),
              (''sequence_number'', ditem_or_none event ''sequence_number''),
              (''csi_window_sha256'', ditem_or_none event ''csi_window_sha256'')]
             (st\<lparr>co_chain := f'\<rparr>)))"

text \<open>
  The handler up to the reservation: \<open>Inl\<close> when it ended there, \<open>Inr\<close> the reserved event. The
  register is the only shared state it touches.
\<close>

definition admit ::
    "nat \<Rightarrow> pystr \<Rightarrow> pystr list \<Rightarrow> certificate \<Rightarrow> recv_event list \<Rightarrow> collector
      \<Rightarrow> outcome + pystr \<times> pydict \<times> collector" where
  "admit limit peer enrolled cert evs st =
     (case certificate_common_names cert of
        [cn] \<Rightarrow>
          if cn \<notin> set enrolled then
            Inl (reject_tls_socket (lit ''unenrolled_certificate_cn'')
              [(''peer'', PStr peer), (''certificate_node_id'', PStr cn)] st)
          else (case read_event limit evs of
             Inl e \<Rightarrow>
               Inl (case ingest_reason e of
                  None \<Rightarrow> (Inl TlsValueError, st)
                | Some reason \<Rightarrow>
                    reject_tls_socket reason
                      [(''peer'', PStr peer), (''certificate_node_id'', PStr cn)] st)
           | Inr event \<Rightarrow>
               (case compare_digest (str_item event ''node_id'') cn of
                  Inl e \<Rightarrow> Inl (Inl e, st)
                | Inr same \<Rightarrow>
                    if \<not> same then
                      Inl (reject_tls_socket (lit ''node_id_certificate_cn_mismatch'')
                        [(''peer'', PStr peer), (''certificate_node_id'', PStr cn),
                         (''payload_node_id'', ditem_or_none event ''node_id''),
                         (''sequence_number'', ditem_or_none event ''sequence_number'')] st)
                    else
                      (case reserve_sequence cn (int_item event ''sequence_number'') (co_last st) of
                         (replay, reg') \<Rightarrow>
                           if replay then
                             Inl (reject_tls_socket (lit ''replayed_or_out_of_order_sequence'')
                               [(''peer'', PStr peer), (''node_id'', PStr cn),
                                (''sequence_number'', ditem_or_none event ''sequence_number''),
                                (''last_sequence_number'',
                                   case co_last st cn of None \<Rightarrow> PNone | Some n \<Rightarrow> PInt n)] st)
                           else Inr (cn, event, st\<lparr>co_last := reg'\<rparr>))))
      | _ \<Rightarrow> Inl (reject_tls_socket (lit ''invalid_certificate_cn'') [(''peer'', PStr peer)] st))"

definition handle_tls_socket ::
    "nat \<Rightarrow> handoff_env \<Rightarrow> pystr \<Rightarrow> pystr list \<Rightarrow> certificate \<Rightarrow> recv_event list \<Rightarrow> collector \<Rightarrow> outcome" where
  "handle_tls_socket limit env peer enrolled cert evs st =
     (case admit limit peer enrolled cert evs st of
        Inl out \<Rightarrow> out
      | Inr (cn, event, st') \<Rightarrow> hand_off env peer cn event st')"

text \<open>\<open>Inl\<close> is a failed handshake, with the name of the exception.\<close>

definition handle_socket ::
    "nat \<Rightarrow> handoff_env \<Rightarrow> pystr \<Rightarrow> pystr list \<Rightarrow> string + certificate \<Rightarrow> recv_event list \<Rightarrow> collector
      \<Rightarrow> bytestr option \<times> collector" where
  "handle_socket limit env peer enrolled handshake evs st =
     (case handshake of
        Inl name \<Rightarrow>
          (None, decision ''reject'' (lit ''tls_handshake_failed'')
             [(''peer'', PStr peer), (''error_type'', PStr (lit name))] st)
      | Inr cert \<Rightarrow>
          (case handle_tls_socket limit env peer enrolled cert evs st of
             (Inr resp, st') \<Rightarrow> (Some resp, st')
           | (Inl e, st') \<Rightarrow>
               (None, decision ''reject'' (lit ''internal_server_error'')
                  [(''peer'', PStr peer),
                   (''error_type'', PStr (lit (case e of TlsValueError \<Rightarrow> ''ValueError'' | TlsTypeError \<Rightarrow> ''TypeError'')))]
                  st')))"

section \<open>The line read does not depend on the pieces\<close>

fun event_bytes :: "recv_event \<Rightarrow> bytestr" where
  "event_bytes (Chunk c) = c"
| "event_bytes _ = []"

definition stream_bytes :: "recv_event list \<Rightarrow> bytestr" where
  "stream_bytes evs = concat (map event_bytes evs)"

definition plain_stream :: "recv_event list \<Rightarrow> bool" where
  "plain_stream evs = list_all (\<lambda>e. event_bytes e \<noteq> []) evs"

text \<open>What is to be read from a stream of bytes: the text before the first LF, of at most \<open>limit\<close> bytes.\<close>

definition line_spec :: "nat \<Rightarrow> bytestr \<Rightarrow> read_error + pystr" where
  "line_spec limit bs =
     (let line = takeWhile (\<lambda>b. b \<noteq> LF) bs in
      if limit < length line then Inl PayloadTooLarge
      else if LF \<notin> set bs then Inl PayloadMissingNewline
      else if line = [] then Inl EmptyPayload
      else (case decode_utf8 False line of None \<Rightarrow> Inl PayloadNotUtf8 | Some s \<Rightarrow> Inr s))"

lemma stream_bytes_Cons [simp]: "stream_bytes (e # evs) = event_bytes e @ stream_bytes evs"
  by (simp add: stream_bytes_def)

lemma plain_stream_Cons [simp]: "plain_stream (e # evs) \<longleftrightarrow> event_bytes e \<noteq> [] \<and> plain_stream evs"
  by (simp add: plain_stream_def)

lemma takeWhile_no_LF: "LF \<notin> set a \<Longrightarrow> takeWhile (\<lambda>b. b \<noteq> LF) (a @ b) = a @ takeWhile (\<lambda>b. b \<noteq> LF) b"
  by (induction a) auto

lemma takeWhile_LF: "LF \<in> set a \<Longrightarrow> takeWhile (\<lambda>b. b \<noteq> LF) (a @ b) = takeWhile (\<lambda>b. b \<noteq> LF) a"
  by (induction a) auto

lemma takeWhile_LF_length: "LF \<in> set a \<Longrightarrow> length (takeWhile (\<lambda>b. b \<noteq> LF) a) < length a"
  by (induction a) auto

lemma read_loop_Chunk:
  assumes "length p \<le> limit" and n: "n = min 4096 (Suc limit - length p)" and "c \<noteq> []"
  shows "read_loop limit p (Chunk c # rest) =
    (if LF \<in> set (take n c) then Inr (p @ takeWhile (\<lambda>b. b \<noteq> LF) (take n c))
     else read_loop limit (p @ take n c) (if drop n c = [] then rest else Chunk (drop n c) # rest))"
proof -
  have "take n c \<noteq> []" using assms by simp
  with assms(1) show ?thesis by (subst read_loop.simps) (simp add: Let_def flip: n)
qed

lemma read_loop_spec:
  assumes "plain_stream evs" and "length p \<le> limit"
  shows "read_loop limit p evs =
    (let line = takeWhile (\<lambda>b. b \<noteq> LF) (stream_bytes evs) in
     if limit < length p + length line then Inr (p @ take (Suc limit - length p) (stream_bytes evs))
     else if LF \<in> set (stream_bytes evs) then Inr (p @ line) else Inl PayloadMissingNewline)"
  using assms
proof (induction "sum_list (map recv_size evs)" arbitrary: p evs rule: less_induct)
  case less
  show ?case
  proof (cases evs)
    case Nil
    with less.prems show ?thesis by (subst read_loop.simps) (simp add: stream_bytes_def)
  next
    case (Cons e rest)
    then obtain c where e: "e = Chunk c" "c \<noteq> []" using less.prems(1) by (cases e) auto
    define n where "n = min 4096 (Suc limit - length p)"
    define evs' where "evs' = (if drop n c = [] then rest else Chunk (drop n c) # rest)"
    have n: "0 < n" "n \<le> Suc limit - length p" using less.prems(2) by (simp_all add: n_def)
    have bytes: "stream_bytes evs = take n c @ stream_bytes evs'" "plain_stream evs'"
      using Cons e less.prems(1) by (auto simp: evs'_def append_take_drop_id)
    have unf: "read_loop limit p evs = (if LF \<in> set (take n c) then Inr (p @ takeWhile (\<lambda>b. b \<noteq> LF) (take n c))
        else read_loop limit (p @ take n c) evs')"
      using read_loop_Chunk [OF less.prems(2) n_def e(2)] Cons e(1) by (simp add: evs'_def)
    have smaller: "sum_list (map recv_size evs') < sum_list (map recv_size evs)"
      using n(1) e(2) Cons e(1) by (auto simp: evs'_def)
    have len: "length (take n c) \<le> Suc limit - length p" using n(2) by simp
    show ?thesis
    proof (cases "LF \<in> set (take n c)")
      case True
      have "length p + length (takeWhile (\<lambda>b. b \<noteq> LF) (take n c)) \<le> limit"
        using takeWhile_LF_length [OF True] len less.prems(2) by linarith
      with True show ?thesis by (simp add: unf bytes(1) takeWhile_LF)
    next
      case False
      note tw = takeWhile_no_LF [OF False, of "stream_bytes evs'"]
      show ?thesis
      proof (cases "limit < length (p @ take n c)")
        case True
        then have l: "Suc limit - length p = length (take n c)" using len less.prems(2) by simp
        have "read_loop limit (p @ take n c) evs' = Inr (p @ take n c)"
          using True by (subst read_loop.simps) simp
        then show ?thesis using True False unfolding unf bytes(1) tw l by (simp add: min_def)
      next
        case small: False
        then have "length (p @ take n c) \<le> limit" by simp
        from less.hyps [OF smaller bytes(2) this] show ?thesis
          using False small n(2) unfolding unf bytes(1) tw by (simp add: Let_def min_absorb2)
      qed
    qed
  qed
qed

lemma read_json_line_spec:
  assumes "plain_stream evs"
  shows "read_json_line evs limit = line_spec limit (stream_bytes evs)"
proof -
  let ?line = "takeWhile (\<lambda>b. b \<noteq> LF) (stream_bytes evs)"
  have "length ?line \<le> length (stream_bytes evs)" by (rule length_takeWhile_le)
  then show ?thesis
    using read_loop_spec [OF assms, of "[]" limit]
    by (auto simp: read_json_line_def line_spec_def Let_def)
qed

section \<open>The register of sequence numbers\<close>

text \<open>
  \<open>reserve k n r\<close> is true for a replay and else records \<open>n\<close> as the last number of \<open>k\<close>. A history of
  reservations is consistent with a register when the numbers of each key increase and none is above the
  last one.
\<close>

locale replay_register =
  fixes reserve :: "'k \<Rightarrow> int \<Rightarrow> 'r \<Rightarrow> bool \<times> 'r"
    and lookup :: "'r \<Rightarrow> 'k \<Rightarrow> int option"
  assumes reserve_new: "reserve k n r = (False, r') \<Longrightarrow> lookup r' k = Some n"
    and reserve_greater: "reserve k n r = (False, r') \<Longrightarrow> lookup r k = Some p \<Longrightarrow> p < n"
    and reserve_other: "reserve k n r = (False, r') \<Longrightarrow> j \<noteq> k \<Longrightarrow> lookup r' j = lookup r j"
    and reserve_replay: "reserve k n r = (True, r') \<Longrightarrow> r' = r \<and> (\<exists>p. lookup r k = Some p \<and> n \<le> p)"
begin

definition numbers :: "'k \<Rightarrow> ('k \<times> int) list \<Rightarrow> int list" where
  "numbers k hist = map snd (filter (\<lambda>x. fst x = k) hist)"

definition consistent :: "'r \<Rightarrow> ('k \<times> int) list \<Rightarrow> bool" where
  "consistent r hist \<longleftrightarrow>
     (\<forall>k. sorted_wrt (<) (numbers k hist) \<and>
        (\<forall>n \<in> set (numbers k hist). \<exists>p. lookup r k = Some p \<and> n \<le> p))"

lemma numbers_snoc: "numbers k (hist @ [(j, n)]) = numbers k hist @ (if j = k then [n] else [])"
  by (simp add: numbers_def)

lemma consistent_reserve:
  assumes c: "consistent r hist" and r: "reserve k n r = (False, r')"
  shows "consistent r' (hist @ [(k, n)])"
  unfolding consistent_def
proof (intro allI)
  fix j
  have h: "sorted_wrt (<) (numbers j hist)" "\<forall>m \<in> set (numbers j hist). \<exists>p. lookup r j = Some p \<and> m \<le> p"
    using c by (auto simp: consistent_def)
  show "sorted_wrt (<) (numbers j (hist @ [(k, n)])) \<and>
      (\<forall>m \<in> set (numbers j (hist @ [(k, n)])). \<exists>p. lookup r' j = Some p \<and> m \<le> p)"
  proof (cases "j = k")
    case True
    have "m < n" if "m \<in> set (numbers k hist)" for m
      using h(2) that True reserve_greater [OF r] by (metis order_le_less_trans)
    with h(1) True reserve_new [OF r] show ?thesis by (force simp: numbers_snoc sorted_wrt_append)
  next
    case False
    with h reserve_other [OF r False] show ?thesis by (auto simp: numbers_snoc)
  qed
qed

lemma consistent_refuses:
  assumes "consistent r hist" and "(k, n) \<in> set hist"
  shows "reserve k n r = (True, r)"
proof -
  have "n \<in> set (numbers k hist)" using assms(2) by (force simp: numbers_def)
  then obtain p where p: "lookup r k = Some p" "n \<le> p" using assms(1) by (auto simp: consistent_def)
  obtain b r' where b: "reserve k n r = (b, r')" by (cases "reserve k n r")
  then have "b" using reserve_greater [of k n r r' p] p by (cases b) auto
  with b reserve_replay show ?thesis by auto
qed

lemma consistent_fresh:
  "consistent r hist \<Longrightarrow> reserve k n r = (False, r') \<Longrightarrow> (k, n) \<notin> set hist"
  using consistent_refuses by fastforce

end

interpretation register: replay_register reserve_sequence "\<lambda>reg. reg"
  by unfold_locales (auto simp: reserve_sequence_def split: option.splits if_splits)

section \<open>What an admitted event is\<close>

lemma admit_Inr:
  assumes "admit limit peer enrolled cert evs st = Inr (cn, event, st')"
  shows "certificate_common_names cert = [cn]" and "cn \<in> set enrolled"
    and "read_event limit evs = Inr event" and "payload_ok event"
    and "dget event ''node_id'' = Some (PStr cn)"
    and "\<exists>reg'. reserve_sequence cn (int_item event ''sequence_number'') (co_last st) = (False, reg') \<and>
      st' = st\<lparr>co_last := reg'\<rparr>"
proof -
  show cn: "certificate_common_names cert = [cn]"
    using assms by (auto simp: admit_def split: list.splits if_splits sum.splits prod.splits option.splits)
  show en: "cn \<in> set enrolled" using assms cn by (auto simp: admit_def split: if_splits)
  have ev: "read_event limit evs = Inr event \<and> compare_digest (str_item event ''node_id'') cn = Inr True \<and>
      (\<exists>reg'. reserve_sequence cn (int_item event ''sequence_number'') (co_last st) = (False, reg') \<and>
        st' = st\<lparr>co_last := reg'\<rparr>)"
    using assms cn en by (auto simp: admit_def split: sum.splits if_splits prod.splits)
  then show "read_event limit evs = Inr event" and
    "\<exists>reg'. reserve_sequence cn (int_item event ''sequence_number'') (co_last st) = (False, reg') \<and>
      st' = st\<lparr>co_last := reg'\<rparr>" by blast+
  show ok: "payload_ok event"
    using ev by (auto simp: read_event_def res_simps validate_payload_iff)
  have "str_item event ''node_id'' = cn" using ev by (auto simp: compare_digest_def split: if_splits)
  with ok show "dget event ''node_id'' = Some (PStr cn)"
    by (auto simp: payload_ok_def item_ok_def str_item_def payload_node_ok_def split: option.splits pyval.splits)
qed

lemma read_event_wf: "read_event limit evs = Inr event \<Longrightarrow> wf_val (PDict event)"
proof -
  assume "read_event limit evs = Inr event"
  then obtain raw where raw: "read_json_line evs limit = Inr raw" "loads_text raw = Inr (PDict event)"
    by (auto simp: read_event_def res_simps validate_payload_iff)
  then obtain bs where "decode_utf8 False bs = Some raw"
    by (auto simp: read_json_line_def res_simps split: option.splits)
  then have "wf_str raw" by (rule decode_utf8_wf)
  with raw(2) have "wf_json (PDict event)" by (rule loads_text_wf)
  then show ?thesis by (simp add: wf_json_def)
qed

lemma admit_Inl_keeps:
  assumes "admit limit peer enrolled cert evs st = Inl (r, st')"
  shows "co_last st' = co_last st" and "co_chain st' = co_chain st"
  using assms
  by (auto simp: admit_def reject_tls_socket_def decision_def
      split: list.splits if_splits sum.splits prod.splits option.splits)

end
