(* ===== verification/Collector_Processes.thy ===== *)
theory Collector_Processes
  imports Collector_Server
begin

text \<open>
  The connections of one collector process, each handled in its own thread
  (\<^verbatim>\<open>src/collector/vestrix_collector/server.py\<close>), as a step relation. What a thread does between two accesses to
  shared state is one step: taking the enrolled nodes when the connection opens, the reservation of the
  sequence number, the handoff to the forensic chain. The history of the reservations and of the accepted
  handoffs is part of the state. The invariant shows that no event is handed off twice.
\<close>

datatype connection =
    Unopened
  | Open pystr "pystr list" certificate
  | Admitted pystr pystr pydict
  | Closed

record ingest =
  ig_enrolled :: "pystr list"
  ig_collector :: collector
  ig_connection :: "nat \<Rightarrow> connection"
  ig_reserved :: "(pystr \<times> int) list"
  ig_accepted :: "(pystr \<times> int) list"

definition event_key :: "pystr \<Rightarrow> pydict \<Rightarrow> pystr \<times> int" where
  "event_key cn event = (cn, int_item event ''sequence_number'')"

definition set_connection :: "nat \<Rightarrow> connection \<Rightarrow> ingest \<Rightarrow> ingest" where
  "set_connection t c s = s\<lparr>ig_connection := (ig_connection s)(t := c)\<rparr>"

definition is_accepted :: "outcome \<Rightarrow> bool" where
  "is_accepted out \<longleftrightarrow> fst out = Inr (response ''accepted'' (lit ''authenticated_event_handed_off''))"

text \<open>
  \<open>Connect\<close>: a handshake succeeded and the thread took the enrolled nodes. \<open>Reload\<close>:
  \<^verbatim>\<open>reload_security_state\<close>. \<open>Refuse\<close> and \<open>Admit\<close>: the handler up to the reservation. \<open>Handoff\<close>: the rest.
\<close>

inductive ingest_step :: "nat \<Rightarrow> ingest \<Rightarrow> ingest \<Rightarrow> bool" for limit where
  Connect: "ig_connection s t = Unopened \<Longrightarrow>
    ingest_step limit s (set_connection t (Open peer (ig_enrolled s) cert) s)"
| Reload: "load_enrolled_nodes yaml = Inr nodes \<Longrightarrow> ingest_step limit s (s\<lparr>ig_enrolled := nodes\<rparr>)"
| Refuse: "ig_connection s t = Open peer enrolled cert \<Longrightarrow>
    admit limit peer enrolled cert evs (ig_collector s) = Inl (r, st') \<Longrightarrow>
    ingest_step limit s (set_connection t Closed (s\<lparr>ig_collector := st'\<rparr>))"
| Admit: "ig_connection s t = Open peer enrolled cert \<Longrightarrow>
    admit limit peer enrolled cert evs (ig_collector s) = Inr (cn, event, st') \<Longrightarrow>
    ingest_step limit s (set_connection t (Admitted peer cn event)
      (s\<lparr>ig_collector := st', ig_reserved := ig_reserved s @ [event_key cn event]\<rparr>))"
| Handoff: "ig_connection s t = Admitted peer cn event \<Longrightarrow>
    hand_off env peer cn event (ig_collector s) = (r, st') \<Longrightarrow>
    ingest_step limit s (set_connection t Closed (s\<lparr>ig_collector := st',
      ig_accepted := (if is_accepted (r, st') then ig_accepted s @ [event_key cn event] else ig_accepted s)\<rparr>))"

definition init_ingest :: "pystr list \<Rightarrow> bytestr option \<Rightarrow> ingest" where
  "init_ingest nodes f =
     \<lparr>ig_enrolled = nodes, ig_collector = \<lparr>co_last = (\<lambda>_. None), co_chain = f, co_log = []\<rparr>,
      ig_connection = (\<lambda>_. Unopened), ig_reserved = [], ig_accepted = []\<rparr>"

inductive ingest_reachable :: "nat \<Rightarrow> pystr list \<Rightarrow> bytestr option \<Rightarrow> ingest \<Rightarrow> bool" for limit nodes f where
  Start: "ingest_reachable limit nodes f (init_ingest nodes f)"
| Step: "ingest_reachable limit nodes f s \<Longrightarrow> ingest_step limit s s' \<Longrightarrow> ingest_reachable limit nodes f s'"

inductive_cases ingest_stepE: "ingest_step limit s s'"

section \<open>The invariant\<close>

definition pending_key :: "connection \<Rightarrow> (pystr \<times> int) option" where
  "pending_key c = (case c of Admitted peer cn event \<Rightarrow> Some (event_key cn event) | _ \<Rightarrow> None)"

definition ingest_inv :: "ingest \<Rightarrow> bool" where
  "ingest_inv s \<longleftrightarrow>
     register.consistent (co_last (ig_collector s)) (ig_reserved s) \<and>
     set (ig_accepted s) \<subseteq> set (ig_reserved s) \<and> distinct (ig_accepted s) \<and>
     (\<forall>t k. pending_key (ig_connection s t) = Some k \<longrightarrow> k \<in> set (ig_reserved s) \<and> k \<notin> set (ig_accepted s)) \<and>
     (\<forall>t u k. t \<noteq> u \<longrightarrow> pending_key (ig_connection s t) = Some k \<longrightarrow> pending_key (ig_connection s u) \<noteq> Some k)"

lemma set_connection_simps [simp]:
  "ig_connection (set_connection t c s) u = (if u = t then c else ig_connection s u)"
  "ig_collector (set_connection t c s) = ig_collector s" "ig_reserved (set_connection t c s) = ig_reserved s"
  "ig_accepted (set_connection t c s) = ig_accepted s" "ig_enrolled (set_connection t c s) = ig_enrolled s"
  by (simp_all add: set_connection_def)

lemma pending_simps [simp]:
  "pending_key Unopened = None" "pending_key (Open peer enrolled cert) = None" "pending_key Closed = None"
  "pending_key (Admitted peer cn event) = Some (event_key cn event)"
  by (simp_all add: pending_key_def)

lemma hand_off_keeps: "hand_off env peer cn event st = (r, st') \<Longrightarrow> co_last st' = co_last st"
  by (auto simp: hand_off_def reject_tls_socket_def decision_def split: prod.splits sum.splits)

lemma ingest_step_inv:
  assumes "ingest_step limit s s'" and inv: "ingest_inv s"
  shows "ingest_inv s'"
  using assms(1)
proof (cases rule: ingest_step.cases)
  case (Connect t peer cert)
  with inv show ?thesis by (auto simp: ingest_inv_def)
next
  case (Reload yaml nodes)
  with inv show ?thesis by (simp add: ingest_inv_def)
next
  case (Refuse t peer enrolled cert evs r st')
  with inv admit_Inl_keeps(1) [OF Refuse(3)] show ?thesis by (auto simp: ingest_inv_def)
next
  case (Admit t peer enrolled cert evs cn event st')
  obtain reg' where r: "reserve_sequence cn (int_item event ''sequence_number'') (co_last (ig_collector s)) = (False, reg')"
    "co_last st' = reg'"
    using admit_Inr(6) [OF Admit(3)] by auto
  have c: "register.consistent (co_last (ig_collector s)) (ig_reserved s)" using inv by (simp add: ingest_inv_def)
  have "event_key cn event \<notin> set (ig_reserved s)"
    using register.consistent_fresh [OF c r(1)] by (simp add: event_key_def)
  moreover have "register.consistent reg' (ig_reserved s @ [event_key cn event])"
    using register.consistent_reserve [OF c r(1)] by (simp add: event_key_def)
  ultimately show ?thesis using inv Admit(1) r(2) by (auto simp: ingest_inv_def)
next
  case (Handoff t peer cn event env r st')
  have k: "event_key cn event \<in> set (ig_reserved s)" "event_key cn event \<notin> set (ig_accepted s)"
    using inv Handoff(2) unfolding ingest_inv_def by (metis pending_simps(4))+
  have others: "pending_key (ig_connection s u) \<noteq> Some (event_key cn event)" if "u \<noteq> t" for u
    using inv Handoff(2) that unfolding ingest_inv_def by (metis pending_simps(4))
  show ?thesis using inv Handoff(1) k others hand_off_keeps [OF Handoff(3)]
    by (auto simp: ingest_inv_def)
qed

lemma ingest_reachable_inv: "ingest_reachable limit nodes f s \<Longrightarrow> ingest_inv s"
proof (induction rule: ingest_reachable.induct)
  case Start
  then show ?case
    by (simp add: ingest_inv_def init_ingest_def register.consistent_def register.numbers_def)
next
  case (Step s s')
  then show ?case by (blast intro: ingest_step_inv)
qed

end
