(* ===== verification/Collector_Properties.thy ===== *)
theory Collector_Properties
  imports Collector_Processes Forensic_Properties
begin

text \<open>
  The properties of the ingest server: framing, authentication, replay protection, the handoff to the
  forensic chain and several connections at once.
\<close>

section \<open>Samples and lemmas\<close>

definition sample_payload :: pydict where
  "sample_payload =
     [(KStr (lit ''schema_version''), PStr (lit ''0.1'')),
      (KStr (lit ''node_id''), PStr (lit ''node-1'')),
      (KStr (lit ''timestamp_utc''), PStr (lit ''2026-01-31T23:59:59.250000Z'')),
      (KStr (lit ''csi_window_sha256''), PStr (replicate 64 97)),
      (KStr (lit ''sequence_number''), PInt 7)]"

definition sample_handoff :: handoff_env where
  "sample_handoff = \<lparr>ho_key_path = True, ho_load_key = None, ho_log = sample_env\<rparr>"

definition sample_cert :: certificate where
  "sample_cert = [[(lit ''organizationName'', PStr (lit ''Vestrix''))], [(lit ''commonName'', PStr (lit ''node-1''))]]"

definition sample_collector :: collector where
  "sample_collector = \<lparr>co_last = (\<lambda>_. None), co_chain = None, co_log = []\<rparr>"

text \<open>The bytes of the sample payload and a line feed.\<close>

definition sample_stream :: "recv_event list" where
  "sample_stream = [Chunk (the (canon_enc (PDict sample_payload)) @ [LF])]"

lemma sample_payload_wf: "wf_val (PDict sample_payload)"
  by (simp add: sample_payload_def wf_str_def list_all_iff lit_def wf_val_PDict)

lemma sample_payload_ok: "payload_ok sample_payload"
proof -
  have "utc_shape (Some 9) (lit ''2026-01-31T23:59:59.250000Z'')"
    by (simp add: utc_shape_def lit_Cons is_nd_def nd_zeros_def)
  then have "payload_time_ok (PStr (lit ''2026-01-31T23:59:59.250000Z''))"
    using sample_time by (simp add: payload_time_ok_def)
  moreover have "is_node_id (lit ''node-1'')"
    by (simp add: is_node_id_def lit_Cons is_alnum_def is_node_char_def)
  ultimately show ?thesis
    by (auto simp: payload_ok_def sample_payload_def dkeys_def named_keys_def PAYLOAD_FIELDS_def dget_def
        item_ok_def payload_node_ok_def is_hash_text_def list_all_iff is_hex_def
        payload_sequence_ok_def MAX_SEQUENCE_NUMBER_def)
qed

lemma norm_dict_facts:
  assumes "distinct (map fst d)"
  shows "int_item (norm_dict d) k = int_item d k"
proof -
  have "(case norm_val v of PInt n \<Rightarrow> n | _ \<Rightarrow> 0) = (case v of PInt n \<Rightarrow> n | _ \<Rightarrow> 0)" for v by (cases v) simp_all
  then show ?thesis by (simp add: int_item_def dget_norm_dict [OF assms] split: option.splits)
qed

lemma payload_ok_norm:
  assumes "payload_ok d" and "distinct (map fst d)"
  shows "payload_ok (norm_dict d)"
proof -
  have p: "payload_node_ok (norm_val v) = payload_node_ok v" "payload_time_ok (norm_val v) = payload_time_ok v"
    "payload_sequence_ok (norm_val v) = payload_sequence_ok v" for v
    by (cases v; simp add: payload_node_ok_def payload_time_ok_def payload_sequence_ok_def)+
  note i = item_ok_norm [OF assms(2)]
  show ?thesis using assms(1)
    by (simp add: payload_ok_def i [of payload_node_ok, OF p(1)] i [of payload_time_ok, OF p(2)]
        i [of hash_ok, OF norm_scalar(2)] i [of payload_sequence_ok, OF p(3)] dget_norm_dict [OF assms(2)])
qed

lemma response_status: "response ''accepted'' r \<noteq> response ''rejected'' r'"
proof -
  have "response ''accepted'' r ! 11 = byte_of 97" "response ''rejected'' r' ! 11 = byte_of 114"
    by (simp_all add: response_def quote_ascii_def escape_ascii_def escape_char_def lit_def)
  moreover have "byte_of 97 \<noteq> byte_of 114" by (simp add: byte_of_eq_iff)
  ultimately show ?thesis by metis
qed

lemma plain_sample:
  obtains bs where "canon_enc (PDict sample_payload) = Some bs" "plain_stream sample_stream"
    "stream_bytes sample_stream = bs @ [LF]" "LF \<notin> set bs" "bs \<noteq> []" "length bs < 2 ^ 20"
proof -
  have "json_ok (PDict sample_payload)"
    using sample_time by (simp add: sample_payload_def lit_def is_surrogate_def list_ex_iff)
  then obtain bs where bs: "canon_enc (PDict sample_payload) = Some bs" using json_ok_enc sample_payload_wf by blast
  have "length (int_text 7) = 1" by (simp add: int_text_def dec.simps)
  moreover have "is_flat (snd kv)" if "kv \<in> set sample_payload" for kv
    using that by (auto simp: sample_payload_def is_flat_def)
  ultimately have "length bs < 2 ^ 20"
    using flat_line_length [OF bs sample_payload_wf] by (simp add: sample_payload_def val_bound_def)
  with canon_enc_no_lf [OF bs sample_payload_wf] bs that show thesis
    by (simp add: sample_stream_def plain_stream_def stream_bytes_def LF_def)
qed

section \<open>Framing\<close>

text \<open>
  C17. The line read depends only on the bytes of the stream, not on how the socket delivers them: it is
  the text before the first LF, and a longer line, a missing LF, an empty line and a text that is not
  UTF-8 are each reported as such.
\<close>

theorem line_independent_of_pieces:
  assumes "plain_stream evs"
  shows "read_json_line evs limit = line_spec limit (stream_bytes evs)"
  using assms by (rule read_json_line_spec)

theorem line_independent_of_pieces_witness:
  "read_json_line [Chunk [byte_of 49], Chunk [byte_of 50, LF, byte_of 51]] 2 = Inr [49, 50] \<and>
   read_json_line [Chunk [byte_of 49, byte_of 50], Chunk [byte_of 51, LF]] 2 = Inl PayloadTooLarge"
proof -
  have ne: "byte_of 49 \<noteq> LF" "byte_of 50 \<noteq> LF" "byte_of 51 \<noteq> LF" by (simp_all add: LF_def byte_of_eq_iff)
  show ?thesis
    using line_independent_of_pieces [of "[Chunk [byte_of 49], Chunk [byte_of 50, LF, byte_of 51]]" 2]
      line_independent_of_pieces [of "[Chunk [byte_of 49, byte_of 50], Chunk [byte_of 51, LF]]" 2] ne
    by (simp add: plain_stream_def stream_bytes_def line_spec_def)
qed

section \<open>Accepted events\<close>

lemma handle_accepted:
  assumes "is_accepted (handle_tls_socket limit env peer enrolled cert evs st)"
  obtains cn event st1 f' where "admit limit peer enrolled cert evs st = Inr (cn, event, st1)"
    "collector_log_event env event (co_chain st) = (Inr (), f')"
    "co_last (snd (handle_tls_socket limit env peer enrolled cert evs st)) = co_last st1"
    "co_chain (snd (handle_tls_socket limit env peer enrolled cert evs st)) = f'"
proof (cases "admit limit peer enrolled cert evs st")
  case (Inl out)
  then have "\<not> is_accepted out"
    using response_status
    by (auto simp: admit_def is_accepted_def reject_tls_socket_def
        split: list.splits if_splits sum.splits prod.splits option.splits) metis+
  with assms Inl show thesis by (simp add: handle_tls_socket_def)
next
  case (Inr a)
  then obtain cn event st1 where a: "admit limit peer enrolled cert evs st = Inr (cn, event, st1)" by (cases a) auto
  have ch: "co_chain st1 = co_chain st" using admit_Inr(6) [OF a] by auto
  obtain r f' where r: "collector_log_event env event (co_chain st) = (r, f')" by fastforce
  have "r = Inr ()"
    using assms a r ch response_status
    by (cases r) (auto simp: handle_tls_socket_def hand_off_def is_accepted_def reject_tls_socket_def, metis)
  with a r ch show thesis
    by (intro that [of cn event st1 f'])
      (auto simp: handle_tls_socket_def hand_off_def decision_def)
qed

lemma payload_sequence:
  assumes "payload_ok event"
  shows "dget event ''sequence_number'' = Some (PInt (int_item event ''sequence_number''))"
    "0 \<le> int_item event ''sequence_number''" "int_item event ''sequence_number'' < 2 ^ 64"
  using assms
  by (auto simp: payload_ok_def item_ok_def int_item_def payload_sequence_ok_def MAX_SEQUENCE_NUMBER_def
      split: option.splits pyval.splits)

lemma field_flat:
  "payload_node_ok v \<Longrightarrow> is_flat v" "payload_time_ok v \<Longrightarrow> is_flat v"
  "payload_sequence_ok v \<Longrightarrow> is_flat v" "hash_ok v \<Longrightarrow> is_flat v"
  by (cases v; simp add: is_flat_def payload_node_ok_def payload_time_ok_def payload_sequence_ok_def)+

lemma payload_flat: "payload_ok d \<Longrightarrow> k \<in> set PAYLOAD_FIELDS \<Longrightarrow> item_ok d k is_flat"
  by (auto simp: payload_ok_def PAYLOAD_FIELDS_def elim!: item_ok_mono intro: field_flat)
    (simp add: item_ok_def is_flat_def)

lemma collector_log_success:
  assumes "collector_log_event env event f = (Inr (), f')" and "payload_ok event" and "wf_val (PDict event)"
    and "length (file_bytes f) < 2 ^ 63"
  obtains ds d where "is_chain f ds" "is_chain f' (ds @ [d])"
    "dget d ''node_id'' = dget event ''node_id''" "dget d ''ts_utc'' = dget event ''timestamp_utc''"
    "dget d ''raw_csi_hash'' = dget event ''csi_window_sha256''"
    "dget d ''collector_sequence_number'' = dget event ''sequence_number''"
proof -
  obtain r where log: "log_event (PDict (forensic_event event)) (ho_log env) f = (Inr r, f')"
    using assms(1) by (auto simp: collector_log_event_def split: if_splits option.splits prod.splits sum.splits)
  have wf: "wf_val (PDict (forensic_event event))" using assms(2,3) by (rule forensic_event_wf)
  obtain ds ev where ds: "is_chain f ds" "is_chain f' (ds @ [norm_dict r])"
    using log_event_returns_size [OF log wf assms(4)] by metis
  have dist: "distinct (map fst r)" using log wf by (rule log_event_distinct)
  have r: "dget r k = dget (forensic_event event) k" if "k \<notin> set MANAGED_FIELDS" for k
    using log that
    by (auto elim!: log_event_parts build_record_parts simp: signed_record_def unsigned_record_def MANAGED_FIELDS_def)
  have some: "dget event k = Some (ditem_or_none event k)" if "k \<in> set PAYLOAD_FIELDS" for k
    using that assms(2) dget_None_iff [of event k]
    by (auto simp: payload_ok_def named_keys_def ditem_or_none_def split: option.splits)
  have n: "norm_val (ditem_or_none event k) = ditem_or_none event k" if "k \<in> set PAYLOAD_FIELDS" for k
    using item_ok_or_none [OF payload_flat [OF assms(2) that]]
    by (auto simp: is_flat_def split: pyval.splits)
  show thesis
    using ds by (rule that)
      (simp_all add: dget_norm_dict [OF dist] r MANAGED_FIELDS_def forensic_event_dget some n PAYLOAD_FIELDS_def)
qed

lemma sample_read:
  "read_event (2 ^ 20) sample_stream = Inr (norm_dict sample_payload)"
proof -
  obtain bs where bs: "canon_enc (PDict sample_payload) = Some bs" "plain_stream sample_stream"
    "stream_bytes sample_stream = bs @ [LF]" "LF \<notin> set bs" "bs \<noteq> []" "length bs < 2 ^ 20"
    by (rule plain_sample)
  obtain t where t: "canon_text (PDict sample_payload) = Some t" "scalar_str t" "bs = concat (map utf8_char t)"
    using bs(1) sample_payload_wf by (rule canon_enc_textD)
  have "takeWhile (\<lambda>b. b \<noteq> LF) (bs @ [LF]) = bs" using bs(4) takeWhile_no_LF [of bs "[LF]"] by simp
  then have "read_json_line sample_stream (2 ^ 20) = Inr t"
    using read_json_line_spec [OF bs(2), of "2 ^ 20"] bs(3,5,6) t(2,3)
    by (simp add: line_spec_def decode_concat_utf8)
  moreover have "loads_text t = Inr (PDict (norm_dict sample_payload))"
    using loads_text_canon [OF t(1) sample_payload_wf] by (simp add: norm_val_PDict del: norm_val.simps)
  moreover have "validate_payload (PDict (norm_dict sample_payload)) = Inr (norm_dict sample_payload)"
    using payload_ok_norm [OF sample_payload_ok] sample_payload_wf by (simp add: validate_payload_iff wf_val_PDict)
  ultimately show ?thesis by (simp add: read_event_def)
qed

lemma sample_admit:
  "\<exists>st. admit (2 ^ 20) peer [lit ''node-1''] sample_cert sample_stream sample_collector =
    Inr (lit ''node-1'', norm_dict sample_payload, st) \<and> co_chain st = None"
proof -
  have d: "distinct (map fst sample_payload)" using sample_payload_wf by (simp add: wf_val_PDict)
  have "str_item (norm_dict sample_payload) ''node_id'' = lit ''node-1''"
    using str_item_norm [OF d] by (simp add: str_item_def sample_payload_def dget_def)
  moreover have "certificate_common_names sample_cert = [lit ''node-1'']"
    by (simp add: certificate_common_names_def sample_cert_def)
  ultimately show ?thesis using sample_read
    by (simp add: admit_def compare_digest_def list_all_iff lit_def sample_collector_def reserve_sequence_def)
qed

lemma sample_handoff_ok:
  "\<exists>f'. collector_log_event sample_handoff (norm_dict sample_payload) None = (Inr (), f')"
proof -
  let ?p = "norm_dict sample_payload"
  have d: "distinct (map fst sample_payload)" using sample_payload_wf by (simp add: wf_val_PDict)
  have p: "payload_ok ?p" using payload_ok_norm [OF sample_payload_ok d] .
  have wf: "wf_val (PDict ?p)"
    using wf_val_norm [OF sample_payload_wf] by (simp add: norm_val_PDict del: norm_val.simps)
  have "ditem_or_none ?p ''sequence_number'' = PInt 7"
    by (simp add: ditem_or_none_def dget_norm_dict [OF d]) (simp add: dget_def sample_payload_def)
  then have ok: "event_ok (forensic_event ?p)" using forensic_event_ok [OF p] by simp
  obtain r where "log_event (PDict (forensic_event ?p)) sample_env None = (Inr r, Some (file_of ([] @ [norm_dict r])))"
    by (rule log_event_succeeds [OF empty_chain(1) _ ok forensic_event_wf [OF p wf], of sample_env])
      (simp_all add: chain_version_ok_def)
  then show ?thesis by (simp add: collector_log_event_def sample_handoff_def)
qed

lemma sample_accepted:
  "is_accepted (handle_tls_socket (2 ^ 20) sample_handoff (lit ''peer'') [lit ''node-1''] sample_cert
     sample_stream sample_collector)"
proof -
  obtain st where "admit (2 ^ 20) (lit ''peer'') [lit ''node-1''] sample_cert sample_stream sample_collector =
      Inr (lit ''node-1'', norm_dict sample_payload, st)" "co_chain st = None"
    using sample_admit by blast
  then show ?thesis using sample_handoff_ok by (auto simp: handle_tls_socket_def hand_off_def is_accepted_def)
qed

text \<open>
  C3. An accepted event is authenticated, fresh and in the chain. When the handler answers accepted, the
  certificate has exactly one common name, it is enrolled and equals the node id of the payload; the
  sequence number is above the last one of that node and recorded; and the forensic chain got exactly one
  new record, with the node, time, digest and sequence number of the payload.
\<close>

theorem accepted_event_recorded:
  assumes "is_accepted (handle_tls_socket limit env peer enrolled cert evs st)"
    and "length (file_bytes (co_chain st)) < 2 ^ 63"
    and "st' = snd (handle_tls_socket limit env peer enrolled cert evs st)"
  shows "\<exists>cn event. certificate_common_names cert = [cn] \<and> cn \<in> set enrolled \<and>
    read_event limit evs = Inr event \<and> dget event ''node_id'' = Some (PStr cn) \<and>
    (\<exists>n. dget event ''sequence_number'' = Some (PInt n) \<and> co_last st' cn = Some n \<and>
      (\<forall>p. co_last st cn = Some p \<longrightarrow> p < n)) \<and>
    (\<exists>ds d. is_chain (co_chain st) ds \<and> is_chain (co_chain st') (ds @ [d]) \<and>
      dget d ''node_id'' = dget event ''node_id'' \<and> dget d ''ts_utc'' = dget event ''timestamp_utc'' \<and>
      dget d ''raw_csi_hash'' = dget event ''csi_window_sha256'' \<and>
      dget d ''collector_sequence_number'' = dget event ''sequence_number'')"
proof -
  obtain cn event st1 f' where a: "admit limit peer enrolled cert evs st = Inr (cn, event, st1)"
    "collector_log_event env event (co_chain st) = (Inr (), f')" "co_last st' = co_last st1" "co_chain st' = f'"
    using handle_accepted [OF assms(1)] assms(3) by metis
  note adm = admit_Inr [OF a(1)]
  obtain reg' where r: "reserve_sequence cn (int_item event ''sequence_number'') (co_last st) = (False, reg')"
    "co_last st1 = reg'"
    using adm(6) by auto
  have n: "dget event ''sequence_number'' = Some (PInt (int_item event ''sequence_number''))"
    "co_last st' cn = Some (int_item event ''sequence_number'')"
    "\<forall>p. co_last st cn = Some p \<longrightarrow> p < int_item event ''sequence_number''"
    using payload_sequence(1) [OF adm(4)] register.reserve_new [OF r(1)] register.reserve_greater [OF r(1)] r(2) a(3)
    by simp_all
  obtain ds d where "is_chain (co_chain st) ds" "is_chain f' (ds @ [d])"
    "dget d ''node_id'' = dget event ''node_id''" "dget d ''ts_utc'' = dget event ''timestamp_utc''"
    "dget d ''raw_csi_hash'' = dget event ''csi_window_sha256''"
    "dget d ''collector_sequence_number'' = dget event ''sequence_number''"
    using collector_log_success [OF a(2) adm(4) read_event_wf [OF adm(3)] assms(2)] .
  with adm n a(4) show ?thesis by blast
qed

theorem accepted_event_recorded_witness:
  "\<exists>cn event. certificate_common_names sample_cert = [cn] \<and> cn \<in> set [lit ''node-1''] \<and>
    read_event (2 ^ 20) sample_stream = Inr event \<and> dget event ''node_id'' = Some (PStr cn)"
  using accepted_event_recorded [OF sample_accepted _ refl]
  by (auto simp: sample_collector_def file_bytes_def)

section \<open>Decisions\<close>

lemma admit_decides:
  assumes "admit limit peer enrolled cert evs st = Inl (r, st')"
  shows "(r = Inl TlsValueError \<or> r = Inl TlsTypeError) \<and> st' = st \<or>
    (\<exists>reason flds. reject_tls_socket reason flds st = (r, st'))"
  using assms
  by (auto simp: admit_def compare_digest_def split: list.splits if_splits sum.splits prod.splits option.splits)

lemma hand_off_decides:
  assumes "hand_off env peer cn event st = (r, st')"
  obtains e f' where "collector_log_event env event (co_chain st) = (Inl e, f')"
    "\<exists>flds. reject_tls_socket (lit ''forensics_handoff_failed'') flds (st\<lparr>co_chain := f'\<rparr>) = (r, st')"
  | f' where "collector_log_event env event (co_chain st) = (Inr (), f')"
    "r = Inr (response ''accepted'' (lit ''authenticated_event_handed_off''))"
    "\<exists>flds. st' = decision ''accept'' (lit ''authenticated_event_handed_off'') flds (st\<lparr>co_chain := f'\<rparr>)"
proof (cases "collector_log_event env event (co_chain st)")
  case (Pair res f')
  with assms that show thesis by (cases res) (auto simp: hand_off_def)
qed

text \<open>
  C12. Every connection is decided exactly once. Whatever the peer sends and whatever fails, the log gets one
  entry: it says accept exactly when the hand-off to the forensic chain returned, and then the answer says accepted. A
  rejection before the reservation leaves the register and the chain as they were.
\<close>

theorem every_connection_decided:
  assumes "handle_socket limit env peer enrolled handshake evs st = (answer, st')"
  shows "\<exists>en. co_log st' = co_log st @ [en] \<and> en_decision en \<in> {''accept'', ''reject''} \<and>
    (en_decision en = ''accept'' \<longleftrightarrow> answer = Some (response ''accepted'' (lit ''authenticated_event_handed_off''))) \<and>
    (en_decision en = ''accept'' \<longleftrightarrow> (\<exists>cert cn event st1. handshake = Inr cert \<and>
       admit limit peer enrolled cert evs st = Inr (cn, event, st1) \<and>
       collector_log_event env event (co_chain st) = (Inr (), co_chain st'))) \<and>
    ((\<forall>cert. handshake = Inr cert \<longrightarrow> (\<exists>out. admit limit peer enrolled cert evs st = Inl out)) \<longrightarrow>
       co_last st' = co_last st \<and> co_chain st' = co_chain st)"
proof (cases handshake)
  case (Inl name)
  with assms show ?thesis by (auto simp: handle_socket_def decision_def)
next
  case (Inr cert)
  show ?thesis
  proof (cases "admit limit peer enrolled cert evs st")
    case a: (Inl out)
    obtain r s where out: "out = (r, s)" by (cases out)
    from admit_decides [OF a [unfolded out]] show ?thesis
      using assms Inr a out response_status
      by (auto simp: handle_socket_def handle_tls_socket_def reject_tls_socket_def decision_def) metis+
  next
    case a: (Inr x)
    obtain cn event st1 where x: "x = (cn, event, st1)" by (cases x)
    have st1: "co_chain st1 = co_chain st" "co_log st1 = co_log st" using admit_Inr(6) [OF a [unfolded x]] by auto
    obtain r s where h: "hand_off env peer cn event st1 = (r, s)" by fastforce
    have eq: "handle_socket limit env peer enrolled handshake evs st = (case r of
        Inr resp \<Rightarrow> (Some resp, s) | Inl e \<Rightarrow> handle_socket limit env peer enrolled handshake evs st)"
      using Inr a x h by (auto simp: handle_socket_def handle_tls_socket_def split: sum.splits)
    show ?thesis
      using h
    proof (cases rule: hand_off_decides)
      case (1 e f')
      then show ?thesis using assms Inr a x st1 eq response_status
        by (auto simp: reject_tls_socket_def decision_def)
    next
      case (2 f')
      then show ?thesis using assms Inr a x st1 eq by (auto simp: decision_def)
    qed
  qed
qed

theorem every_connection_decided_witness:
  "\<exists>en. co_log (snd (handle_socket 5 sample_handoff [] [] (Inl ''SSLError'') [] sample_collector)) = [en] \<and>
    co_chain (snd (handle_socket 5 sample_handoff [] [] (Inl ''SSLError'') [] sample_collector)) = None"
  using every_connection_decided [OF prod.collapse [symmetric], of 5 sample_handoff "[]" "[]" "Inl ''SSLError''" "[]" sample_collector]
  by (auto simp: sample_collector_def)

section \<open>Replays\<close>

lemma hand_off_admitted:
  "admit limit peer enrolled cert evs st = Inr (cn, event, st1) \<Longrightarrow>
    handle_tls_socket limit env peer enrolled cert evs st = hand_off env peer cn event st1"
  by (simp add: handle_tls_socket_def)

text \<open>
  C6. No event is accepted twice, and the numbers of each node increase in the order they were reserved,
  however the threads of the connections interleave and whatever the handoffs do.
\<close>

theorem no_event_accepted_twice:
  assumes "ingest_reachable limit nodes f s"
  shows "distinct (ig_accepted s) \<and> set (ig_accepted s) \<subseteq> set (ig_reserved s) \<and>
    (\<forall>cn. sorted_wrt (<) (map snd (filter (\<lambda>x. fst x = cn) (ig_reserved s))))"
  using ingest_reachable_inv [OF assms]
  by (simp add: ingest_inv_def register.consistent_def register.numbers_def)

theorem no_event_accepted_twice_witness:
  "\<exists>s. ingest_reachable (2 ^ 20) [lit ''node-1''] None s \<and> length (ig_accepted s) = 1 \<and> distinct (ig_accepted s)"
proof -
  let ?s0 = "init_ingest [lit ''node-1''] None"
  have col: "ig_collector ?s0 = sample_collector" "ig_enrolled ?s0 = [lit ''node-1'']" "ig_accepted ?s0 = []"
    by (simp_all add: init_ingest_def sample_collector_def)
  define s1 where "s1 = set_connection 0 (Open [] [lit ''node-1''] sample_cert) ?s0"
  have 1: "ingest_step (2 ^ 20) ?s0 s1"
    using ingest_step.Connect [of ?s0 0 "2 ^ 20" "[]" sample_cert] by (simp add: s1_def col(2)) (simp add: init_ingest_def)
  obtain st where a: "admit (2 ^ 20) [] [lit ''node-1''] sample_cert sample_stream (ig_collector s1) =
      Inr (lit ''node-1'', norm_dict sample_payload, st)" "co_chain st = None"
    using sample_admit by (auto simp: s1_def col)
  define k where "k = event_key (lit ''node-1'') (norm_dict sample_payload)"
  define s2 where "s2 = set_connection 0 (Admitted [] (lit ''node-1'') (norm_dict sample_payload))
    (s1\<lparr>ig_collector := st, ig_reserved := ig_reserved s1 @ [k]\<rparr>)"
  have 2: "ingest_step (2 ^ 20) s1 s2"
    unfolding s2_def k_def by (rule ingest_step.Admit [OF _ a(1)]) (simp add: s1_def)
  obtain r st3 where h: "hand_off sample_handoff [] (lit ''node-1'') (norm_dict sample_payload) st = (r, st3)" by fastforce
  obtain f' where "collector_log_event sample_handoff (norm_dict sample_payload) None = (Inr (), f')"
    using sample_handoff_ok by blast
  then have acc: "is_accepted (r, st3)" using h a(2) by (auto simp: hand_off_def is_accepted_def)
  have h2: "hand_off sample_handoff [] (lit ''node-1'') (norm_dict sample_payload) (ig_collector s2) = (r, st3)"
    using h by (simp add: s2_def)
  define s3 where "s3 = set_connection 0 Closed (s2\<lparr>ig_collector := st3, ig_accepted := [k]\<rparr>)"
  have "ig_accepted s2 = []" by (simp add: s2_def s1_def col(3))
  then have 3: "ingest_step (2 ^ 20) s2 s3"
    using ingest_step.Handoff [OF _ h2, of 0 "2 ^ 20"] acc by (simp add: s3_def k_def) (simp add: s2_def)
  have r: "ingest_reachable (2 ^ 20) [lit ''node-1''] None s3"
    using ingest_reachable.Step [OF ingest_reachable.Step [OF ingest_reachable.Step [OF ingest_reachable.Start 1] 2] 3] .
  moreover have "length (ig_accepted s3) = 1" by (simp add: s3_def)
  ultimately show ?thesis using no_event_accepted_twice [OF r] by blast
qed

text \<open>
  A failed handoff consumes the sequence number: once an event has been admitted, sending it again with
  the same certificate is never accepted and changes neither the register nor the chain, whatever became of the
  handoff.
\<close>

theorem admitted_event_is_consumed:
  assumes "admit limit peer enrolled cert evs st = Inr (cn, event, st1)"
    and "handle_tls_socket limit env peer enrolled cert evs st = (r, st')"
    and "read_event limit evs2 = Inr event"
  shows "\<not> is_accepted (handle_tls_socket limit env2 peer2 enrolled2 cert evs2 st') \<and>
    co_last (snd (handle_tls_socket limit env2 peer2 enrolled2 cert evs2 st')) = co_last st' \<and>
    co_chain (snd (handle_tls_socket limit env2 peer2 enrolled2 cert evs2 st')) = co_chain st'"
proof -
  note a = admit_Inr [OF assms(1)]
  let ?n = "int_item event ''sequence_number''"
  obtain reg' where r: "reserve_sequence cn ?n (co_last st) = (False, reg')" "st1 = st\<lparr>co_last := reg'\<rparr>"
    using a(6) by auto
  have "co_last st' = reg'"
    using assms(2) hand_off_keeps r(2) hand_off_admitted [OF assms(1)] by fastforce
  then have used: "co_last st' cn = Some ?n" using register.reserve_new [OF r(1)] by simp
  obtain out where out: "admit limit peer2 enrolled2 cert evs2 st' = Inl out"
  proof (cases "admit limit peer2 enrolled2 cert evs2 st'")
    case (Inr x)
    obtain cn2 event2 st2 where x: "x = (cn2, event2, st2)" by (cases x)
    note b = admit_Inr [OF Inr [unfolded x]]
    have same: "cn2 = cn" "event2 = event" using a(1) b(1,3) assms(3) by simp_all
    with b(6) used register.reserve_greater show thesis by fastforce
  qed
  then show ?thesis
    using admit_Inl_keeps [of limit peer2 enrolled2 cert evs2 st' "fst out" "snd out"]
      handle_accepted [of limit env2 peer2 enrolled2 cert evs2 st']
    by (auto simp: handle_tls_socket_def)
qed

theorem admitted_event_is_consumed_witness:
  "\<not> is_accepted (handle_tls_socket (2 ^ 20) sample_handoff [] [lit ''node-1''] sample_cert sample_stream
     (snd (handle_tls_socket (2 ^ 20) (sample_handoff\<lparr>ho_key_path := False\<rparr>) [] [lit ''node-1''] sample_cert
        sample_stream sample_collector)))"
  using sample_admit admitted_event_is_consumed [OF _ prod.collapse [symmetric] sample_read] by blast

text \<open>
  C25. A node can lock itself out. The ingest schema takes sequence numbers up to \<open>2 ^ 64 - 1\<close> and the forensic
  format only those below \<open>2 ^ 63\<close>. Once a number of at least \<open>2 ^ 63 - 1\<close> has been reserved for a node, no
  later event of that node is accepted, because the reservation is made before the handoff that refuses it.
\<close>

theorem huge_sequence_locks_node_out:
  assumes "co_last st cn = Some n" and "2 ^ 63 - 1 \<le> n" and "certificate_common_names cert = [cn]"
  shows "\<not> is_accepted (handle_tls_socket limit env peer enrolled cert evs st)"
proof
  assume "is_accepted (handle_tls_socket limit env peer enrolled cert evs st)"
  then obtain cn2 event st1 f' where a: "admit limit peer enrolled cert evs st = Inr (cn2, event, st1)"
    "collector_log_event env event (co_chain st) = (Inr (), f')"
    by (rule handle_accepted)
  note adm = admit_Inr [OF a(1)]
  have "cn2 = cn" using adm(1) assms(3) by simp
  then have "n < int_item event ''sequence_number''" using adm(6) assms(1) register.reserve_greater by blast
  moreover obtain d where "log_event (PDict (forensic_event event)) (ho_log env) (co_chain st) = (Inr d, f')"
    using a(2) by (auto simp: collector_log_event_def split: if_splits option.splits prod.splits sum.splits)
  then have "event_ok (forensic_event event)" by (auto elim: log_event_parts)
  then have "int_item event ''sequence_number'' < 2 ^ 63"
    using forensic_event_ok [OF adm(4)] payload_sequence(1) [OF adm(4)] by (simp add: ditem_or_none_def)
  ultimately show False using assms(2) by simp
qed

theorem huge_sequence_locks_node_out_witness:
  "\<not> is_accepted (handle_tls_socket (2 ^ 20) sample_handoff [] [lit ''node-1''] sample_cert sample_stream
     (sample_collector\<lparr>co_last := [lit ''node-1'' \<mapsto> 2 ^ 64 - 1]\<rparr>))"
  by (rule huge_sequence_locks_node_out [of _ "lit ''node-1''" "2 ^ 64 - 1"])
    (simp_all add: certificate_common_names_def sample_cert_def)

end
