(* ===== verification/Anchor.thy ===== *)
theory Anchor
  imports Chain_Store
begin

text \<open>
  The OpenTimestamps adapter of \<^verbatim>\<open>src/forensics/anchor.py\<close>. The opentimestamps library and the calendar
  servers are arguments: the record \<open>ots\<close> holds the library functions the adapter calls, \<open>client\<close> the pinned
  client. A timestamp is the tree of the attributes the adapter reads. The proof file is written by a
  sequence of file operations, so that what a crash leaves behind is the result of a prefix of them.
\<close>

section \<open>Exceptions\<close>

text \<open>An exception is its class and its text.\<close>

datatype exn_class =
    AnchorIntegrityError
  | AnchorTransientError
  | AnchorConfigurationError
  | PyError string

datatype py_exn = PyExn exn_class pystr

abbreviation py_error :: "string \<Rightarrow> string \<Rightarrow> py_exn" where
  "py_error cls msg \<equiv> PyExn (PyError cls) (lit msg)"

section \<open>Timestamps\<close>

datatype ots_op = OpAppend bytestr | OpSHA256 | OtherOp bytestr

datatype attestation =
    PendingAttestation pystr
  | BitcoinBlockHeaderAttestation nat
  | OtherAttestation bytestr

datatype timestamp =
  Timestamp (ts_msg: bytestr) (ts_attestations: "attestation list") (ts_ops: "(ots_op \<times> timestamp) list")

record detached =
  det_hash_op :: ots_op
  det_timestamp :: timestamp

text \<open>\<^verbatim>\<open>detached.file_digest\<close> is the message of the root.\<close>

abbreviation det_file_digest :: "detached \<Rightarrow> bytestr" where
  "det_file_digest d \<equiv> ts_msg (det_timestamp d)"

text \<open>
  The library: \<open>ots_deserialize\<close> is \<^verbatim>\<open>deserialize\<close> followed by \<^verbatim>\<open>assert_eof\<close>, with the text of its exception;
  \<open>ots_apply\<close> the result of an operation on a message; \<open>ots_all_attestations\<close> the attestations of a tree with
  the messages they attest; \<open>ots_merge\<close> the first timestamp after \<^verbatim>\<open>merge\<close>, or the text of its exception.
\<close>

record ots =
  ots_deserialize :: "bytestr \<Rightarrow> pystr + detached"
  ots_serialize :: "detached \<Rightarrow> py_exn + bytestr"
  ots_apply :: "ots_op \<Rightarrow> bytestr \<Rightarrow> bytestr"
  ots_all_attestations :: "timestamp \<Rightarrow> (bytestr \<times> attestation) list"
  ots_merge :: "timestamp \<Rightarrow> timestamp \<Rightarrow> pystr + timestamp"

section \<open>Validation of a proof\<close>

definition validated_detached :: "ots \<Rightarrow> bytestr \<Rightarrow> bytestr \<Rightarrow> py_exn + detached" where
  "validated_detached L proof expected_digest =
     rbind (raise_if (proof = []) (PyExn AnchorIntegrityError (lit ''proof must be non-empty bytes''))) (\<lambda>_.
     rbind (raise_if (length expected_digest \<noteq> 32)
       (PyExn AnchorIntegrityError (lit ''expected digest must contain exactly 32 bytes''))) (\<lambda>_.
     case ots_deserialize L proof of
       Inl msg \<Rightarrow> Inl (PyExn AnchorIntegrityError (lit ''malformed OpenTimestamps proof: '' @ msg))
     | Inr detached \<Rightarrow>
         rbind (raise_if (det_hash_op detached \<noteq> OpSHA256)
           (PyExn AnchorIntegrityError (lit ''OpenTimestamps proof file hash is not SHA-256''))) (\<lambda>_.
         rbind (raise_if (det_file_digest detached \<noteq> expected_digest)
           (PyExn AnchorIntegrityError (lit ''OpenTimestamps proof digest does not match chain tip''))) (\<lambda>_.
           Inr detached))))"

record proof_inspection =
  pi_digest :: bytestr
  pi_bitcoin :: bool

fun is_bitcoin :: "attestation \<Rightarrow> bool" where
  "is_bitcoin (BitcoinBlockHeaderAttestation h) = True"
| "is_bitcoin _ = False"

definition inspect_proof :: "ots \<Rightarrow> bytestr \<Rightarrow> bytestr \<Rightarrow> py_exn + proof_inspection" where
  "inspect_proof L proof expected_digest =
     rbind (validated_detached L proof expected_digest) (\<lambda>d.
       Inr \<lparr>pi_digest = det_file_digest d,
            pi_bitcoin = list_ex (\<lambda>(msg, a). is_bitcoin a) (ots_all_attestations L (det_timestamp d))\<rparr>)"

section \<open>Stamping\<close>

text \<open>What the submitter or upgrader raises: one of the adapter's exceptions, \<^verbatim>\<open>SystemExit\<close>, or another.\<close>

datatype client_exn =
    ClientConfiguration pystr
  | ClientTransient pystr
  | ClientExit
  | ClientRaises pystr

text \<open>
  The detached file of a digest with the nonce appended and hashed, and \<open>commitment\<close> as the timestamp of that
  hash. The submitter works on the bare commitment and returns it with the attestations it got.
\<close>

definition commitment_of :: "ots \<Rightarrow> bytestr \<Rightarrow> bytestr \<Rightarrow> timestamp" where
  "commitment_of L digest nonce =
     Timestamp (ots_apply L OpSHA256 (ots_apply L (OpAppend nonce) digest)) [] []"

definition detached_with :: "ots \<Rightarrow> bytestr \<Rightarrow> bytestr \<Rightarrow> timestamp \<Rightarrow> detached" where
  "detached_with L digest nonce commitment =
     \<lparr>det_hash_op = OpSHA256,
      det_timestamp = Timestamp digest [] [(OpAppend nonce,
        Timestamp (ots_apply L (OpAppend nonce) digest) [] [(OpSHA256, commitment)])]\<rparr>"

fun stamp_exn :: "client_exn \<Rightarrow> py_exn" where
  "stamp_exn (ClientConfiguration msg) = PyExn AnchorConfigurationError msg"
| "stamp_exn (ClientTransient msg) = PyExn AnchorTransientError msg"
| "stamp_exn ClientExit = PyExn AnchorTransientError (lit ''OpenTimestamps calendar quorum failed'')"
| "stamp_exn (ClientRaises msg) =
     PyExn AnchorTransientError (lit ''OpenTimestamps submission failed: '' @ msg)"

text \<open>\<open>nonce\<close> is what the nonce factory returned, \<open>None\<close> a value that is not \<^verbatim>\<open>bytes\<close>.\<close>

definition stamp ::
    "ots \<Rightarrow> (timestamp \<Rightarrow> client_exn + timestamp) \<Rightarrow> bytestr option \<Rightarrow> bytestr \<Rightarrow> py_exn + bytestr" where
  "stamp L submitter nonce digest =
     rbind (raise_if (length digest \<noteq> 32)
       (py_error ''ValueError'' ''OpenTimestamps input must be a 32-byte digest'')) (\<lambda>_.
     case nonce of
       Some n \<Rightarrow>
         rbind (raise_if (length n \<noteq> 16)
           (py_error ''ValueError'' ''OpenTimestamps nonce factory must return 16 bytes'')) (\<lambda>_.
         rbind (rmap_err stamp_exn (submitter (commitment_of L digest n))) (\<lambda>commitment.
           ots_serialize L (detached_with L digest n commitment)))
     | None \<Rightarrow> Inl (py_error ''ValueError'' ''OpenTimestamps nonce factory must return 16 bytes''))"

text \<open>The default submitter: what the client exports, or the exception of importing or configuring it.\<close>

record client =
  cl_available :: "client_exn option"
  cl_quorum :: int
  cl_aggregators :: "pystr list"
  cl_create :: "timestamp \<Rightarrow> pystr list \<Rightarrow> client_exn + timestamp"

fun submit_exn :: "client_exn \<Rightarrow> client_exn" where
  "submit_exn (ClientConfiguration msg) = ClientConfiguration msg"
| "submit_exn (ClientTransient msg) = ClientTransient msg"
| "submit_exn ClientExit = ClientTransient (lit ''OpenTimestamps calendar quorum failed'')"
| "submit_exn (ClientRaises msg) = ClientTransient (lit ''OpenTimestamps client unavailable: '' @ msg)"

definition int_digits_text :: "int \<Rightarrow> pystr" where
  "int_digits_text n = (if n < 0 then 45 # dec (nat (- n)) else dec (nat n))"

definition submit_with_client_defaults :: "client \<Rightarrow> timestamp \<Rightarrow> client_exn + timestamp" where
  "submit_with_client_defaults cl ts =
     rmap_err submit_exn
       (case cl_available cl of
          Some e \<Rightarrow> Inl e
        | None \<Rightarrow>
            if \<not> (0 < cl_quorum cl \<and> cl_quorum cl \<le> int (length (cl_aggregators cl)))
            then Inl (ClientConfiguration
              (lit ''OpenTimestamps quorum '' @ int_digits_text (cl_quorum cl) @ lit '' is invalid for '' @
               dec (length (cl_aggregators cl)) @ lit '' calendars''))
            else cl_create cl ts (cl_aggregators cl))"

section \<open>Upgrading\<close>

fun upgrade_exn :: "client_exn \<Rightarrow> py_exn" where
  "upgrade_exn (ClientTransient msg) = PyExn AnchorTransientError msg"
| "upgrade_exn ClientExit = PyExn AnchorTransientError (lit ''OpenTimestamps upgrade failed'')"
| "upgrade_exn (ClientConfiguration msg) =
     PyExn AnchorTransientError (lit ''OpenTimestamps upgrade failed: '' @ msg)"
| "upgrade_exn (ClientRaises msg) =
     PyExn AnchorTransientError (lit ''OpenTimestamps upgrade failed: '' @ msg)"

text \<open>The upgrader returns whether it changed the timestamp, and the timestamp it leaves.\<close>

definition upgrade ::
    "ots \<Rightarrow> (timestamp \<Rightarrow> client_exn + bool \<times> timestamp) \<Rightarrow> bytestr \<Rightarrow> bytestr \<Rightarrow> py_exn + bytestr option" where
  "upgrade L upgrader proof digest =
     rbind (validated_detached L proof digest) (\<lambda>d.
     rbind (rmap_err upgrade_exn (upgrader (det_timestamp d))) (\<lambda>(changed, ts).
       if changed then rbind (ots_serialize L (d\<lparr>det_timestamp := ts\<rparr>)) (\<lambda>bs. Inr (Some bs)) else Inr None))"

text \<open>
  \<open>directly_attested\<close> is \<^verbatim>\<open>_directly_attested_timestamps\<close>; \<open>attested_paths\<close> gives the same nodes by their
  position, for the loop that changes them in place.
\<close>

fun directly_attested :: "timestamp \<Rightarrow> timestamp list" where
  "directly_attested (Timestamp m atts ops) =
     (if atts \<noteq> [] then [Timestamp m atts ops] else concat (map (\<lambda>(op, t). directly_attested t) ops))"

fun attested_paths :: "timestamp \<Rightarrow> nat list list" where
  "attested_paths (Timestamp m atts ops) =
     (if atts \<noteq> [] then [[]]
      else concat (map (\<lambda>(i, ps). map (Cons i) ps)
        (enumerate 0 (map (\<lambda>(op, t). attested_paths t) ops))))"

fun node_at :: "nat list \<Rightarrow> timestamp \<Rightarrow> timestamp" where
  "node_at [] t = t"
| "node_at (i # p) t = node_at p (snd (ts_ops t ! i))"

fun put_at :: "nat list \<Rightarrow> timestamp \<Rightarrow> timestamp \<Rightarrow> timestamp" where
  "put_at [] n t = n"
| "put_at (i # p) n (Timestamp m atts ops) =
     Timestamp m atts (ops[i := (fst (ops ! i), put_at p n (snd (ops ! i)))])"

datatype fetch_result =
    Fetched timestamp
  | CommitmentNotFound
  | FetchFails pystr
  | CalendarRaises client_exn

record upgrade_client =
  uc_available :: "client_exn option"
  uc_whitelisted :: "pystr \<Rightarrow> bool"
  uc_fetch :: "pystr \<Rightarrow> bytestr \<Rightarrow> fetch_result"

record upgrading =
  up_root :: timestamp
  up_changed :: bool
  up_failures :: "pystr list"

definition upgrade_step ::
    "ots \<Rightarrow> upgrade_client \<Rightarrow> nat list \<Rightarrow> upgrading \<Rightarrow> attestation \<Rightarrow> client_exn + upgrading" where
  "upgrade_step L uc path st att =
     (case att of
        PendingAttestation uri \<Rightarrow>
          if \<not> uc_whitelisted uc uri then Inr st
          else (case uc_fetch uc uri (ts_msg (node_at path (up_root st))) of
             CommitmentNotFound \<Rightarrow> Inr st
           | FetchFails msg \<Rightarrow> Inr (st\<lparr>up_failures := up_failures st @ [uri @ lit '': '' @ msg]\<rparr>)
           | CalendarRaises e \<Rightarrow> Inl e
           | Fetched upgraded \<Rightarrow>
               rbind (rmap_err ClientRaises (ots_merge L (node_at path (up_root st)) upgraded)) (\<lambda>merged.
                 let root = put_at path merged (up_root st) in
                 Inr (st\<lparr>up_root := root,
                   up_changed := up_changed st \<or>
                     set (ots_all_attestations L root) \<noteq> set (ots_all_attestations L (up_root st))\<rparr>)))
      | _ \<Rightarrow> Inr st)"

definition upgrade_node ::
    "ots \<Rightarrow> upgrade_client \<Rightarrow> upgrading \<Rightarrow> nat list \<Rightarrow> client_exn + upgrading" where
  "upgrade_node L uc st path =
     rfold (upgrade_step L uc path) st (ts_attestations (node_at path (up_root st)))"

fun join_semicolon :: "pystr list \<Rightarrow> pystr" where
  "join_semicolon [] = []"
| "join_semicolon [s] = s"
| "join_semicolon (s # ss) = s @ lit ''; '' @ join_semicolon ss"

fun upgrade_client_exn :: "client_exn \<Rightarrow> client_exn" where
  "upgrade_client_exn (ClientTransient msg) = ClientTransient msg"
| "upgrade_client_exn ClientExit = ClientTransient (lit ''OpenTimestamps upgrade failed'')"
| "upgrade_client_exn (ClientConfiguration msg) =
     ClientTransient (lit ''OpenTimestamps client unavailable: '' @ msg)"
| "upgrade_client_exn (ClientRaises msg) =
     ClientTransient (lit ''OpenTimestamps client unavailable: '' @ msg)"

definition upgrade_with_client_defaults ::
    "ots \<Rightarrow> upgrade_client \<Rightarrow> timestamp \<Rightarrow> client_exn + bool \<times> timestamp" where
  "upgrade_with_client_defaults L uc ts =
     rmap_err upgrade_client_exn
       (case uc_available uc of
          Some e \<Rightarrow> Inl e
        | None \<Rightarrow>
            rbind (rfold (upgrade_node L uc) \<lparr>up_root = ts, up_changed = False, up_failures = []\<rparr>
              (attested_paths ts)) (\<lambda>st.
            rbind (raise_if (up_failures st \<noteq> []) (ClientTransient (join_semicolon (up_failures st)))) (\<lambda>_.
              Inr (up_changed st, up_root st))))"

section \<open>Publishing a proof\<close>

type_synonym files = "pystr \<Rightarrow> bytestr option"

datatype fs_op = CreateTemp pystr | WriteTemp pystr bytestr | ReplaceFile pystr pystr | Unlink pystr

fun run_op :: "fs_op \<Rightarrow> files \<Rightarrow> files" where
  "run_op (CreateTemp p) fs = fs(p \<mapsto> [])"
| "run_op (WriteTemp p bs) fs = fs(p \<mapsto> bs)"
| "run_op (ReplaceFile p q) fs = (fs(q := fs p))(p := None)"
| "run_op (Unlink p) fs = fs(p := None)"

text \<open>
  What the operating system does to one call: \<open>wi_mkdir\<close>, \<open>wi_replace\<close> the text of an \<^verbatim>\<open>OSError\<close>; \<open>wi_temp\<close> the
  random part of the name \<^verbatim>\<open>mkstemp\<close> chose; \<open>wi_write\<close> a write or \<^verbatim>\<open>fsync\<close> that fails when so many bytes of the
  proof are in the file.
\<close>

record write_io =
  wi_mkdir :: "pystr option"
  wi_temp :: "pystr + pystr"
  wi_write :: "(nat \<times> pystr) option"
  wi_replace :: "pystr option"

text \<open>\<^verbatim>\<open>target.name\<close> and what precedes it: the text after and up to the last \<^verbatim>\<open>/\<close>.\<close>

definition path_name :: "pystr \<Rightarrow> pystr" where
  "path_name p = rev (takeWhile (\<lambda>c. c \<noteq> 47) (rev p))"

definition path_parent :: "pystr \<Rightarrow> pystr" where
  "path_parent p = rev (dropWhile (\<lambda>c. c \<noteq> 47) (rev p))"

definition temp_path :: "pystr \<Rightarrow> pystr \<Rightarrow> pystr" where
  "temp_path target random = path_parent target @ [46] @ path_name target @ [46] @ random @ lit ''.tmp''"

text \<open>The operations after \<^verbatim>\<open>mkstemp\<close> returned \<open>tmp\<close>, and the exception they end with.\<close>

definition write_ops :: "pystr \<Rightarrow> bytestr \<Rightarrow> write_io \<Rightarrow> pystr \<Rightarrow> fs_op list \<times> (py_exn + unit)" where
  "write_ops target proof io tmp =
     (case wi_write io of
        Some (k, msg) \<Rightarrow>
          ([CreateTemp tmp, WriteTemp tmp (take k proof), Unlink tmp], Inl (PyExn (PyError ''OSError'') msg))
      | None \<Rightarrow>
          (case wi_replace io of
             Some msg \<Rightarrow>
               ([CreateTemp tmp, WriteTemp tmp proof, Unlink tmp], Inl (PyExn (PyError ''OSError'') msg))
           | None \<Rightarrow>
               ([CreateTemp tmp, WriteTemp tmp proof, ReplaceFile tmp target, Unlink tmp], Inr ())))"

definition write_proof_ops ::
    "pystr \<Rightarrow> bytestr \<Rightarrow> bool \<Rightarrow> write_io \<Rightarrow> files \<Rightarrow> fs_op list \<times> (py_exn + unit)" where
  "write_proof_ops target proof replace io fs =
     (if proof = [] then
        ([], Inl (py_error ''ValueError'' ''timestamp backend returned an empty or non-bytes proof''))
      else case wi_mkdir io of
        Some msg \<Rightarrow> ([], Inl (PyExn (PyError ''OSError'') msg))
      | None \<Rightarrow>
          if \<not> replace \<and> fs target \<noteq> None then ([], Inl (PyExn (PyError ''FileExistsError'') target))
          else (case wi_temp io of
             Inl msg \<Rightarrow> ([], Inl (PyExn (PyError ''OSError'') msg))
           | Inr random \<Rightarrow> write_ops target proof io (temp_path target random)))"

definition write_proof_atomic ::
    "pystr \<Rightarrow> bytestr \<Rightarrow> bool \<Rightarrow> write_io \<Rightarrow> files \<Rightarrow> (py_exn + unit) \<times> files" where
  "write_proof_atomic target proof replace io fs =
     (case write_proof_ops target proof replace io fs of (ops, r) \<Rightarrow> (r, fold run_op ops fs))"

section \<open>Anchoring a tip\<close>

datatype snapshot_exn =
    ChainFileMissing
  | SnapshotLockTimeout
  | SnapshotStore store_exn
  | EmptyChain

record anchor_receipt =
  rc_sequence :: nat
  rc_tip_hash :: pystr
  rc_proof_path :: pystr

text \<open>The tip read under the lock, common to \<^verbatim>\<open>anchor_chain_tip\<close> and \<^verbatim>\<open>snapshot_tip\<close>.\<close>

definition locked_tip :: "bool \<Rightarrow> bytestr option \<Rightarrow> snapshot_exn + nat \<times> pystr" where
  "locked_tip lock chain =
     rbind (raise_if (chain = None) ChainFileMissing) (\<lambda>_.
     rbind (raise_if (\<not> lock) SnapshotLockTimeout) (\<lambda>_.
     rbind (rmap_err SnapshotStore (chain_tip chain None)) (\<lambda>(next_seq, tip_hash).
     rbind (raise_if (next_seq = 0) EmptyChain) (\<lambda>_.
       Inr (next_seq - 1, tip_hash)))))"

definition anchor_chain_tip ::
    "bool \<Rightarrow> bytestr option \<Rightarrow> pystr \<Rightarrow> (bytestr \<Rightarrow> py_exn + bytestr) \<Rightarrow> write_io \<Rightarrow> files
      \<Rightarrow> ((snapshot_exn + py_exn) + anchor_receipt) \<times> files" where
  "anchor_chain_tip lock chain target backend_stamp io fs =
     (case locked_tip lock chain of
        Inl e \<Rightarrow> (Inl (Inl e), fs)
      | Inr (sequence, tip_hash) \<Rightarrow>
          (case backend_stamp (fromhex tip_hash) of
             Inl e \<Rightarrow> (Inl (Inr e), fs)
           | Inr proof \<Rightarrow>
               if proof = [] then
                 (Inl (Inr (py_error ''ValueError''
                    ''timestamp backend returned an empty or non-bytes proof'')), fs)
               else (case write_proof_atomic target proof False io fs of
                  (Inl e, fs') \<Rightarrow> (Inl (Inr e), fs')
                | (Inr _, fs') \<Rightarrow>
                    (Inr \<lparr>rc_sequence = sequence, rc_tip_hash = tip_hash, rc_proof_path = target\<rparr>, fs'))))"

section \<open>The nodes of the upgrade loop\<close>

lemma map_nodes_enumerate:
  assumes "\<And>i. i < length ops \<Longrightarrow> map (\<lambda>p. node_at p (snd (ops ! i))) (attested_paths (snd (ops ! i))) =
      directly_attested (snd (ops ! i))"
  shows "map (\<lambda>p. node_at p (Timestamp m atts (pre @ ops)))
      (concat (map (\<lambda>(i, ps). map (Cons i) ps) (enumerate (length pre) (map (\<lambda>(op, t). attested_paths t) ops)))) =
    concat (map (\<lambda>(op, t). directly_attested t) ops)"
  using assms
proof (induction ops arbitrary: pre)
  case (Cons x ops)
  obtain op t where x: "x = (op, t)" by (cases x)
  have "map (\<lambda>p. node_at p t) (attested_paths t) = directly_attested t" using Cons.prems [of 0] x by simp
  moreover have "map (\<lambda>p. node_at p (snd (ops ! i))) (attested_paths (snd (ops ! i))) = directly_attested (snd (ops ! i))"
    if "i < length ops" for i using Cons.prems [of "Suc i"] that by simp
  from Cons.IH [OF this, of "pre @ [x]"] have
    "map (\<lambda>p. node_at p (Timestamp m atts (pre @ x # ops))) (concat (map (\<lambda>(i, ps). map (Cons i) ps)
        (enumerate (Suc (length pre)) (map (\<lambda>(op, t). attested_paths t) ops)))) =
     concat (map (\<lambda>(op, t). directly_attested t) ops)" by simp
  ultimately show ?case using x by (simp add: comp_def)
qed simp

lemma nodes_at_attested_paths: "map (\<lambda>p. node_at p t) (attested_paths t) = directly_attested t"
proof (induction t)
  case (Timestamp m atts ops)
  have "map (\<lambda>p. node_at p (snd (ops ! i))) (attested_paths (snd (ops ! i))) = directly_attested (snd (ops ! i))"
    if "i < length ops" for i
    using Timestamp.IH [of "ops ! i" "snd (ops ! i)"] that by (simp add: snds.simps)
  from map_nodes_enumerate [of ops m atts "[]", OF this] show ?case by (cases "atts = []") simp_all
qed

section \<open>The proof file is never partial\<close>

lemma path_split: "path_parent p @ path_name p = p"
  by (simp add: path_parent_def path_name_def flip: rev_append)

lemma length_temp_path: "length target < length (temp_path target random)"
proof -
  have "length target = length (path_parent target) + length (path_name target)"
    by (metis length_append path_split)
  then show ?thesis by (simp add: temp_path_def)
qed

lemma temp_path_neq [simp]: "temp_path target random \<noteq> target" "target \<noteq> temp_path target random"
  using length_temp_path by (metis less_irrefl_nat)+

lemma write_prefix:
  assumes "write_proof_ops target proof replace io fs = (ops, r)"
    and fs': "fs' = fold run_op (take n ops) fs"
  shows "fs' target = fs target \<or> (fs' target = Some proof \<and> r = Inr ())"
    and "p \<noteq> target \<Longrightarrow> (\<And>random. p \<noteq> temp_path target random) \<Longrightarrow> fs' p = fs p"
proof -
  have "ops = [] \<or> (\<exists>random. let tmp = temp_path target random in
      (\<exists>bs. ops = [CreateTemp tmp, WriteTemp tmp bs, Unlink tmp]) \<or>
      (ops = [CreateTemp tmp, WriteTemp tmp proof, ReplaceFile tmp target, Unlink tmp] \<and> r = Inr ()))"
    using assms(1) by (fastforce simp: write_proof_ops_def write_ops_def Let_def split: if_splits option.splits sum.splits)
  then show "fs' target = fs target \<or> (fs' target = Some proof \<and> r = Inr ())"
    and "p \<noteq> target \<Longrightarrow> (\<And>random. p \<noteq> temp_path target random) \<Longrightarrow> fs' p = fs p"
    unfolding fs' Let_def by (auto simp: take_Cons split: nat.splits)
qed

lemma write_result:
  assumes "write_proof_atomic target proof replace io fs = (r, fs')"
  shows "r = Inr () \<Longrightarrow> fs' target = Some proof \<and> proof \<noteq> [] \<and> (replace \<or> fs target = None)"
    and "r = Inl e \<Longrightarrow> fs' target = fs target"
    and "p \<noteq> target \<Longrightarrow> (\<And>random. p \<noteq> temp_path target random) \<Longrightarrow> fs' p = fs p"
proof -
  obtain ops where ops: "write_proof_ops target proof replace io fs = (ops, r)" "fs' = fold run_op ops fs"
    using assms by (auto simp: write_proof_atomic_def split: prod.splits)
  show "p \<noteq> target \<Longrightarrow> (\<And>random. p \<noteq> temp_path target random) \<Longrightarrow> fs' p = fs p"
    using write_prefix(2) [OF ops(1), of fs' "length ops" p] ops(2) by simp
  show "r = Inl e \<Longrightarrow> fs' target = fs target" using write_prefix(1) [OF ops(1), of fs' "length ops"] ops(2) by auto
  show "r = Inr () \<Longrightarrow> fs' target = Some proof \<and> proof \<noteq> [] \<and> (replace \<or> fs target = None)"
    using ops by (auto simp: write_proof_ops_def write_ops_def split: if_splits option.splits sum.splits)
qed

end
