(* ===== verification/Py_Datetime_Order.thy ===== *)
theory Py_Datetime_Order
  imports Py_Datetime
begin

text \<open>
  Timestamps in the database are compared as text. The lemmas show that the text order of the written
  form is the order of the instants, and that the date of a day number is a valid date with that number,
  so that adding a duration to an instant gives the instant that is later by that duration.
\<close>

section \<open>The order of texts\<close>

fun text_le :: "pystr \<Rightarrow> pystr \<Rightarrow> bool" where
  "text_le [] _ = True"
| "text_le (a # s) [] = False"
| "text_le (a # s) (b # t) = (a < b \<or> (a = b \<and> text_le s t))"

lemma text_le_append [simp]: "text_le (a @ s) (a @ t) = text_le s t"
  by (induction a) simp_all

lemma text_le_refl [simp]: "text_le s s"
  by (induction s) simp_all

lemma length_pad_dec [simp]: "length (pad_dec w n) = w"
  by (induction w arbitrary: n) simp_all

lemma mixed_radix:
  fixes k :: nat
  assumes "r < k" and "s < k"
  shows "x * k + r < y * k + s \<longleftrightarrow> x < y \<or> (x = y \<and> r < s)"
    and "x * k + r = y * k + s \<longleftrightarrow> x = y \<and> r = s"
proof -
  have less: "x * k + r < y * k + s" if "x < y" "r < k" for x y r s :: nat
    using that mult_le_mono1 [of "Suc x" y k] by simp
  from assms less [of x y r s] less [of y x s r]
  show "x * k + r < y * k + s \<longleftrightarrow> x < y \<or> (x = y \<and> r < s)" and "x * k + r = y * k + s \<longleftrightarrow> x = y \<and> r = s"
    by (cases x y rule: linorder_cases; auto)+
qed

lemma digit_order:
  "a < b \<longleftrightarrow> a div 10 < b div 10 \<or> (a div 10 = b div 10 \<and> a mod 10 < b mod 10)"
  "a = b \<longleftrightarrow> a div 10 = b div 10 \<and> a mod 10 = b mod 10" for a b :: nat
  using mixed_radix [of "a mod 10" 10 "b mod 10" "a div 10" "b div 10"] by simp_all

lemma text_le_pad_dec:
  assumes "a < 10 ^ w" and "b < 10 ^ w"
  shows "text_le (pad_dec w a @ s) (pad_dec w b @ t) \<longleftrightarrow> a < b \<or> (a = b \<and> text_le s t)"
  using assms
proof (induction w arbitrary: a b s t)
  case (Suc w)
  have "a div 10 < 10 ^ w" "b div 10 < 10 ^ w" using Suc.prems by (auto simp: div_less_iff_less_mult)
  from Suc.IH [OF this] show ?case unfolding digit_order [of a b] by auto
qed simp

section \<open>Days\<close>

lemma month_cases:
  assumes "1 \<le> m" and "m \<le> (12::nat)"
  shows "m \<in> {1, 2, 3, 4, 5, 6, 7, 8, 9, 10, 11, 12}"
  using assms by (simp, presburger)

lemma days_before_next_month:
  assumes "1 \<le> m" and "m \<le> 12"
  shows "days_before_month y (Suc m) = days_before_month y m + days_in_month y m"
  using month_cases [OF assms] by (auto simp: days_before_month_def days_in_month_def)

lemma days_before_month_mono:
  assumes "1 \<le> m" and "m < n" and "n \<le> 12"
  shows "days_before_month y m + days_in_month y m \<le> days_before_month y n"
  using assms(2,3)
proof (induction n)
  case (Suc n)
  show ?case
  proof (cases "n = m")
    case True
    then show ?thesis using days_before_next_month [of m y] assms(1) Suc.prems by simp
  next
    case False
    then show ?thesis using Suc days_before_next_month [of n y] assms(1) by simp
  qed
qed simp

definition year_length :: "nat \<Rightarrow> nat" where
  "year_length y = (if is_leap y then 366 else 365)"

lemma div_Suc_dvd: "0 < k \<Longrightarrow> Suc n div k = n div k + (if k dvd Suc n then 1 else 0)" for k :: nat
  by (auto simp: div_Suc dvd_eq_mod_eq_0)

lemma days_before_year_Suc:
  assumes "1 \<le> y"
  shows "days_before_year (Suc y) = days_before_year y + year_length y"
proof -
  obtain n where n: "y = Suc n" using assms by (cases y) auto
  have le: "n div 100 \<le> n * 365 + n div 4" by (simp add: div_le_mono2 trans_le_add2)
  have dvd: "100 dvd Suc n \<Longrightarrow> 4 dvd Suc n" "400 dvd Suc n \<Longrightarrow> 100 dvd Suc n"
    using dvd_trans [of 4 100 "Suc n"] dvd_trans [of 100 400 "Suc n"] by simp_all
  show ?thesis
  proof (cases "100 dvd Suc n")
    case True
    then show ?thesis using dvd le
      by (simp add: n days_before_year_def year_length_def is_leap_def div_Suc_dvd ac_simps)
  next
    case False
    then have "\<not> 400 dvd Suc n" using dvd(2) by blast
    with False show ?thesis using le
      by (simp add: n days_before_year_def year_length_def is_leap_def div_Suc_dvd ac_simps)
  qed
qed

lemma days_before_year_mono:
  assumes "1 \<le> y" and "y < z"
  shows "days_before_year y + year_length y \<le> days_before_year z"
  using assms(2)
proof (induction z)
  case (Suc z)
  then show ?case using days_before_year_Suc [of y] days_before_year_Suc [of z] assms(1)
    by (cases "z = y") auto
qed simp

lemma day_of_year:
  assumes "valid_date (y, m, d)"
  shows "1 \<le> days_before_month y m + d" and "days_before_month y m + d \<le> year_length y"
proof -
  have m: "1 \<le> m" "m \<le> 12" "1 \<le> d" "d \<le> days_in_month y m" using assms by (auto simp: valid_date_def)
  then show "1 \<le> days_before_month y m + d" by simp
  from month_cases [OF m(1,2)] m(4) show "days_before_month y m + d \<le> year_length y"
    by (auto simp: days_before_month_def days_in_month_def year_length_def split: if_splits)
qed

text \<open>Day numbers order dates by year, month and day.\<close>

definition date_less :: "nat \<times> nat \<times> nat \<Rightarrow> nat \<times> nat \<times> nat \<Rightarrow> bool" where
  "date_less = (\<lambda>(y, m, d) (y', m', d'). y < y' \<or> (y = y' \<and> (m < m' \<or> (m = m' \<and> d < d'))))"

lemma ymd2ord_less:
  assumes "valid_date a" and "valid_date b" and "date_less a b"
  shows "ymd2ord a < ymd2ord b"
proof -
  obtain y m d where a: "a = (y, m, d)" by (cases a)
  obtain y' m' d' where b: "b = (y', m', d')" by (cases b)
  note va = assms(1) [unfolded a] and vb = assms(2) [unfolded b]
  have k: "1 \<le> y" "1 \<le> m" "m \<le> 12" "d \<le> days_in_month y m" "1 \<le> m'" "m' \<le> 12" "1 \<le> d'"
    using va vb by (auto simp: valid_date_def)
  consider "y < y'" | "y = y'" "m < m'" | "y = y'" "m = m'" "d < d'"
    using assms(3) by (auto simp: date_less_def a b)
  then show ?thesis
  proof cases
    case 1
    then show ?thesis using days_before_year_mono [OF k(1) 1] day_of_year(2) [OF va] day_of_year(1) [OF vb]
      by (simp add: ymd2ord_def a b)
  next
    case 2
    then show ?thesis using days_before_month_mono [OF k(2) 2(2) k(6), of y] k(4,7)
      by (simp add: ymd2ord_def a b)
  qed (simp add: ymd2ord_def a b)
qed

lemma ymd2ord_le_iff:
  assumes "valid_date a" and "valid_date b"
  shows "ymd2ord a \<le> ymd2ord b \<longleftrightarrow> a = b \<or> date_less a b"
proof -
  have "a = b \<or> date_less a b \<or> date_less b a" by (cases a; cases b) (auto simp: date_less_def)
  then show ?thesis using ymd2ord_less assms by (metis less_imp_le linorder_not_le order_refl)
qed

section \<open>Instants\<close>

lemma ymd2ord_pos: "valid_date a \<Longrightarrow> 1 \<le> ymd2ord a"
  using day_of_year(1) by (cases a) (fastforce simp: ymd2ord_def)

lemma dt_micros_le_iff:
  assumes "valid_dt a" and "valid_dt b"
  shows "dt_micros a \<le> dt_micros b \<longleftrightarrow>
    ymd2ord (dt_date a) < ymd2ord (dt_date b) \<or>
    (ymd2ord (dt_date a) = ymd2ord (dt_date b) \<and>
      (dt_hour a < dt_hour b \<or> (dt_hour a = dt_hour b \<and>
        (dt_minute a < dt_minute b \<or> (dt_minute a = dt_minute b \<and>
          (dt_second a < dt_second b \<or> (dt_second a = dt_second b \<and> dt_micro a \<le> dt_micro b)))))))"
proof -
  have pos: "1 \<le> ymd2ord (dt_date a)" "1 \<le> ymd2ord (dt_date b)" using assms ymd2ord_pos by (auto simp: valid_dt_def)
  define D H M S where "D t = ymd2ord (dt_date t) - 1" and "H t = D t * 24 + dt_hour t"
    and "M t = H t * 60 + dt_minute t" and "S t = M t * 60 + dt_second t" for t :: dt
  have split: "dt_micros t = S t * 1000000 + dt_micro t" for t
    by (simp add: dt_micros_def seconds_of_day_def D_def H_def M_def S_def algebra_simps)
  have bd: "dt_hour a < 24" "dt_minute a < 60" "dt_second a < 60" "dt_micro a < 1000000"
    "dt_hour b < 24" "dt_minute b < 60" "dt_second b < 60" "dt_micro b < 1000000"
    using assms by (auto simp: valid_dt_def)
  note digits = mixed_radix [OF bd(1,5), of "D a" "D b", folded H_def]
    mixed_radix [OF bd(2,6), of "H a" "H b", folded M_def]
    mixed_radix [OF bd(3,7), of "M a" "M b", folded S_def]
    mixed_radix [OF bd(4,8), of "S a" "S b", folded split]
  have "D a < D b \<longleftrightarrow> ymd2ord (dt_date a) < ymd2ord (dt_date b)"
    "D a = D b \<longleftrightarrow> ymd2ord (dt_date a) = ymd2ord (dt_date b)"
    using pos by (auto simp: D_def)
  then show ?thesis unfolding le_less digits by blast
qed

lemma text_le_Cons_same [simp]: "text_le (c # s) (c # t) = text_le s t"
  by simp

text \<open>The text order of written timestamps is the order of the instants.\<close>

lemma text_le_iso_utc:
  assumes "valid_dt a" and "valid_dt b"
  shows "text_le (iso_utc a) (iso_utc b) \<longleftrightarrow> dt_micros a \<le> dt_micros b"
proof -
  obtain y m d where da: "dt_date a = (y, m, d)" by (cases "dt_date a")
  obtain y' m' d' where db: "dt_date b = (y', m', d')" by (cases "dt_date b")
  have v: "valid_date (y, m, d)" "valid_date (y', m', d')" using assms da db by (auto simp: valid_dt_def)
  have dim: "days_in_month y n < 32" for y n by (simp add: days_in_month_def)
  have bd: "y < 10 ^ 4" "m < 10 ^ 2" "d < 10 ^ 2" "y' < 10 ^ 4" "m' < 10 ^ 2" "d' < 10 ^ 2"
    using v dim [of y m] dim [of y' m'] by (auto simp: valid_date_def)
  have bt: "dt_hour a < 10 ^ 2" "dt_minute a < 10 ^ 2" "dt_second a < 10 ^ 2" "dt_micro a < 10 ^ 6"
    "dt_hour b < 10 ^ 2" "dt_minute b < 10 ^ 2" "dt_second b < 10 ^ 2" "dt_micro b < 10 ^ 6"
    using assms by (auto simp: valid_dt_def)
  have eq: "ymd2ord (y, m, d) = ymd2ord (y', m', d') \<longleftrightarrow> (y, m, d) = (y', m', d')"
    using ymd2ord_less [OF v] ymd2ord_less [OF v(2) v(1)]
    by (auto simp: date_less_def) (metis less_irrefl_nat linorder_neqE_nat)+
  have less: "ymd2ord (y, m, d) < ymd2ord (y', m', d') \<longleftrightarrow> date_less (y, m, d) (y', m', d')"
    using ymd2ord_le_iff [OF v] eq by (auto simp: date_less_def order_less_le)
  show ?thesis
    unfolding dt_micros_le_iff [OF assms] da db eq less iso_utc_def prod.case
    using bd bt by (auto simp: text_le_pad_dec date_less_def simp del: power_Suc)
qed

section \<open>The date of a day number\<close>

lemma ord_year_parts:
  assumes "1 \<le> n" and "ord_year n = (y, k)"
  obtains a b c d where "y = 400 * a + 100 * b + 4 * c + d + 1" "b \<le> 3" "c \<le> 24" "d \<le> 3"
    "n = 146097 * a + 36524 * b + 1461 * c + 365 * d + k + 1"
    "k < 365 \<or> (k = 365 \<and> d = 3 \<and> (c \<noteq> 24 \<or> b = 3))"
proof -
  define a r where "a = (n - 1) div 146097" and "r = (n - 1) mod 146097"
  define b s where "b = min 3 (r div 36524)" and "s = r - 36524 * b"
  define c t where "c = s div 1461" and "t = s mod 1461"
  define d where "d = min 3 (t div 365)"
  have n: "n = 146097 * a + r + 1" and r: "r < 146097" using assms(1) by (simp_all add: a_def r_def)
  have b: "b \<le> 3" "36524 * b \<le> r" "s < 36524 \<or> (b = 3 \<and> s \<le> 36524)"
    using r by (auto simp: b_def s_def min_def)
  have s: "r = 36524 * b + s" using b(2) by (simp add: s_def)
  have c: "s = 1461 * c + t" "t < 1461" "c \<le> 24" using b(3) by (auto simp: c_def t_def)
  have d: "d \<le> 3" "365 * d \<le> t" "t - 365 * d < 365 \<or> (d = 3 \<and> t - 365 * d \<le> 365)"
    using c(2) by (auto simp: d_def min_def)
  have yk: "y = 400 * a + 100 * b + 4 * c + d + 1" "k = t - 365 * d"
    using assms(2) by (simp_all add: ord_year_def Let_def a_def b_def c_def d_def r_def s_def t_def)
  show thesis
  proof (rule that [OF yk(1) b(1) c(3) d(1)])
    show "n = 146097 * a + 36524 * b + 1461 * c + 365 * d + k + 1" using n s c(1) d(2) yk(2) by simp
    show "k < 365 \<or> (k = 365 \<and> d = 3 \<and> (c \<noteq> 24 \<or> b = 3))" using d(2,3) yk(2) b(3) c(1) by linarith
  qed
qed

lemma days_before_cycles:
  assumes "b \<le> 3" and "c \<le> 24" and "d \<le> 3"
  shows "days_before_year (400 * a + 100 * b + 4 * c + d + 1) = 146097 * a + 36524 * b + 1461 * c + 365 * d"
proof -
  define n where "n = 400 * a + 100 * b + 4 * c + d"
  have "n div 4 = 100 * a + 25 * b + c" using assms by (simp add: n_def)
  moreover have "n div 100 = 4 * a + b" using assms by (simp add: n_def)
  moreover have "n div 400 = a" using assms by (simp add: n_def)
  moreover have "days_before_year (n + 1) = n * 365 + n div 4 - n div 100 + n div 400"
    by (simp add: days_before_year_def)
  ultimately have "days_before_year (n + 1) = 146097 * a + 36524 * b + 1461 * c + 365 * d"
    by (simp add: n_def)
  then show ?thesis by (simp add: n_def)
qed

lemma is_leap_cycles:
  assumes "c \<noteq> 24 \<or> b = 3" and "c \<le> 24" and "b \<le> 3"
  shows "is_leap (400 * a + 100 * b + 4 * c + 3 + 1)"
proof -
  have e: "400 * a + 100 * b + 4 * c + 3 + 1 = 4 * (100 * a + 25 * b + c + 1)" by simp
  show ?thesis
  proof (cases "c = 24")
    case True
    then have "400 * a + 100 * b + 4 * c + 3 + 1 = 400 * (a + 1)" using assms by simp
    then show ?thesis unfolding is_leap_def e using dvd_triv_left [of 400 "a + 1"] by (metis dvd_triv_left e)
  next
    case False
    have "\<not> 25 dvd 25 * (4 * a + b) + (c + 1)"
      unfolding dvd_add_right_iff [OF dvd_triv_left] using False assms(2) by (simp add: nat_dvd_not_less)
    then have "\<not> 4 * 25 dvd 4 * (100 * a + 25 * b + c + 1)" unfolding nat_mult_dvd_cancel_disj by simp
    then show ?thesis unfolding is_leap_def e by simp
  qed
qed

lemma month_of_greatest:
  assumes "1 \<le> M" and "M \<le> 12" and "days_before_month y M \<le> k"
    and "M < 12 \<Longrightarrow> k < days_before_month y (Suc M)"
  shows "month_of y k = M"
proof -
  have "days_before_month y m \<le> k \<longleftrightarrow> m \<le> M" if m: "1 \<le> m" "m \<le> 12" for m
  proof (cases m M rule: linorder_cases)
    case less
    then show ?thesis using days_before_month_mono [OF m(1) less assms(2), of y] assms(3) by simp
  next
    case greater
    then have "days_before_month y (Suc M) \<le> days_before_month y m"
      using days_before_month_mono [of "Suc M" m y] m(2) by (cases "Suc M = m") auto
    with greater assms(4) m(2) show ?thesis by simp
  qed (use assms(3) in simp)
  then have "{m. days_before_month y m \<le> k} \<inter> set [1..<13] = {1..M}" using assms(2) by auto
  then show ?thesis by (simp add: month_of_def distinct_length_filter)
qed

lemma month_of_cases:
  assumes "k < year_length y"
  defines "M \<equiv> month_of y k"
  shows "1 \<le> M" and "M \<le> 12" and "days_before_month y M \<le> k"
    and "k < days_before_month y M + days_in_month y M"
proof -
  define N where "N = (GREATEST m. 1 \<le> m \<and> m \<le> 12 \<and> days_before_month y m \<le> k)"
  have "1 \<le> (1::nat) \<and> (1::nat) \<le> 12 \<and> days_before_month y 1 \<le> k" by (simp add: days_before_month_def)
  then have N: "1 \<le> N \<and> N \<le> 12 \<and> days_before_month y N \<le> k"
    unfolding N_def by (rule GreatestI_nat [where b = 12]) simp
  have next_month: "k < days_before_month y (Suc N)" if "N < 12"
  proof (rule ccontr)
    assume "\<not> k < days_before_month y (Suc N)"
    then have "Suc N \<le> N" unfolding N_def
      by (intro Greatest_le_nat [where b = 12]) (use that N_def in auto)
    then show False by simp
  qed
  have "M = N" unfolding M_def using N next_month by (intro month_of_greatest) auto
  with N show "1 \<le> M" "M \<le> 12" "days_before_month y M \<le> k" by simp_all
  have "days_before_month y 12 + days_in_month y 12 = year_length y"
    by (simp add: days_before_month_def days_in_month_def year_length_def)
  then show "k < days_before_month y M + days_in_month y M"
    using N next_month days_before_next_month [of N y] assms(1) \<open>M = N\<close> by (cases "N = 12") auto
qed

lemma ymd2ord_ord2ymd:
  assumes "1 \<le> n" and "n \<le> 3652059"
  shows "valid_date (ord2ymd n)" and "ymd2ord (ord2ymd n) = n"
proof -
  obtain y k where yk: "ord_year n = (y, k)" by (cases "ord_year n")
  obtain a b c d where p: "y = 400 * a + 100 * b + 4 * c + d + 1" "b \<le> 3" "c \<le> 24" "d \<le> 3"
    "n = 146097 * a + 36524 * b + 1461 * c + 365 * d + k + 1"
    "k < 365 \<or> (k = 365 \<and> d = 3 \<and> (c \<noteq> 24 \<or> b = 3))"
    using ord_year_parts [OF assms(1) yk] .
  have y: "days_before_year y + k + 1 = n" using days_before_cycles [OF p(2-4), of a] p(1,5) by simp
  have k: "k < year_length y"
    using p(6) is_leap_cycles [of c b a] p(1-3) by (auto simp: year_length_def)
  note m = month_of_cases [OF k]
  have "days_before_year 10000 = 3652059" by (simp add: days_before_year_def)
  then have "y \<le> 9999"
    using days_before_year_mono [of 10000 y] y assms(2) by (cases "y = 10000"; cases "y < 10000") auto
  moreover have "1 \<le> y" using p(1) by simp
  ultimately show "valid_date (ord2ymd n)" using m by (simp add: ord2ymd_def yk valid_date_def)
  show "ymd2ord (ord2ymd n) = n" using m(3) y by (simp add: ord2ymd_def yk ymd2ord_def)
qed

lemma dt_of_micros:
  assumes "u < max_micros"
  shows "valid_dt (dt_of_micros u)" and "dt_micros (dt_of_micros u) = u"
proof -
  define s where "s = u div 1000000"
  have s: "s div 86400 + 1 \<le> 3652059" using assms by (simp add: s_def max_micros_def)
  note d = ymd2ord_ord2ymd [OF _ s, simplified]
  have k: "s mod 86400 < 86400" by simp
  show "valid_dt (dt_of_micros u)"
    using d(1) k by (simp add: dt_of_micros_def Let_def valid_dt_def div_less_iff_less_mult flip: s_def)
  have mm: "x mod 3600 mod 60 = x mod 60" for x :: nat by (rule mod_mod_cancel) simp
  have "s mod 86400 div 3600 * 3600 + s mod 86400 mod 3600 div 60 * 60 + s mod 86400 mod 60 = s mod 86400"
    using div_mult_mod_eq [of "s mod 86400 mod 3600" 60] div_mult_mod_eq [of "s mod 86400" 3600]
    unfolding mm by linarith
  then have "dt_micros (dt_of_micros u) = (s div 86400 * 86400 + s mod 86400) * 1000000 + u mod 1000000"
    using d(2) by (simp add: dt_of_micros_def Let_def dt_micros_def seconds_of_day_def flip: s_def)
  then show "dt_micros (dt_of_micros u) = u" by (simp add: s_def)
qed

lemma dt_micros_bound:
  assumes "valid_dt t"
  shows "dt_micros t < max_micros"
proof -
  obtain y m d where t: "dt_date t = (y, m, d)" by (cases "dt_date t")
  have v: "valid_date (y, m, d)" using assms t by (simp add: valid_dt_def)
  have y: "1 \<le> y" "y \<le> 9999" using v by (auto simp: valid_date_def)
  have "days_before_year 10000 = 3652059" by (simp add: days_before_year_def)
  then have "ymd2ord (dt_date t) \<le> 3652059"
    using days_before_year_mono [OF y(1), of 10000] y(2) day_of_year(2) [OF v] by (simp add: t ymd2ord_def)
  moreover define D where "D = ymd2ord (dt_date t) - 1"
  ultimately have D: "D \<le> 3652058" by simp
  have "dt_hour t \<le> 23" "dt_minute t \<le> 59" "dt_second t \<le> 59" "dt_micro t \<le> 999999"
    using assms by (auto simp: valid_dt_def)
  then have "seconds_of_day t \<le> 86399" "dt_micro t \<le> 999999" by (simp_all add: seconds_of_day_def)
  moreover from this(1) D have "D * 86400 + seconds_of_day t \<le> 315537897599" by simp
  ultimately show ?thesis unfolding dt_micros_def max_micros_def D_def [symmetric] by simp
qed

end
