(* ===== verification/Anchor_Store.thy ===== *)
theory Anchor_Store
  imports Anchor Py_Datetime_Order
begin

text \<open>
  The lifecycle states of a proof and the database that keeps them, \<^verbatim>\<open>LifecycleStore\<close> of
  \<^verbatim>\<open>src/forensics/anchor_worker.py\<close>. A row of the table is a record, the table the list of its rows in the
  order of their ids, and an operation one committed transaction: the new table, or the exception and the
  table as it was. The interface \<open>lifecycle_store\<close> states what the worker relies on.
\<close>

section \<open>States\<close>

datatype anchor_state =
    Queued
  | SubmittedPending
  | UpgradedUnverified
  | IndependentlyVerified
  | RetryFailed

fun state_text :: "anchor_state \<Rightarrow> string" where
  "state_text Queued = ''queued''"
| "state_text SubmittedPending = ''submitted_pending''"
| "state_text UpgradedUnverified = ''upgraded_unverified''"
| "state_text IndependentlyVerified = ''independently_verified''"
| "state_text RetryFailed = ''retry_failed''"

definition RETRY_SOURCES :: "anchor_state list" where
  "RETRY_SOURCES = [Queued, SubmittedPending, UpgradedUnverified]"

fun ALLOWED_TRANSITIONS :: "anchor_state \<Rightarrow> anchor_state list" where
  "ALLOWED_TRANSITIONS Queued = [SubmittedPending, UpgradedUnverified, RetryFailed]"
| "ALLOWED_TRANSITIONS SubmittedPending = [UpgradedUnverified, RetryFailed]"
| "ALLOWED_TRANSITIONS UpgradedUnverified = [RetryFailed]"
| "ALLOWED_TRANSITIONS RetryFailed = RETRY_SOURCES"
| "ALLOWED_TRANSITIONS IndependentlyVerified = []"

datatype failure_class = TransientFailure | IntegrityFailure

section \<open>The table\<close>

record anchor_row =
  ar_id :: nat
  ar_sequence :: int
  ar_tip_hash :: pystr
  ar_state :: anchor_state
  ar_proof_path :: pystr
  ar_attempt_count :: int
  ar_last_attempt :: "pystr option"
  ar_next_attempt :: "pystr option"
  ar_last_error :: "pystr option"
  ar_retry_from :: "anchor_state option"
  ar_failure_class :: "failure_class option"
  ar_verified_height :: "int option"
  ar_verified_hash :: "pystr option"
  ar_verified_time :: "pystr option"
  ar_verified_confirmations :: "int option"
  ar_interval_minutes :: int
  ar_confirmation_threshold :: int

type_synonym anchor_db = "anchor_row list"

definition row_key :: "anchor_row \<Rightarrow> int \<times> pystr" where
  "row_key r = (ar_sequence r, ar_tip_hash r)"

text \<open>The \<^verbatim>\<open>CHECK\<close> clauses of the table.\<close>

definition row_checks :: "anchor_row \<Rightarrow> bool" where
  "row_checks r \<longleftrightarrow> 0 \<le> ar_attempt_count r \<and>
     (case ar_retry_from r of None \<Rightarrow> True | Some s \<Rightarrow> s \<in> set RETRY_SOURCES)"

text \<open>An \<^verbatim>\<open>int\<close> bound to a parameter must fit SQLite's 64 bits.\<close>

definition bind_int :: "int \<Rightarrow> py_exn + unit" where
  "bind_int n = raise_if (\<not> (- (2 ^ 63) \<le> n \<and> n < 2 ^ 63))
     (py_error ''OverflowError'' ''Python int too large to convert to SQLite INTEGER'')"

definition next_id :: "anchor_db \<Rightarrow> nat" where
  "next_id db = foldr max (map ar_id db) 0 + 1"

definition new_row :: "nat \<Rightarrow> int \<Rightarrow> pystr \<Rightarrow> pystr \<Rightarrow> int \<Rightarrow> int \<Rightarrow> anchor_row" where
  "new_row i sequence tip_hash proof_path interval threshold =
     \<lparr>ar_id = i, ar_sequence = sequence, ar_tip_hash = tip_hash, ar_state = Queued,
      ar_proof_path = proof_path, ar_attempt_count = 0, ar_last_attempt = None, ar_next_attempt = None,
      ar_last_error = None, ar_retry_from = None, ar_failure_class = None, ar_verified_height = None,
      ar_verified_hash = None, ar_verified_time = None, ar_verified_confirmations = None,
      ar_interval_minutes = interval, ar_confirmation_threshold = threshold\<rparr>"

section \<open>Operations\<close>

text \<open>\<^verbatim>\<open>INSERT OR IGNORE\<close>: nothing happens when a row with the sequence and tip hash exists.\<close>

definition track_tip ::
    "int \<Rightarrow> pystr \<Rightarrow> pystr \<Rightarrow> int \<Rightarrow> int \<Rightarrow> anchor_db \<Rightarrow> py_exn + bool \<times> anchor_db" where
  "track_tip sequence tip_hash proof_path interval threshold db =
     rbind (bind_int sequence) (\<lambda>_.
     rbind (bind_int interval) (\<lambda>_.
     rbind (bind_int threshold) (\<lambda>_.
       if list_ex (\<lambda>r. row_key r = (sequence, tip_hash)) db then Inr (False, db)
       else Inr (True, db @ [new_row (next_id db) sequence tip_hash proof_path interval threshold]))))"

definition get_row :: "int \<Rightarrow> pystr \<Rightarrow> anchor_db \<Rightarrow> py_exn + anchor_row" where
  "get_row sequence tip_hash db =
     (case filter (\<lambda>r. row_key r = (sequence, tip_hash)) db of
        [] \<Rightarrow> Inl (PyExn (PyError ''KeyError'')
                 (lit ''('' @ int_digits_text sequence @ lit '', '' @ [39] @ tip_hash @ [39] @ lit '')''))
      | r # _ \<Rightarrow> Inr r)"

definition count_rows :: "int \<Rightarrow> pystr \<Rightarrow> anchor_db \<Rightarrow> nat" where
  "count_rows sequence tip_hash db = length (filter (\<lambda>r. row_key r = (sequence, tip_hash)) db)"

definition is_due :: "pystr \<Rightarrow> anchor_row \<Rightarrow> bool" where
  "is_due now r \<longleftrightarrow>
     ar_state r = Queued \<or>
     (ar_state r = SubmittedPending \<and>
       (case ar_next_attempt r of None \<Rightarrow> True | Some t \<Rightarrow> text_le t now)) \<or>
     (ar_state r = RetryFailed \<and> ar_failure_class r = Some TransientFailure \<and>
       (case ar_next_attempt r of None \<Rightarrow> False | Some t \<Rightarrow> text_le t now))"

text \<open>SQL leaves the order of rows with equal sequence open; here they stay in the order of the table.\<close>

definition due_jobs :: "pystr \<Rightarrow> anchor_db \<Rightarrow> anchor_row list" where
  "due_jobs now db = sort_key ar_sequence (filter (is_due now) db)"

text \<open>
  An \<^verbatim>\<open>UPDATE ... WHERE\<close> that must change exactly one row, with the rollback otherwise, followed by the
  \<^verbatim>\<open>SELECT\<close> of the row.
\<close>

type_synonym store_result = "(py_exn + anchor_row) \<times> anchor_db"

definition update_rows ::
    "(anchor_row \<Rightarrow> bool) \<Rightarrow> (anchor_row \<Rightarrow> anchor_row) \<Rightarrow> anchor_db \<Rightarrow> anchor_db option" where
  "update_rows P f db =
     (if length (filter P db) \<noteq> 1 then None else Some (map (\<lambda>r. if P r then f r else r) db))"

definition update_one ::
    "(anchor_row \<Rightarrow> bool) \<Rightarrow> (anchor_row \<Rightarrow> anchor_row) \<Rightarrow> anchor_row \<Rightarrow> anchor_db \<Rightarrow> store_result" where
  "update_one P f job db =
     (case update_rows P f db of
        None \<Rightarrow> (Inl (py_error ''RuntimeError'' ''anchor state changed concurrently''), db)
      | Some db' \<Rightarrow> (get_row (ar_sequence job) (ar_tip_hash job) db', db'))"

definition transition ::
    "anchor_row \<Rightarrow> anchor_state \<Rightarrow> pystr \<Rightarrow> pystr option \<Rightarrow> anchor_db \<Rightarrow> store_result" where
  "transition job state now next_attempt db =
     (let current = ar_state job in
      if state \<notin> set (ALLOWED_TRANSITIONS current) then
        (Inl (py_error ''ValueError''
          (''forbidden anchor transition: '' @ state_text current @ '' -> '' @ state_text state)), db)
      else
        update_one (\<lambda>r. ar_id r = ar_id job \<and> ar_state r = current)
          (\<lambda>r. r\<lparr>ar_state := state, ar_last_attempt := Some now, ar_next_attempt := next_attempt,
             ar_last_error := None, ar_retry_from := None, ar_failure_class := None\<rparr>) job db)"

definition pending_checked :: "anchor_row \<Rightarrow> pystr \<Rightarrow> pystr \<Rightarrow> anchor_db \<Rightarrow> store_result" where
  "pending_checked job now next_attempt db =
     update_one (\<lambda>r. ar_id r = ar_id job \<and> ar_state r = SubmittedPending)
       (\<lambda>r. r\<lparr>ar_last_attempt := Some now, ar_next_attempt := Some next_attempt, ar_last_error := None,
          ar_retry_from := None, ar_failure_class := None\<rparr>) job db"

definition record_failure ::
    "anchor_row \<Rightarrow> failure_class \<Rightarrow> pystr \<Rightarrow> pystr \<Rightarrow> pystr option \<Rightarrow> anchor_db \<Rightarrow> store_result" where
  "record_failure job failure error now next_attempt db =
     (let current = ar_state job; attempt_count = ar_attempt_count job + 1 in
      if current \<notin> set RETRY_SOURCES then
        (Inl (py_error ''ValueError'' (''cannot fail anchor job from '' @ state_text current)), db)
      else case bind_int attempt_count of
        Inl e \<Rightarrow> (Inl e, db)
      | Inr _ \<Rightarrow>
          update_one (\<lambda>r. ar_id r = ar_id job \<and> ar_state r = current)
            (\<lambda>r. r\<lparr>ar_state := RetryFailed, ar_attempt_count := attempt_count, ar_last_attempt := Some now,
               ar_next_attempt := next_attempt, ar_last_error := Some error, ar_retry_from := Some current,
               ar_failure_class := Some failure\<rparr>) job db)"

definition resume_retry :: "anchor_row \<Rightarrow> anchor_db \<Rightarrow> store_result" where
  "resume_retry job db =
     (case ar_retry_from job of
        Some retry_from \<Rightarrow>
          if ar_state job \<noteq> RetryFailed \<or> retry_from \<notin> set RETRY_SOURCES then
            (Inl (py_error ''ValueError'' ''anchor job has no retry source''), db)
          else
            update_one (\<lambda>r. ar_id r = ar_id job \<and> ar_state r = RetryFailed)
              (\<lambda>r. r\<lparr>ar_state := retry_from, ar_next_attempt := None, ar_failure_class := None\<rparr>) job db
      | None \<Rightarrow> (Inl (py_error ''ValueError'' ''anchor job has no retry source''), db))"

section \<open>What the worker relies on\<close>

text \<open>
  A store whose operations each expect a state of the row they name and give it another: an operation
  succeeds exactly when the row is in the expected state, and changes no other row. Two processes that read
  the same state and both leave it cannot both succeed, and every run of operations moves a row only along
  allowed steps.
\<close>

locale lifecycle_store =
  fixes inv :: "'db \<Rightarrow> bool"
    and state_of :: "'db \<Rightarrow> 'k \<Rightarrow> 's option"
    and apply_op :: "'op \<Rightarrow> 'db \<Rightarrow> 'db option"
    and key_of :: "'op \<Rightarrow> 'k"
    and expects :: "'op \<Rightarrow> 's"
    and gives :: "'op \<Rightarrow> 's"
    and enabled :: "'op \<Rightarrow> bool"
    and allowed :: "'s \<Rightarrow> 's \<Rightarrow> bool"
  assumes apply_iff: "inv db \<Longrightarrow> (\<exists>db'. apply_op p db = Some db') \<longleftrightarrow>
      enabled p \<and> state_of db (key_of p) = Some (expects p)"
    and apply_inv: "inv db \<Longrightarrow> apply_op p db = Some db' \<Longrightarrow> inv db'"
    and apply_state: "inv db \<Longrightarrow> apply_op p db = Some db' \<Longrightarrow>
      state_of db' k = (if k = key_of p then Some (gives p) else state_of db k)"
    and enabled_allowed: "enabled p \<Longrightarrow> gives p = expects p \<or> allowed (expects p) (gives p)"
begin

fun run :: "'op list \<Rightarrow> 'db \<Rightarrow> 'db" where
  "run [] db = db"
| "run (p # ps) db = (case apply_op p db of None \<Rightarrow> run ps db | Some db' \<Rightarrow> run ps db')"

lemma exclusive:
  assumes "inv db" and "apply_op p db = Some db'" and "key_of q = key_of p" and "expects q \<noteq> gives p"
  shows "apply_op q db' = None"
proof (rule ccontr)
  assume "apply_op q db' \<noteq> None"
  then have "state_of db' (key_of q) = Some (expects q)" using apply_iff [OF apply_inv [OF assms(1,2)]] by blast
  then show False using apply_state [OF assms(1,2)] assms(3,4) by auto
qed

lemma run_inv: "inv db \<Longrightarrow> inv (run ps db)"
  by (induction ps arbitrary: db) (auto split: option.splits intro: apply_inv)

lemma run_allowed:
  assumes "inv db" and "state_of db k = Some s"
  shows "\<exists>s'. state_of (run ps db) k = Some s' \<and> allowed\<^sup>*\<^sup>* s s'"
  using assms
proof (induction ps arbitrary: db s)
  case (Cons p ps)
  show ?case
  proof (cases "apply_op p db")
    case None
    with Cons show ?thesis by simp
  next
    case (Some db')
    have p: "enabled p" "state_of db (key_of p) = Some (expects p)" using apply_iff [OF Cons.prems(1)] Some by blast+
    define s1 where "s1 = (if k = key_of p then gives p else s)"
    have s1: "state_of db' k = Some s1" "allowed\<^sup>*\<^sup>* s s1"
      using apply_state [OF Cons.prems(1) Some] Cons.prems(2) p enabled_allowed [OF p(1)]
      by (auto simp: s1_def)
    from Cons.IH [OF apply_inv [OF Cons.prems(1) Some] s1(1)] s1(2) Some show ?thesis
      by (auto intro: rtranclp_trans)
  qed
qed auto

end

section \<open>The database is such a store\<close>

datatype store_op =
    OpTransition anchor_row anchor_state pystr "pystr option"
  | OpChecked anchor_row pystr pystr
  | OpFailure anchor_row failure_class pystr pystr "pystr option"
  | OpResume anchor_row

fun run_store_op :: "store_op \<Rightarrow> anchor_db \<Rightarrow> store_result" where
  "run_store_op (OpTransition job state now next_attempt) db = transition job state now next_attempt db"
| "run_store_op (OpChecked job now next_attempt) db = pending_checked job now next_attempt db"
| "run_store_op (OpFailure job failure error now next_attempt) db = record_failure job failure error now next_attempt db"
| "run_store_op (OpResume job) db = resume_retry job db"

fun op_job :: "store_op \<Rightarrow> anchor_row" where
  "op_job (OpTransition job state now next_attempt) = job"
| "op_job (OpChecked job now next_attempt) = job"
| "op_job (OpFailure job failure error now next_attempt) = job"
| "op_job (OpResume job) = job"

fun op_expects :: "store_op \<Rightarrow> anchor_state" where
  "op_expects (OpTransition job state now next_attempt) = ar_state job"
| "op_expects (OpChecked job now next_attempt) = SubmittedPending"
| "op_expects (OpFailure job failure error now next_attempt) = ar_state job"
| "op_expects (OpResume job) = RetryFailed"

fun op_gives :: "store_op \<Rightarrow> anchor_state" where
  "op_gives (OpTransition job state now next_attempt) = state"
| "op_gives (OpChecked job now next_attempt) = SubmittedPending"
| "op_gives (OpFailure job failure error now next_attempt) = RetryFailed"
| "op_gives (OpResume job) = the (ar_retry_from job)"

fun op_enabled :: "store_op \<Rightarrow> bool" where
  "op_enabled (OpTransition job state now next_attempt) = (state \<in> set (ALLOWED_TRANSITIONS (ar_state job)))"
| "op_enabled (OpChecked job now next_attempt) = True"
| "op_enabled (OpFailure job failure error now next_attempt) =
     (ar_state job \<in> set RETRY_SOURCES \<and> bind_int (ar_attempt_count job + 1) = Inr ())"
| "op_enabled (OpResume job) =
     (ar_state job = RetryFailed \<and> (case ar_retry_from job of None \<Rightarrow> False | Some s \<Rightarrow> s \<in> set RETRY_SOURCES))"

fun op_change :: "store_op \<Rightarrow> anchor_row \<Rightarrow> anchor_row" where
  "op_change (OpTransition job state now next_attempt) r =
     r\<lparr>ar_state := state, ar_last_attempt := Some now, ar_next_attempt := next_attempt, ar_last_error := None,
       ar_retry_from := None, ar_failure_class := None\<rparr>"
| "op_change (OpChecked job now next_attempt) r =
     r\<lparr>ar_last_attempt := Some now, ar_next_attempt := Some next_attempt, ar_last_error := None,
       ar_retry_from := None, ar_failure_class := None\<rparr>"
| "op_change (OpFailure job failure error now next_attempt) r =
     r\<lparr>ar_state := RetryFailed, ar_attempt_count := ar_attempt_count job + 1, ar_last_attempt := Some now,
       ar_next_attempt := next_attempt, ar_last_error := Some error, ar_retry_from := Some (ar_state job),
       ar_failure_class := Some failure\<rparr>"
| "op_change (OpResume job) r = r\<lparr>ar_state := the (ar_retry_from job), ar_next_attempt := None, ar_failure_class := None\<rparr>"

definition op_target :: "store_op \<Rightarrow> anchor_row \<Rightarrow> bool" where
  "op_target p r \<longleftrightarrow> ar_id r = ar_id (op_job p) \<and> ar_state r = op_expects p"

text \<open>The commit of an operation, \<open>None\<close> when it raises before.\<close>

definition apply_store_op :: "store_op \<Rightarrow> anchor_db \<Rightarrow> anchor_db option" where
  "apply_store_op p db = (if op_enabled p then update_rows (op_target p) (op_change p) db else None)"

definition state_of_id :: "anchor_db \<Rightarrow> nat \<Rightarrow> anchor_state option" where
  "state_of_id db i = map_of (map (\<lambda>r. (ar_id r, ar_state r)) db) i"

definition allowed_step :: "anchor_state \<Rightarrow> anchor_state \<Rightarrow> bool" where
  "allowed_step s t \<longleftrightarrow> t \<in> set (ALLOWED_TRANSITIONS s)"

definition db_ok :: "anchor_db \<Rightarrow> bool" where
  "db_ok db \<longleftrightarrow> distinct (map ar_id db) \<and> distinct (map row_key db)"

lemma op_target_eta: "op_target p = (\<lambda>r. ar_id r = ar_id (op_job p) \<and> ar_state r = op_expects p)"
  by (simp add: fun_eq_iff op_target_def)

lemmas op_change_eta = op_change.simps [THEN eq_reflection, abs_def, THEN meta_eq_to_obj_eq]

definition change_rows :: "store_op \<Rightarrow> anchor_db \<Rightarrow> anchor_db" where
  "change_rows p db = map (\<lambda>r. if op_target p r then op_change p r else r) db"

lemma store_op_apply:
  "run_store_op p db =
    (case apply_store_op p db of
       None \<Rightarrow> (Inl (if op_enabled p then py_error ''RuntimeError'' ''anchor state changed concurrently''
                    else projl (fst (run_store_op p db))), db)
     | Some db' \<Rightarrow> (get_row (ar_sequence (op_job p)) (ar_tip_hash (op_job p)) db', db'))"
  by (cases p) (auto simp: transition_def pending_checked_def record_failure_def resume_retry_def update_one_def
      apply_store_op_def op_target_eta op_change_eta Let_def simp del: op_change.simps
      split: option.splits sum.splits)

lemma op_change_keeps [simp]:
  "ar_id (op_change p r) = ar_id r" "ar_sequence (op_change p r) = ar_sequence r"
  "ar_tip_hash (op_change p r) = ar_tip_hash r" "ar_proof_path (op_change p r) = ar_proof_path r"
  "ar_interval_minutes (op_change p r) = ar_interval_minutes r" "row_key (op_change p r) = row_key r"
  by (cases p; simp add: row_key_def)+

lemma op_change_state: "ar_state r = op_expects p \<Longrightarrow> ar_state (op_change p r) = op_gives p"
  by (cases p) simp_all

lemma map_change_rows [simp]:
  "map ar_id (change_rows p db) = map ar_id db" "map row_key (change_rows p db) = map row_key db"
  by (simp_all add: change_rows_def)

lemma set_change_rows: "set (change_rows p db) = (\<lambda>r. if op_target p r then op_change p r else r) ` set db"
  by (simp add: change_rows_def)

lemma filter_one_iff:
  assumes "distinct (map f db)"
  shows "length (filter (\<lambda>r. f r = i \<and> Q r) db) = 1 \<longleftrightarrow> (\<exists>r \<in> set db. f r = i \<and> Q r)"
proof -
  have "inj_on f (set db)" "distinct db" using assms by (auto simp: distinct_map)
  then have c: "length (filter (\<lambda>r. f r = i \<and> Q r) db) = card {r \<in> set db. f r = i \<and> Q r}"
    by (simp add: distinct_length_filter Collect_conj_eq Int_commute)
  show ?thesis
  proof
    assume "length (filter (\<lambda>r. f r = i \<and> Q r) db) = 1"
    then show "\<exists>r \<in> set db. f r = i \<and> Q r" unfolding c by (metis (mono_tags, lifting) card_1_singletonE mem_Collect_eq singletonI)
  next
    assume "\<exists>r \<in> set db. f r = i \<and> Q r"
    then obtain r where "r \<in> set db" "f r = i" "Q r" by blast
    then have "{r \<in> set db. f r = i \<and> Q r} = {r}" using \<open>inj_on f (set db)\<close> by (auto dest: inj_onD)
    then show "length (filter (\<lambda>r. f r = i \<and> Q r) db) = 1" unfolding c by simp
  qed
qed

lemma state_of_id_iff:
  "distinct (map ar_id db) \<Longrightarrow> state_of_id db i = Some s \<longleftrightarrow> (\<exists>r \<in> set db. ar_id r = i \<and> ar_state r = s)"
  by (force simp: state_of_id_def comp_def image_iff dest: map_of_SomeD)

lemma apply_store_op_Some:
  assumes "distinct (map ar_id db)"
  shows "apply_store_op p db = Some db' \<longleftrightarrow> op_enabled p \<and> (\<exists>r \<in> set db. op_target p r) \<and>
    db' = change_rows p db"
  using filter_one_iff [OF assms, of "ar_id (op_job p)" "\<lambda>r. ar_state r = op_expects p"]
  by (auto simp: apply_store_op_def update_rows_def change_rows_def op_target_eta)

lemma apply_store_op_ok: "db_ok db \<Longrightarrow> apply_store_op p db = Some db' \<Longrightarrow> db_ok db'"
  by (auto simp: db_ok_def apply_store_op_Some)

lemma op_gives_allowed: "op_enabled p \<Longrightarrow> op_gives p = op_expects p \<or> allowed_step (op_expects p) (op_gives p)"
  by (cases p) (auto simp: allowed_step_def RETRY_SOURCES_def split: option.splits)

lemma apply_store_op_state:
  assumes "db_ok db" and "apply_store_op p db = Some db'"
  shows "state_of_id db' i = (if i = ar_id (op_job p) then Some (op_gives p) else state_of_id db i)"
proof -
  have d: "distinct (map ar_id db)" using assms(1) by (simp add: db_ok_def)
  note a = assms(2) [unfolded apply_store_op_Some [OF d]]
  have d': "distinct (map ar_id db')" using a d by simp
  have "state_of_id db' i = Some s \<longleftrightarrow>
      (\<exists>r \<in> set db. ar_id r = i \<and> (if op_target p r then op_gives p else ar_state r) = s)" for s
  proof -
    have "(ar_id (if op_target p r then op_change p r else r) = i \<and> ar_state (if op_target p r then op_change p r else r) = s)
        \<longleftrightarrow> (ar_id r = i \<and> (if op_target p r then op_gives p else ar_state r) = s)" for r
      using op_change_state [of r p] by (simp add: op_target_def)
    moreover have "set db' = (\<lambda>r. if op_target p r then op_change p r else r) ` set db"
      using a by (simp add: set_change_rows)
    ultimately show ?thesis unfolding state_of_id_iff [OF d'] by (simp only: bex_simps(7))
  qed
  moreover obtain t where t: "t \<in> set db" "op_target p t" using a by blast
  moreover have "r = t" if "r \<in> set db" "ar_id r = ar_id (op_job p)" for r
    using d that t by (simp add: distinct_map op_target_def inj_on_def)
  ultimately have "state_of_id db' i = Some s \<longleftrightarrow>
      (if i = ar_id (op_job p) then Some (op_gives p) else state_of_id db i) = Some s" for s
    using state_of_id_iff [OF d, of i s] by (auto simp: op_target_def)
  then show ?thesis by (metis option.exhaust)
qed

interpretation anchors: lifecycle_store db_ok state_of_id apply_store_op "\<lambda>p. ar_id (op_job p)" op_expects op_gives
  op_enabled allowed_step
proof
  fix db p
  assume "db_ok db"
  then have d: "distinct (map ar_id db)" by (simp add: db_ok_def)
  show "(\<exists>db'. apply_store_op p db = Some db') \<longleftrightarrow> op_enabled p \<and> state_of_id db (ar_id (op_job p)) = Some (op_expects p)"
    by (simp add: apply_store_op_Some [OF d] state_of_id_iff [OF d] op_target_def)
qed (use apply_store_op_ok apply_store_op_state op_gives_allowed in blast)+

end
