(* ===== verification/Py_Float_Arith.thy ===== *)
theory Py_Float_Arith
  imports Py_Float
begin

text \<open>
  Addition and multiplication of floats that are not negative, correctly rounded, and the two facts about
  rounding the bounds on computed values rest on: a value at least (at most) a float is rounded to at
  least (at most) that float.
\<close>

section \<open>Operations\<close>

text \<open>Sum and product of two finite values that are not negative: past the range, infinity.\<close>

definition f64_add :: "f64 \<Rightarrow> f64 \<Rightarrow> f64" where
  "f64_add x y =
     mk_f64 False (min (round_units (mag_val (f64_mag x) + mag_val (f64_mag y)) 1) inf_mag)"

definition f64_mul :: "f64 \<Rightarrow> f64 \<Rightarrow> f64" where
  "f64_mul x y =
     mk_f64 False (min (round_units (mag_val (f64_mag x) * mag_val (f64_mag y)) f64_unit) inf_mag)"

text \<open>\<^verbatim>\<open>min(x, y)\<close>: the first argument unless the second is smaller.\<close>

definition f64_min :: "f64 \<Rightarrow> f64 \<Rightarrow> f64" where
  "f64_min x y = (if f64_key y < f64_key x then y else x)"

section \<open>Rounding is monotone at floats\<close>

lemma round_half_even_ge:
  assumes "0 < d" and "m * d \<le> n"
  shows "m \<le> round_half_even n d"
proof -
  have "m \<le> n div d" using assms by (simp add: less_eq_div_iff_mult_less_eq)
  then show ?thesis by (auto simp: round_half_even_def Let_def)
qed

lemma round_half_even_le:
  assumes "0 < d" and "n \<le> m * d"
  shows "round_half_even n d \<le> m"
proof (rule ccontr)
  assume "\<not> round_half_even n d \<le> m"
  then have "(m + 1) * d \<le> round_half_even n d * d" by (intro mult_right_mono) simp_all
  then have "2 * (m * d) + 2 * d \<le> 2 * (round_half_even n d * d)" by (simp add: algebra_simps)
  with round_half_even_close(1) [OF assms(1), of n] assms show False by linarith
qed

text \<open>The exponent of the rounded value, and the binade of the rounded ratio.\<close>

lemma round_units_binade:
  assumes "0 < d"
  obtains e where "round_units N d = e * 4503599627370496 + round_half_even N (d * 2 ^ e)"
    "N < 2 ^ (53 + e) * d" "e = 0 \<or> 2 ^ (52 + e) * d \<le> N"
proof
  define k where "k = N div d"
  define e where "e = floorlog 2 k - 53"
  show "round_units N d = e * 4503599627370496 + round_half_even N (d * 2 ^ e)"
    by (simp add: round_units_def Let_def e_def k_def)
  have "k < 2 ^ floorlog 2 k" using floorlog_bounds [of k 2] by (cases "k = 0") (auto simp: floorlog_def)
  also have "(2::nat) ^ floorlog 2 k \<le> 2 ^ (53 + e)" by (rule power_increasing) (simp_all add: e_def)
  finally show "N < 2 ^ (53 + e) * d" using assms by (simp add: k_def div_less_iff_less_mult)
  show "e = 0 \<or> 2 ^ (52 + e) * d \<le> N"
  proof (cases "e = 0")
    case False
    then have f: "floorlog 2 k = 53 + e" by (simp add: e_def)
    then have "k \<noteq> 0" by (auto simp: floorlog_def split: if_splits)
    then have "2 ^ (52 + e) \<le> k" using floorlog_bounds [of k 2] f by simp
    then show ?thesis using assms by (simp add: k_def less_eq_div_iff_mult_less_eq)
  qed simp
qed

lemma round_units_ge:
  assumes "0 < d" and "mag_val M * d \<le> N"
  shows "M \<le> round_units N d"
proof -
  obtain e where e: "round_units N d = e * 4503599627370496 + round_half_even N (d * 2 ^ e)"
    "N < 2 ^ (53 + e) * d" "e = 0 \<or> 2 ^ (52 + e) * d \<le> N"
    using round_units_binade [OF assms(1)] .
  have pos: "0 < d * 2 ^ e" using assms(1) by simp
  note M = mag_decomp [of M] mag_mant_less [of M]
  consider "mag_exp M < e" | "mag_exp M = e" | "e < mag_exp M" by linarith
  then show ?thesis
  proof cases
    case 1
    then have "4503599627370496 * (d * 2 ^ e) \<le> N" using e(3) by (simp add: power_add ac_simps)
    then have "4503599627370496 \<le> round_half_even N (d * 2 ^ e)" by (rule round_half_even_ge [OF pos])
    moreover have "Suc (mag_exp M) * 4503599627370496 \<le> e * 4503599627370496"
      using 1 by (intro mult_right_mono) simp_all
    ultimately show ?thesis using M e(1) by simp
  next
    case 2
    then have "mag_mant M * (d * 2 ^ e) \<le> N" using assms(2) by (simp add: mag_val_def ac_simps)
    then have "mag_mant M \<le> round_half_even N (d * 2 ^ e)" by (rule round_half_even_ge [OF pos])
    then show ?thesis using M(1) 2 e(1) by simp
  next
    case 3
    have "2 ^ (53 + e) * d \<le> 2 ^ (52 + mag_exp M) * d"
      using 3 by (intro mult_right_mono power_increasing) simp_all
    also have "\<dots> = 4503599627370496 * 2 ^ mag_exp M * d" by (simp add: power_add)
    also have "\<dots> \<le> mag_val M * d"
      unfolding mag_val_def using mag_mant_ge [of M] 3 by (intro mult_right_mono) simp_all
    also have "\<dots> \<le> N" by (rule assms(2))
    finally show ?thesis using e(2) by simp
  qed
qed

lemma round_units_le:
  assumes "0 < d" and "N \<le> mag_val M * d"
  shows "round_units N d \<le> M"
proof -
  obtain e where e: "round_units N d = e * 4503599627370496 + round_half_even N (d * 2 ^ e)"
    "N < 2 ^ (53 + e) * d" "e = 0 \<or> 2 ^ (52 + e) * d \<le> N"
    using round_units_binade [OF assms(1)] .
  have pos: "0 < d * 2 ^ e" using assms(1) by simp
  note M = mag_decomp [of M] mag_mant_less [of M]
  consider "e < mag_exp M" | "e = mag_exp M" | "mag_exp M < e" by linarith
  then show ?thesis
  proof cases
    case 1
    have "N \<le> 9007199254740992 * (d * 2 ^ e)" using e(2) by (simp add: power_add ac_simps)
    then have "round_half_even N (d * 2 ^ e) \<le> 9007199254740992" by (rule round_half_even_le [OF pos])
    moreover have "Suc e * 4503599627370496 \<le> mag_exp M * 4503599627370496"
      using 1 by (intro mult_right_mono) simp_all
    ultimately show ?thesis using M(1) mag_mant_ge [of M] 1 e(1) by simp
  next
    case 2
    then have "N \<le> mag_mant M * (d * 2 ^ e)" using assms(2) by (simp add: mag_val_def ac_simps)
    then have "round_half_even N (d * 2 ^ e) \<le> mag_mant M" by (rule round_half_even_le [OF pos])
    then show ?thesis using M(1) 2 e(1) by simp
  next
    case 3
    have "mag_val M * d < 9007199254740992 * 2 ^ mag_exp M * d"
      using M(2) assms(1) by (simp add: mag_val_def)
    also have "\<dots> = 2 ^ (53 + mag_exp M) * d" by (simp add: power_add)
    also have "\<dots> \<le> 2 ^ (52 + e) * d" using 3 by (intro mult_right_mono power_increasing) simp_all
    also have "\<dots> \<le> N" using e(3) 3 by auto
    finally show ?thesis using assms(2) by simp
  qed
qed

section \<open>Exact values\<close>

lemma mag_val_le_iff: "mag_val M \<le> mag_val M' \<longleftrightarrow> M \<le> M'"
proof -
  have le: "a \<le> b" if "mag_val a \<le> mag_val b" for a b
    using round_units_ge [of 1 a "mag_val b"] round_units_le [of 1 "mag_val b" b] that by simp
  from le [of M M'] le [of M' M] show ?thesis by (cases "mag_val M \<le> mag_val M'") auto
qed

lemma round_units_exact: "0 < d \<Longrightarrow> round_units (mag_val M * d) d = M"
  by (intro antisym round_units_le round_units_ge) simp_all

lemma mag_val_of:
  assumes "4503599627370496 \<le> m" and "m < 9007199254740992"
  shows "mag_val (e * 4503599627370496 + m) = m * 2 ^ e"
proof -
  define r where "r = m - 4503599627370496"
  have r: "m = 4503599627370496 + r" "r < 4503599627370496" using assms by (simp_all add: r_def)
  have M: "e * 4503599627370496 + m = Suc e * 4503599627370496 + r" using r by simp
  have "mag_mant (Suc e * 4503599627370496 + r) = m" "mag_exp (Suc e * 4503599627370496 + r) = e"
    using r mod_mult_self3 [of "Suc e" 4503599627370496 r]
    by (simp_all add: mag_mant_def mag_exp_def ac_simps)
  then show ?thesis unfolding M by (simp add: mag_val_def)
qed

text \<open>Integers below \<open>2 ^ 53\<close> are floats.\<close>

definition int_mag :: "nat \<Rightarrow> nat" where
  "int_mag c = (if c = 0 then 0 else
     (1021 + floorlog 2 c) * 4503599627370496 + c * 2 ^ (53 - floorlog 2 c))"

lemma mag_val_int_mag:
  assumes "c < 9007199254740992"
  shows "mag_val (int_mag c) = c * f64_unit" and "int_mag c < inf_mag"
proof -
  have "mag_val (int_mag c) = c * f64_unit \<and> int_mag c < inf_mag"
  proof (cases "c = 0")
    case True
    then show ?thesis by (simp add: int_mag_def mag_val_def mag_mant_def inf_mag_def)
  next
    case False
    define L where "L = floorlog 2 c"
    have b: "2 ^ (L - 1) \<le> c" "c < 2 ^ L" using floorlog_bounds [of c 2] False by (auto simp: L_def)
    have "c < 2 ^ 53" using assms by simp
    then have "L \<le> 53" unfolding L_def by (intro floorlog_leI) simp_all
    moreover have "0 < L" using False b by (cases L) auto
    ultimately have L: "L \<le> 53" "0 < L" by simp_all
    have "(2::nat) ^ 52 = 2 ^ (L - 1) * 2 ^ (53 - L)" using L by (simp flip: power_add)
    also have "\<dots> \<le> c * 2 ^ (53 - L)" using b(1) by (rule mult_right_mono) simp
    finally have m1: "4503599627370496 \<le> c * 2 ^ (53 - L)" by simp
    have "c * 2 ^ (53 - L) < 2 ^ L * 2 ^ (53 - L)" using b(2) by simp
    also have "\<dots> = 2 ^ 53" using L by (simp flip: power_add)
    finally have m: "4503599627370496 \<le> c * 2 ^ (53 - L)" "c * 2 ^ (53 - L) < 9007199254740992"
      using m1 by simp_all
    have "c * 2 ^ (53 - L) * 2 ^ (1021 + L) = c * f64_unit"
      using L by (simp add: f64_unit_def mult.assoc flip: power_add)
    moreover have "int_mag c = (1021 + L) * 4503599627370496 + c * 2 ^ (53 - L)"
      using False by (simp add: int_mag_def L_def)
    moreover have "(1021 + L) * 4503599627370496 + c * 2 ^ (53 - L) < inf_mag"
      using m(2) L(1) by (simp add: inf_mag_def)
    ultimately show ?thesis using mag_val_of [OF m, of "1021 + L"] by simp
  qed
  then show "mag_val (int_mag c) = c * f64_unit" and "int_mag c < inf_mag" by simp_all
qed

lemma f64_mag_mk [simp]: "m < 9223372036854775808 \<Longrightarrow> f64_mag (mk_f64 False m) = m"
  by (simp add: f64_mag_def mk_f64_def unat_of_nat)

lemma f64_neg_mk [simp]: "m < 9223372036854775808 \<Longrightarrow> \<not> f64_neg (mk_f64 False m)"
  by (simp add: f64_neg_def mk_f64_def unat_of_nat)

lemma f64_of_int_mag:
  assumes "0 \<le> n" and "mag_val M = nat n * f64_unit" and "M < inf_mag"
  shows "f64_of_int n = Some (mk_f64 False M)"
  using assms round_units_exact [of 1 M] by (simp add: f64_of_int_def dec_mag_def)

lemma f64_of_int_exact:
  assumes "0 \<le> n" and "n < 9007199254740992"
  shows "f64_of_int n = Some (mk_f64 False (int_mag (nat n)))"
  using assms mag_val_int_mag [of "nat n"] by (intro f64_of_int_mag) (auto simp: nat_less_iff)

end
