(* ===== verification/Anchor_Worker.thy ===== *)
theory Anchor_Worker
  imports Anchor_Store Py_Float_Arith
begin

text \<open>
  One run of the OpenTimestamps worker, \<^verbatim>\<open>src/forensics/anchor_worker.py\<close>: the retry delay, the processing of
  a queued and of a pending job, the handling of their exceptions, and \<^verbatim>\<open>run_once\<close>. The world is the database
  and the proof files; the backend, the clock, the jitter and the operating system are the record
  \<open>worker_env\<close>.
\<close>

section \<open>Retry delay\<close>

definition BACKOFF_BASE_SECONDS :: int where
  "BACKOFF_BASE_SECONDS = 15 * 60"

definition BACKOFF_MAX_SECONDS :: int where
  "BACKOFF_MAX_SECONDS = 24 * 60 * 60"

text \<open>The floats \<^verbatim>\<open>0.25\<close> and \<^verbatim>\<open>BACKOFF_MAX_SECONDS * 1.25\<close>.\<close>

definition BACKOFF_JITTER_RATIO :: f64 where
  "BACKOFF_JITTER_RATIO = f64_of_dec False 25 2"

definition BACKOFF_FINAL_MAX_SECONDS :: f64 where
  "BACKOFF_FINAL_MAX_SECONDS = f64_mul (f64_of_dec False 86400 0) (f64_of_dec False 125 2)"

definition float_of_int :: "int \<Rightarrow> py_exn + f64" where
  "float_of_int n = (case f64_of_int n of
     None \<Rightarrow> Inl (py_error ''OverflowError'' ''int too large to convert to float'') | Some x \<Rightarrow> Inr x)"

definition retry_delay_seconds :: "int \<Rightarrow> f64 \<Rightarrow> py_exn + f64" where
  "retry_delay_seconds attempt_count jitter_sample =
     rbind (raise_if (attempt_count < 1) (py_error ''ValueError'' ''attempt_count must start at 1'')) (\<lambda>_.
     rbind (raise_if (\<not> (f64_le f64_zero jitter_sample \<and> f64_le jitter_sample f64_one))
       (py_error ''ValueError'' ''jitter sample must be between 0 and 1'')) (\<lambda>_.
     let raw_delay = BACKOFF_BASE_SECONDS * 2 ^ nat (attempt_count - 1);
         capped_delay = min raw_delay BACKOFF_MAX_SECONDS in
     rbind (float_of_int raw_delay) (\<lambda>raw.
     let jitter = f64_mul (f64_mul raw BACKOFF_JITTER_RATIO) jitter_sample in
     rbind (float_of_int capped_delay) (\<lambda>capped.
       Inr (f64_min (f64_add capped jitter) BACKOFF_FINAL_MAX_SECONDS)))))"

section \<open>Times\<close>

definition utc_text :: "dt \<Rightarrow> pystr" where
  "utc_text t = iso_utc t"

definition date_range :: py_exn where
  "date_range = py_error ''OverflowError'' ''date value out of range''"

text \<open>\<^verbatim>\<open>now + delta\<close> for a duration in microseconds.\<close>

definition add_micros :: "dt \<Rightarrow> int \<Rightarrow> py_exn + dt" where
  "add_micros now d =
     (let u = int (dt_micros now) + d in
      if 0 \<le> u \<and> u < int max_micros then Inr (dt_of_micros (nat u)) else Inl date_range)"

text \<open>\<^verbatim>\<open>timedelta(minutes=n)\<close> in microseconds: at most 999999999 days either way.\<close>

definition timedelta_minutes :: "int \<Rightarrow> py_exn + int" where
  "timedelta_minutes n =
     (let days = n div 1440 in
      if days < - (2 ^ 31) \<or> 2 ^ 31 \<le> days then
        Inl (py_error ''OverflowError'' ''Python int too large to convert to C int'')
      else if days < - 999999999 \<or> 999999999 < days then
        Inl (PyExn (PyError ''OverflowError'')
          (lit ''days='' @ int_digits_text days @ lit ''; must have magnitude <= 999999999''))
      else Inr (n * 60000000))"

text \<open>
  \<^verbatim>\<open>timedelta(seconds=x)\<close> in microseconds for a float from 0 to 108000: the whole seconds are exact, the
  fraction times a million is computed as a float and rounded half to even.
\<close>

definition timedelta_seconds :: "f64 \<Rightarrow> int" where
  "timedelta_seconds x =
     (let v = mag_val (f64_mag x);
          whole = v div f64_unit;
          fraction = round_units (v mod f64_unit * 1000000) 1
      in int (whole * 1000000 + round_half_even (mag_val fraction) f64_unit))"

definition next_pending_attempt :: "anchor_row \<Rightarrow> dt \<Rightarrow> py_exn + pystr" where
  "next_pending_attempt job now =
     rbind (timedelta_minutes (ar_interval_minutes job)) (\<lambda>d.
     rbind (add_micros now d) (\<lambda>t. Inr (utc_text t)))"

section \<open>The world\<close>

record anchor_world =
  aw_db :: anchor_db
  aw_files :: files

text \<open>\<open>we_read\<close> is the exception of \<^verbatim>\<open>read_bytes\<close> on an existing file, if it raises.\<close>

record worker_env =
  we_ots :: ots
  we_stamp :: "bytestr \<Rightarrow> py_exn + bytestr"
  we_upgrade :: "bytestr \<Rightarrow> bytestr \<Rightarrow> py_exn + bytestr option"
  we_read :: "pystr \<Rightarrow> py_exn option"
  we_write :: "pystr \<Rightarrow> write_io"
  we_now :: dt
  we_jitter :: "anchor_row \<Rightarrow> f64"

definition target_state :: "ots \<Rightarrow> bytestr \<Rightarrow> bytestr \<Rightarrow> py_exn + anchor_state" where
  "target_state L proof digest =
     rbind (inspect_proof L proof digest) (\<lambda>inspection.
       Inr (if pi_bitcoin inspection then UpgradedUnverified else SubmittedPending))"

section \<open>Processing a job\<close>

text \<open>
  What a job does after reading: a proof to publish (with \<^verbatim>\<open>replace\<close>) or none, and then a transition to a
  state or the note that the proof is still pending.
\<close>

datatype job_action = ToState anchor_state | StillPending

type_synonym job_plan = "(bytestr \<times> bool) option \<times> job_action"

definition read_proof :: "worker_env \<Rightarrow> pystr \<Rightarrow> bytestr \<Rightarrow> py_exn + bytestr" where
  "read_proof env path proof = (case we_read env path of Some e \<Rightarrow> Inl e | None \<Rightarrow> Inr proof)"

definition queued_plan :: "worker_env \<Rightarrow> anchor_row \<Rightarrow> files \<Rightarrow> py_exn + job_plan" where
  "queued_plan env job fs =
     (let digest = fromhex (ar_tip_hash job); path = ar_proof_path job in
      case fs path of
        Some bytes \<Rightarrow>
          rbind (read_proof env path bytes) (\<lambda>proof.
          rbind (target_state (we_ots env) proof digest) (\<lambda>state. Inr (None, ToState state)))
      | None \<Rightarrow>
          rbind (we_stamp env digest) (\<lambda>proof.
          rbind (target_state (we_ots env) proof digest) (\<lambda>state. Inr (Some (proof, False), ToState state))))"

definition pending_plan :: "worker_env \<Rightarrow> anchor_row \<Rightarrow> files \<Rightarrow> py_exn + job_plan" where
  "pending_plan env job fs =
     (let digest = fromhex (ar_tip_hash job); path = ar_proof_path job in
      case fs path of
        None \<Rightarrow> Inl (PyExn (PyError ''OSError'') (lit ''pending proof is missing: '' @ path))
      | Some bytes \<Rightarrow>
          rbind (read_proof env path bytes) (\<lambda>current_proof.
          rbind (inspect_proof (we_ots env) current_proof digest) (\<lambda>inspection.
          if pi_bitcoin inspection then Inr (None, ToState UpgradedUnverified)
          else
            rbind (we_upgrade env current_proof digest) (\<lambda>upgraded.
              case upgraded of
                None \<Rightarrow> Inr (None, StillPending)
              | Some proof \<Rightarrow>
                  rbind (target_state (we_ots env) proof digest) (\<lambda>state.
                    Inr (Some (proof, True),
                      if state = UpgradedUnverified then ToState state else StillPending))))))"

definition publish ::
    "worker_env \<Rightarrow> anchor_row \<Rightarrow> (bytestr \<times> bool) option \<Rightarrow> files \<Rightarrow> (py_exn + unit) \<times> files" where
  "publish env job write fs =
     (case write of
        None \<Rightarrow> (Inr (), fs)
      | Some (proof, replace) \<Rightarrow>
          write_proof_atomic (ar_proof_path job) proof replace (we_write env (ar_proof_path job)) fs)"

text \<open>The call that ends a job: the arguments are evaluated first, and may raise.\<close>

definition end_op :: "worker_env \<Rightarrow> anchor_row \<Rightarrow> job_action \<Rightarrow> py_exn + store_op" where
  "end_op env job action =
     (let now = we_now env in
      case action of
        ToState state \<Rightarrow>
          if state = SubmittedPending
          then rbind (next_pending_attempt job now) (\<lambda>next_attempt.
                 Inr (OpTransition job state (utc_text now) (Some next_attempt)))
          else Inr (OpTransition job state (utc_text now) None)
      | StillPending \<Rightarrow>
          rbind (next_pending_attempt job now) (\<lambda>next_attempt.
            Inr (OpChecked job (utc_text now) next_attempt)))"

type_synonym job_result = "(py_exn + unit) \<times> anchor_world"

definition commit_op :: "py_exn + store_op \<Rightarrow> anchor_world \<Rightarrow> job_result" where
  "commit_op p w =
     (case p of
        Inl e \<Rightarrow> (Inl e, w)
      | Inr p \<Rightarrow>
          (case run_store_op p (aw_db w) of
             (Inl e, db') \<Rightarrow> (Inl e, w\<lparr>aw_db := db'\<rparr>)
           | (Inr _, db') \<Rightarrow> (Inr (), w\<lparr>aw_db := db'\<rparr>)))"

definition carry_out :: "worker_env \<Rightarrow> anchor_row \<Rightarrow> py_exn + job_plan \<Rightarrow> anchor_world \<Rightarrow> job_result" where
  "carry_out env job plan w =
     (case plan of
        Inl e \<Rightarrow> (Inl e, w)
      | Inr (write, action) \<Rightarrow>
          (case publish env job write (aw_files w) of
             (Inl e, fs') \<Rightarrow> (Inl e, w\<lparr>aw_files := fs'\<rparr>)
           | (Inr _, fs') \<Rightarrow> commit_op (end_op env job action) (w\<lparr>aw_files := fs'\<rparr>)))"

definition process_queued :: "worker_env \<Rightarrow> anchor_row \<Rightarrow> anchor_world \<Rightarrow> job_result" where
  "process_queued env job w = carry_out env job (queued_plan env job (aw_files w)) w"

definition process_pending :: "worker_env \<Rightarrow> anchor_row \<Rightarrow> anchor_world \<Rightarrow> job_result" where
  "process_pending env job w = carry_out env job (pending_plan env job (aw_files w)) w"

text \<open>The body of the \<^verbatim>\<open>try\<close> statement.\<close>

definition attempt_job :: "worker_env \<Rightarrow> anchor_row \<Rightarrow> anchor_world \<Rightarrow> job_result" where
  "attempt_job env job w =
     (if ar_state job = Queued then process_queued env job w
      else if ar_state job = SubmittedPending then process_pending env job w
      else (Inr (), w))"

text \<open>Its \<^verbatim>\<open>except\<close> clauses: the operation that records the failure, or the exception that leaves.\<close>

definition failure_op :: "worker_env \<Rightarrow> anchor_row \<Rightarrow> py_exn \<Rightarrow> py_exn + store_op" where
  "failure_op env job exc =
     (let now = we_now env in
      case exc of PyExn cls msg \<Rightarrow>
        (case cls of
           AnchorConfigurationError \<Rightarrow> Inl exc
         | AnchorIntegrityError \<Rightarrow> Inr (OpFailure job IntegrityFailure msg (utc_text now) None)
         | _ \<Rightarrow>
             rbind (retry_delay_seconds (ar_attempt_count job + 1) (we_jitter env job)) (\<lambda>delay.
             rbind (add_micros now (timedelta_seconds delay)) (\<lambda>t.
               Inr (OpFailure job TransientFailure msg (utc_text now) (Some (utc_text t)))))))"

definition try_job :: "worker_env \<Rightarrow> anchor_row \<Rightarrow> anchor_world \<Rightarrow> job_result" where
  "try_job env job w =
     (case attempt_job env job w of
        (Inr _, w') \<Rightarrow> (Inr (), w')
      | (Inl exc, w') \<Rightarrow> commit_op (failure_op env job exc) w')"

definition process_job :: "worker_env \<Rightarrow> anchor_row \<Rightarrow> anchor_world \<Rightarrow> job_result" where
  "process_job env job w =
     (if ar_state job = RetryFailed then
        (case resume_retry job (aw_db w) of
           (Inl e, db') \<Rightarrow> (Inl e, w\<lparr>aw_db := db'\<rparr>)
         | (Inr job', db') \<Rightarrow> try_job env job' (w\<lparr>aw_db := db'\<rparr>))
      else try_job env job w)"

section \<open>One run\<close>

fun process_jobs :: "worker_env \<Rightarrow> anchor_row list \<Rightarrow> anchor_world \<Rightarrow> job_result" where
  "process_jobs env [] w = (Inr (), w)"
| "process_jobs env (job # jobs) w =
     (case process_job env job w of
        (Inl e, w') \<Rightarrow> (Inl e, w')
      | (Inr _, w') \<Rightarrow> process_jobs env jobs w')"

text \<open>
  The configuration, checked when it is built. \<open>wc_resolve\<close> is \<^verbatim>\<open>expanduser().resolve()\<close> of a path.
\<close>

record worker_config =
  wc_proof_directory :: pystr
  wc_resolve :: "pystr \<Rightarrow> pystr"
  wc_interval_minutes :: int
  wc_confirmation_threshold :: int

definition worker_config_check :: "worker_config \<Rightarrow> py_exn + worker_config" where
  "worker_config_check c =
     rbind (raise_if (wc_interval_minutes c \<le> 0)
       (py_error ''ValueError'' ''interval_minutes must be positive'')) (\<lambda>_.
     rbind (raise_if (wc_confirmation_threshold c \<le> 0)
       (py_error ''ValueError'' ''confirmation_threshold must be positive'')) (\<lambda>_.
       Inr c))"

definition snapshot_tip :: "bool \<Rightarrow> bytestr option \<Rightarrow> snapshot_exn + nat \<times> pystr" where
  "snapshot_tip lock chain = locked_tip lock chain"

definition proof_name :: "nat \<Rightarrow> pystr \<Rightarrow> pystr" where
  "proof_name sequence tip_hash = dec sequence @ [45] @ tip_hash @ lit ''.ots''"

datatype run_exn = RunSnapshot snapshot_exn | RunRaises py_exn

definition run_once ::
    "worker_config \<Rightarrow> worker_env \<Rightarrow> bool \<Rightarrow> bytestr option \<Rightarrow> anchor_world \<Rightarrow> (run_exn + nat) \<times> anchor_world" where
  "run_once c env lock chain w =
     (case snapshot_tip lock chain of
        Inl e \<Rightarrow> (Inl (RunSnapshot e), w)
      | Inr (sequence, tip_hash) \<Rightarrow>
          (let path = wc_resolve c (wc_proof_directory c @ [47] @ proof_name sequence tip_hash) in
           case track_tip (int sequence) tip_hash path (wc_interval_minutes c) (wc_confirmation_threshold c)
                  (aw_db w) of
             Inl e \<Rightarrow> (Inl (RunRaises e), w)
           | Inr (fresh, db') \<Rightarrow>
               (let jobs = due_jobs (utc_text (we_now env)) db' in
                case process_jobs env jobs (w\<lparr>aw_db := db'\<rparr>) of
                  (Inl e, w') \<Rightarrow> (Inl (RunRaises e), w')
                | (Inr _, w') \<Rightarrow> (Inr (length jobs), w'))))"

end
