(* ===== verification/Anchor_Invariant.thy ===== *)
theory Anchor_Invariant
  imports Anchor_Worker
begin

text \<open>
  What a row of the lifecycle database says about its proof file, and how the operations of the worker keep
  it. A row that is (or will resume as) pending has a proof file that validates against its tip hash; a
  row that is upgraded has one with a Bitcoin attestation. The flag of \<open>row_proof\<close> says whether the
  attestation is part of the statement: it is kept by one worker at a time, not by two.
\<close>

section \<open>Rows and their files\<close>

definition row_ok :: "anchor_row \<Rightarrow> bool" where
  "row_ok r \<longleftrightarrow>
     0 \<le> ar_sequence r \<and> is_hash_text (ar_tip_hash r) \<and>
     path_name (ar_proof_path r) = proof_name (nat (ar_sequence r)) (ar_tip_hash r) \<and>
     row_checks r \<and> (ar_state r = RetryFailed \<longrightarrow> ar_retry_from r \<noteq> None)"

definition resumed_state :: "anchor_row \<Rightarrow> anchor_state" where
  "resumed_state r = (if ar_state r = RetryFailed then the (ar_retry_from r) else ar_state r)"

definition inspect_file :: "ots \<Rightarrow> bytestr option \<Rightarrow> pystr \<Rightarrow> proof_inspection option" where
  "inspect_file L content tip_hash =
     (case content of
        None \<Rightarrow> None
      | Some proof \<Rightarrow> (case inspect_proof L proof (fromhex tip_hash) of Inl e \<Rightarrow> None | Inr i \<Rightarrow> Some i))"

definition inspected :: "ots \<Rightarrow> files \<Rightarrow> anchor_row \<Rightarrow> proof_inspection option" where
  "inspected L fs r = inspect_file L (fs (ar_proof_path r)) (ar_tip_hash r)"

definition row_proof :: "bool \<Rightarrow> ots \<Rightarrow> files \<Rightarrow> anchor_row \<Rightarrow> bool" where
  "row_proof strict L fs r \<longleftrightarrow>
     (resumed_state r = SubmittedPending \<longrightarrow> inspected L fs r \<noteq> None) \<and>
     (resumed_state r = UpgradedUnverified \<longrightarrow>
        (\<exists>i. inspected L fs r = Some i \<and> (strict \<longrightarrow> pi_bitcoin i)))"

definition world_ok :: "bool \<Rightarrow> ots \<Rightarrow> anchor_world \<Rightarrow> bool" where
  "world_ok strict L w \<longleftrightarrow> db_ok (aw_db w) \<and>
     (\<forall>r \<in> set (aw_db w). row_ok r \<and> row_proof strict L (aw_files w) r)"

text \<open>A job is a row as it was read: the columns no operation changes are those of the row.\<close>

definition job_of :: "anchor_row \<Rightarrow> anchor_row \<Rightarrow> bool" where
  "job_of job r \<longleftrightarrow> ar_id job = ar_id r \<and> row_key job = row_key r \<and> ar_proof_path job = ar_proof_path r \<and>
     ar_interval_minutes job = ar_interval_minutes r"

section \<open>File names\<close>

lemma proof_name_inject:
  assumes "is_hash_text t" and "is_hash_text t'" and "proof_name s t = proof_name s' t'"
  shows "s = s'" and "t = t'"
proof -
  have l: "length t = 64" "length t' = 64" using assms(1,2) by (auto simp: is_hash_text_def)
  have "dec s @ (45 # t @ lit ''.ots'') = dec s' @ (45 # t' @ lit ''.ots'')"
    using assms(3) by (simp add: proof_name_def)
  then have "dec s = dec s'" "45 # t @ lit ''.ots'' = 45 # t' @ lit ''.ots''"
    using l by (simp_all add: append_eq_append_conv)
  then show "s = s'" and "t = t'" by (metis undec_dec, simp)
qed

lemma row_path_unique:
  assumes "db_ok db" and "r \<in> set db" and "r' \<in> set db" and "row_ok r" and "row_ok r'"
    and "ar_proof_path r = ar_proof_path r'"
  shows "r = r'"
proof -
  have n: "is_hash_text (ar_tip_hash r)" "is_hash_text (ar_tip_hash r')"
    "proof_name (nat (ar_sequence r)) (ar_tip_hash r) = proof_name (nat (ar_sequence r')) (ar_tip_hash r')"
    "0 \<le> ar_sequence r" "0 \<le> ar_sequence r'"
    using assms(4-6) by (auto simp: row_ok_def)
  then have "row_key r = row_key r'"
    using proof_name_inject [OF n(1-3)] by (simp add: row_key_def)
  then show ?thesis using assms(1-3) by (auto simp: db_ok_def distinct_map inj_on_def)
qed

lemma row_id_unique:
  assumes "db_ok db" and "r \<in> set db" and "r' \<in> set db" and "ar_id r = ar_id r'"
  shows "r = r'"
  using assms by (auto simp: db_ok_def distinct_map inj_on_def)

lemma row_path_no_temp:
  assumes "row_ok r"
  shows "ar_proof_path r \<noteq> temp_path target random"
proof -
  have "ar_proof_path r = path_parent (ar_proof_path r) @ proof_name (nat (ar_sequence r)) (ar_tip_hash r)"
    using path_split [of "ar_proof_path r"] assms by (simp add: row_ok_def)
  moreover have "last (proof_name s t) = 115" "proof_name s t \<noteq> []" for s t by (simp_all add: proof_name_def lit_def)
  ultimately have "last (ar_proof_path r) = 115" by (metis last_appendR)
  moreover have "last (temp_path target random) = 112" by (simp add: temp_path_def lit_def)
  ultimately show ?thesis by auto
qed

section \<open>Publishing keeps every row's proof\<close>

definition valid_for :: "ots \<Rightarrow> bytestr \<Rightarrow> anchor_row \<Rightarrow> bool" where
  "valid_for L proof job \<longleftrightarrow> (\<exists>i. inspect_proof L proof (fromhex (ar_tip_hash job)) = Inr i)"

lemma inspected_cong: "fs (ar_proof_path r) = fs' (ar_proof_path r) \<Longrightarrow> inspected L fs r = inspected L fs' r"
  by (simp add: inspected_def)

lemma inspected_job: "job_of job r \<Longrightarrow> inspected L fs job = inspected L fs r"
  by (simp add: job_of_def inspected_def row_key_def)

lemma write_keeps_files:
  assumes "write_proof_atomic (ar_proof_path job) proof replace io fs = (res, fs')"
    and "job_of job r" and "r \<in> set db" and "r' \<in> set db" and "db_ok db" and "\<forall>q \<in> set db. row_ok q" and "r' \<noteq> r"
  shows "fs' (ar_proof_path r') = fs (ar_proof_path r')"
proof (rule write_result(3) [OF assms(1)])
  show "ar_proof_path r' \<noteq> ar_proof_path job"
    using row_path_unique [OF assms(5,4,3)] assms(2,3,4,6,7) by (auto simp: job_of_def)
  show "ar_proof_path r' \<noteq> temp_path (ar_proof_path job) random" for random
    using row_path_no_temp assms(4,6) by blast
qed

text \<open>A row keeps its proof when the file is replaced by another one that validates.\<close>

lemma write_keeps_proof:
  assumes w: "write_proof_atomic (ar_proof_path job) proof replace io fs = (res, fs')"
    and job: "job_of job r" "r \<in> set db" and valid: "valid_for L proof job"
    and ok: "db_ok db" "\<forall>q \<in> set db. row_ok q \<and> row_proof strict L fs q"
    and lax: "strict \<Longrightarrow> resumed_state r \<noteq> UpgradedUnverified"
  shows "\<forall>q \<in> set db. row_ok q \<and> row_proof strict L fs' q"
proof
  fix q
  assume q: "q \<in> set db"
  show "row_ok q \<and> row_proof strict L fs' q"
  proof (cases "q = r")
    case False
    then have "inspected L fs' q = inspected L fs q"
      using write_keeps_files [OF w job q ok(1)] ok(2) by (intro inspected_cong) auto
    with ok(2) q show ?thesis by (simp add: row_proof_def)
  next
    case True
    have "fs' (ar_proof_path r) = Some proof \<or> fs' (ar_proof_path r) = fs (ar_proof_path r)"
      using write_result(1,2) [OF w] job(1) by (cases res) (auto simp: job_of_def)
    then have "inspected L fs' r \<noteq> None \<or> inspected L fs' r = inspected L fs r"
      using valid job(1) by (auto simp: inspected_def inspect_file_def valid_for_def job_of_def row_key_def split: option.splits sum.splits)
    with ok(2) q True lax show ?thesis by (auto simp: row_proof_def)
  qed
qed

section \<open>Store operations keep the world\<close>

definition proof_state :: "bool \<Rightarrow> ots \<Rightarrow> files \<Rightarrow> anchor_row \<Rightarrow> anchor_state \<Rightarrow> bool" where
  "proof_state strict L fs job state \<longleftrightarrow>
     (state = SubmittedPending \<and> inspected L fs job \<noteq> None) \<or>
     (state = UpgradedUnverified \<and> (\<exists>i. inspected L fs job = Some i \<and> (strict \<longrightarrow> pi_bitcoin i)))"

fun op_ok :: "bool \<Rightarrow> ots \<Rightarrow> files \<Rightarrow> store_op \<Rightarrow> bool" where
  "op_ok strict L fs (OpTransition job state now next_attempt) = proof_state strict L fs job state"
| "op_ok strict L fs (OpResume job) = row_proof strict L fs job"
| "op_ok strict L fs _ = True"

lemma row_ok_change:
  assumes "row_ok r" and "row_ok (op_job p)" and "op_enabled p" and "op_target p r" and "op_ok strict L fs p"
  shows "row_ok (op_change p r)"
  using assms
  by (cases p) (auto simp: row_ok_def row_checks_def RETRY_SOURCES_def proof_state_def op_target_def split: option.splits)

lemma row_proof_change:
  assumes "row_proof strict L fs r" and "job_of (op_job p) r" and "op_enabled p" and "op_target p r" and "op_ok strict L fs p"
  shows "row_proof strict L fs (op_change p r)"
proof -
  have i: "inspected L fs (op_change p r) = inspected L fs r" by (simp add: inspected_def)
  have j: "inspected L fs (op_job p) = inspected L fs r" using assms(2) by (rule inspected_job)
  show ?thesis
    using assms i j
    by (cases p) (auto simp: row_proof_def resumed_state_def proof_state_def op_target_def RETRY_SOURCES_def
        split: option.splits)
qed

lemma op_keeps_world:
  assumes w: "world_ok strict L w" and a: "apply_store_op p (aw_db w) = Some db'"
    and job: "row_ok (op_job p)" "job_of (op_job p) r" "r \<in> set (aw_db w)" and ok: "op_ok strict L (aw_files w) p"
  shows "world_ok strict L (w\<lparr>aw_db := db'\<rparr>)"
proof -
  have db: "db_ok (aw_db w)" using w by (simp add: world_ok_def)
  have p: "op_enabled p" "db' = change_rows p (aw_db w)"
    using a apply_store_op_Some db by (auto simp: db_ok_def)
  have "row_ok (op_change p t) \<and> row_proof strict L (aw_files w) (op_change p t)"
    if t: "t \<in> set (aw_db w)" "op_target p t" for t
  proof -
    have "t = r" using row_id_unique [OF db t(1) job(3)] t(2) job(2) by (simp add: op_target_def job_of_def)
    with w t job ok p(1) show ?thesis
      using row_ok_change [of t p] row_proof_change [of strict L "aw_files w" t p] by (simp add: world_ok_def)
  qed
  then show ?thesis
    using w apply_store_op_ok [OF db a] p(2) by (auto simp: world_ok_def set_change_rows)
qed

lemma run_store_op_db: "snd (run_store_op p db) = (case apply_store_op p db of None \<Rightarrow> db | Some db' \<Rightarrow> db')"
  by (subst store_op_apply) (simp split: option.splits)

lemma get_row_Inr: "get_row s t db = Inr r \<Longrightarrow> r \<in> set db \<and> row_key r = (s, t)"
  by (auto simp: get_row_def split: list.splits dest: filter_eq_ConsD)

lemma run_store_op_row:
  assumes "run_store_op p db = (Inr job, db')"
  shows "apply_store_op p db = Some db'" and "job \<in> set db'" and "row_key job = row_key (op_job p)"
proof -
  show a: "apply_store_op p db = Some db'"
    using assms by (subst (asm) store_op_apply) (auto split: option.splits)
  then have "get_row (ar_sequence (op_job p)) (ar_tip_hash (op_job p)) db' = Inr job"
    using assms by (subst (asm) store_op_apply) simp
  then show "job \<in> set db'" and "row_key job = row_key (op_job p)" using get_row_Inr by (auto simp: row_key_def)
qed

text \<open>A job stays a job when the database changes.\<close>

lemma job_of_change:
  assumes "job_of job r" and "r \<in> set db" and "apply_store_op p db = Some db'" and "db_ok db"
  shows "\<exists>r' \<in> set db'. job_of job r'"
proof -
  have "db' = change_rows p db" using assms(3,4) apply_store_op_Some by (auto simp: db_ok_def)
  moreover have "job_of job (op_change p r)" using assms(1) by (simp add: job_of_def)
  moreover have "(if op_target p r then op_change p r else r) \<in> set (change_rows p db)"
    unfolding set_change_rows using assms(2) by (rule imageI)
  ultimately show ?thesis using assms(1) by (auto split: if_splits)
qed

section \<open>What a plan has checked\<close>

lemma target_state_Inr:
  "target_state L proof digest = Inr state \<longleftrightarrow>
    (\<exists>i. inspect_proof L proof digest = Inr i \<and> state = (if pi_bitcoin i then UpgradedUnverified else SubmittedPending))"
  by (auto simp: target_state_def res_simps)

fun plan_ok :: "ots \<Rightarrow> files \<Rightarrow> anchor_row \<Rightarrow> job_plan \<Rightarrow> bool" where
  "plan_ok L fs job (None, ToState state) = proof_state True L fs job state"
| "plan_ok L fs job (None, StillPending) = (inspected L fs job \<noteq> None)"
| "plan_ok L fs job (Some (proof, replace), act) =
     (\<exists>i. inspect_proof L proof (fromhex (ar_tip_hash job)) = Inr i \<and>
        (case act of ToState state \<Rightarrow> state = (if pi_bitcoin i then UpgradedUnverified else SubmittedPending)
         | StillPending \<Rightarrow> ar_state job = SubmittedPending))"

lemma queued_plan_ok: "we_ots env = L \<Longrightarrow> queued_plan env job fs = Inr plan \<Longrightarrow> plan_ok L fs job plan"
  by (auto simp: queued_plan_def Let_def res_simps read_proof_def target_state_Inr proof_state_def inspected_def
      inspect_file_def split: option.splits if_splits)

lemma pending_plan_ok:
  "we_ots env = L \<Longrightarrow> ar_state job = SubmittedPending \<Longrightarrow> pending_plan env job fs = Inr plan \<Longrightarrow> plan_ok L fs job plan"
  by (auto simp: pending_plan_def Let_def res_simps read_proof_def target_state_Inr proof_state_def inspected_def
      inspect_file_def split: option.splits if_splits)

lemma inspected_written:
  assumes "write_proof_atomic (ar_proof_path job) proof replace io fs = (Inr (), fs')"
    and "inspect_proof L proof (fromhex (ar_tip_hash job)) = Inr i"
  shows "inspected L fs' job = Some i"
  using write_result(1) [OF assms(1)] assms(2) by (simp add: inspected_def inspect_file_def)

end
