(* ===== verification/Anchor_Run.thy ===== *)
theory Anchor_Run
  imports Anchor_Invariant Chain_Logger
begin

text \<open>
  One worker at a time: every job and every run of \<^verbatim>\<open>src/forensics/anchor_worker.py\<close> keeps the statement
  \<open>world_ok\<close>, with the Bitcoin attestation of upgraded rows, whatever the backend, the operating system and the
  clock do, and whichever exception ends the run.
\<close>

section \<open>Commits\<close>

text \<open>A held job: a row as it was read, whose row is still in the database.\<close>

definition held :: "anchor_row \<Rightarrow> anchor_world \<Rightarrow> bool" where
  "held job w \<longleftrightarrow> row_ok job \<and> (\<exists>r \<in> set (aw_db w). job_of job r)"

text \<open>Only the row with this id may have changed, and no row came or went.\<close>

definition only_row :: "nat \<Rightarrow> anchor_world \<Rightarrow> anchor_world \<Rightarrow> bool" where
  "only_row i w w' \<longleftrightarrow> map ar_id (aw_db w') = map ar_id (aw_db w) \<and>
     (\<forall>r \<in> set (aw_db w). ar_id r \<noteq> i \<longrightarrow> r \<in> set (aw_db w'))"

lemma only_row_refl [simp]: "only_row i w w"
  by (simp add: only_row_def)

lemma only_row_trans: "only_row i w1 w2 \<Longrightarrow> only_row i w2 w3 \<Longrightarrow> only_row i w1 w3"
  by (simp add: only_row_def)

lemma only_row_files [simp]: "only_row i w (w'\<lparr>aw_files := fs\<rparr>) = only_row i w w'"
  by (simp add: only_row_def)

lemma only_row_apply:
  assumes "db_ok (aw_db w)" and "apply_store_op p (aw_db w) = Some db'"
  shows "only_row (ar_id (op_job p)) w (w\<lparr>aw_db := db'\<rparr>)"
proof -
  have "db' = change_rows p (aw_db w)" using assms apply_store_op_Some by (auto simp: db_ok_def)
  moreover have "(if op_target p r then op_change p r else r) \<in> set (change_rows p (aw_db w))"
    if "r \<in> set (aw_db w)" for r
    unfolding set_change_rows using that by (rule imageI)
  ultimately show ?thesis by (fastforce simp: only_row_def op_target_def)
qed

lemma held_apply:
  assumes "held job w" and "db_ok (aw_db w)" and "apply_store_op p (aw_db w) = Some db'"
  shows "held job (w\<lparr>aw_db := db'\<rparr>)"
  using assms job_of_change by (fastforce simp: held_def)

lemma commit_op_snd:
  "snd (commit_op p w) =
    (case p of Inl e \<Rightarrow> w | Inr q \<Rightarrow> (case apply_store_op q (aw_db w) of None \<Rightarrow> w | Some db' \<Rightarrow> w\<lparr>aw_db := db'\<rparr>))"
proof (cases p)
  case (Inr q)
  have "snd (commit_op p w) = w\<lparr>aw_db := snd (run_store_op q (aw_db w))\<rparr>"
    using Inr by (auto simp: commit_op_def split: prod.splits sum.splits)
  then show ?thesis using Inr by (simp add: run_store_op_db split: option.splits)
qed (simp add: commit_op_def)

lemma commit_op_ok:
  assumes "world_ok strict L w" and "\<And>q. p = Inr q \<Longrightarrow> op_job q = job \<and> op_ok strict L (aw_files w) q"
    and "held job w" and "w' = snd (commit_op p w)"
  shows "world_ok strict L w'" and "held job w'" and "only_row (ar_id job) w w'"
proof -
  have "world_ok strict L w' \<and> held job w' \<and> only_row (ar_id job) w w'"
  proof (cases "w' = w")
    case True
    with assms show ?thesis by simp
  next
    case False
    then obtain q db' where q: "p = Inr q" "apply_store_op q (aw_db w) = Some db'" "w' = w\<lparr>aw_db := db'\<rparr>"
      using assms(4) by (auto simp: commit_op_snd split: sum.splits option.splits)
    have db: "db_ok (aw_db w)" using assms(1) by (simp add: world_ok_def)
    have job: "op_job q = job" "op_ok strict L (aw_files w) q" using assms(2) q(1) by auto
    with assms(3) obtain r where r: "row_ok (op_job q)" "job_of (op_job q) r" "r \<in> set (aw_db w)"
      by (auto simp: held_def)
    show ?thesis
      using op_keeps_world [OF assms(1) q(2) r job(2)] held_apply [OF assms(3) db q(2)]
        only_row_apply [OF db q(2)] q(3) job(1) by simp
  qed
  then show "world_ok strict L w'" and "held job w'" and "only_row (ar_id job) w w'" by simp_all
qed

section \<open>Jobs\<close>

lemma end_op_ok:
  assumes "end_op env job action = Inr q"
    and "case action of ToState state \<Rightarrow> proof_state strict L fs job state | StillPending \<Rightarrow> True"
  shows "op_job q = job \<and> op_ok strict L fs q"
  using assms by (auto simp: end_op_def Let_def res_simps split: job_action.splits if_splits)

lemma failure_op_ok: "failure_op env job exc = Inr q \<Longrightarrow> op_job q = job \<and> op_ok strict L fs q"
  by (auto simp: failure_op_def Let_def res_simps split: py_exn.splits exn_class.splits)

lemma proof_state_lax: "proof_state True L fs job state \<Longrightarrow> proof_state strict L fs job state"
  by (auto simp: proof_state_def)

lemma publish_ok:
  assumes w: "world_ok strict L w" and held: "held job w"
    and plan: "plan_ok L (aw_files w) job (wr, action)"
    and lax: "\<And>r. r \<in> set (aw_db w) \<Longrightarrow> job_of job r \<Longrightarrow> strict \<Longrightarrow> resumed_state r \<noteq> UpgradedUnverified"
    and pub: "publish env job wr (aw_files w) = (res, fs')"
  shows "world_ok strict L (w\<lparr>aw_files := fs'\<rparr>)"
    and "res = Inr () \<Longrightarrow> case action of ToState state \<Rightarrow> proof_state strict L fs' job state | StillPending \<Rightarrow> True"
proof -
  obtain r where r: "job_of job r" "r \<in> set (aw_db w)" using held by (auto simp: held_def)
  show "world_ok strict L (w\<lparr>aw_files := fs'\<rparr>)"
  proof (cases wr)
    case (Some pr)
    then obtain pf replace where pr: "wr = Some (pf, replace)" by (cases pr) auto
    have "valid_for L pf job" using plan pr by (auto simp: valid_for_def)
    moreover have "write_proof_atomic (ar_proof_path job) pf replace (we_write env (ar_proof_path job)) (aw_files w)
        = (res, fs')"
      using pub pr by (simp add: publish_def)
    ultimately show ?thesis
      using write_keeps_proof [of job pf replace _ "aw_files w" res fs' r "aw_db w" L strict] r w lax
      by (auto simp: world_ok_def)
  next
    case None
    with w pub show ?thesis by (auto simp: publish_def)
  qed
  show "case action of ToState state \<Rightarrow> proof_state strict L fs' job state | StillPending \<Rightarrow> True" if "res = Inr ()"
  proof (cases wr)
    case None
    then have "fs' = aw_files w" using pub by (simp add: publish_def)
    with plan None show ?thesis by (cases action) (auto intro: proof_state_lax)
  next
    case (Some pr)
    then obtain pf replace where pr: "wr = Some (pf, replace)" by (cases pr) auto
    then obtain i where i: "inspect_proof L pf (fromhex (ar_tip_hash job)) = Inr i"
      "case action of ToState state \<Rightarrow> state = (if pi_bitcoin i then UpgradedUnverified else SubmittedPending)
       | StillPending \<Rightarrow> ar_state job = SubmittedPending"
      using plan by auto
    have "inspected L fs' job = Some i"
      using pub pr that i(1) by (auto simp: publish_def intro: inspected_written)
    with i(2) show ?thesis by (auto simp: proof_state_def split: job_action.splits if_splits)
  qed
qed

lemma carry_out_ok:
  assumes w: "world_ok strict L w" and held: "held job w"
    and plan: "\<And>pl. plan = Inr pl \<Longrightarrow> plan_ok L (aw_files w) job pl"
    and lax: "\<And>r. r \<in> set (aw_db w) \<Longrightarrow> job_of job r \<Longrightarrow> strict \<Longrightarrow> resumed_state r \<noteq> UpgradedUnverified"
    and w': "w' = snd (carry_out env job plan w)"
  shows "world_ok strict L w' \<and> held job w' \<and> only_row (ar_id job) w w'"
proof (cases plan)
  case (Inr pl)
  obtain wr action where pl: "pl = (wr, action)" by (cases pl)
  obtain res fs' where pub: "publish env job wr (aw_files w) = (res, fs')" by fastforce
  define w1 where "w1 = w\<lparr>aw_files := fs'\<rparr>"
  note p = publish_ok [OF w held _ lax pub, folded w1_def]
  have plan': "plan_ok L (aw_files w) job (wr, action)" using plan Inr pl by simp
  have held1: "held job w1" and only1: "only_row (ar_id job) w w1" using held by (simp_all add: held_def w1_def)
  show ?thesis
  proof (cases res)
    case (Inl e)
    then have "w' = w1" using w' Inr pl pub by (simp add: carry_out_def w1_def)
    with p(1) [OF plan'] held1 only1 show ?thesis by simp
  next
    case (Inr u)
    then have w1': "w' = snd (commit_op (end_op env job action) w1)"
      using w' \<open>plan = Inr pl\<close> pl pub by (simp add: carry_out_def w1_def)
    have "op_job q = job \<and> op_ok strict L (aw_files w1) q" if "end_op env job action = Inr q" for q
      using end_op_ok [OF that] p(2) [OF plan'] Inr by (simp add: w1_def)
    from commit_op_ok [OF p(1) [OF plan'] this held1 w1'] only1 show ?thesis by (auto intro: only_row_trans)
  qed
next
  case (Inl e)
  with w held w' show ?thesis by (simp add: carry_out_def)
qed

lemma attempt_job_ok:
  assumes "world_ok strict L w" and "held job w" and "we_ots env = L"
    and "\<And>r. r \<in> set (aw_db w) \<Longrightarrow> job_of job r \<Longrightarrow> strict \<Longrightarrow> resumed_state r = ar_state job"
    and "w' = snd (attempt_job env job w)"
  shows "world_ok strict L w' \<and> held job w' \<and> only_row (ar_id job) w w'"
  using assms carry_out_ok [OF assms(1,2), of "queued_plan env job (aw_files w)" w' env]
    carry_out_ok [OF assms(1,2), of "pending_plan env job (aw_files w)" w' env]
    queued_plan_ok [OF assms(3)] pending_plan_ok [OF assms(3)]
  by (auto simp: attempt_job_def process_queued_def process_pending_def split: if_splits)

lemma try_job_ok:
  assumes "world_ok strict L w" and "held job w" and "we_ots env = L"
    and "\<And>r. r \<in> set (aw_db w) \<Longrightarrow> job_of job r \<Longrightarrow> strict \<Longrightarrow> resumed_state r = ar_state job"
    and "w' = snd (try_job env job w)"
  shows "world_ok strict L w' \<and> only_row (ar_id job) w w'"
proof -
  obtain res w1 where a: "attempt_job env job w = (res, w1)" by fastforce
  have ok: "world_ok strict L w1" "held job w1" "only_row (ar_id job) w w1"
    using attempt_job_ok [OF assms(1-4), of w1] a by simp_all
  show ?thesis
  proof (cases res)
    case (Inr u)
    with a ok assms(5) show ?thesis by (simp add: try_job_def)
  next
    case (Inl e)
    then have "w' = snd (commit_op (failure_op env job e) w1)" using a assms(5) by (simp add: try_job_def)
    from commit_op_ok [OF ok(1) failure_op_ok ok(2) this] ok(3) show ?thesis by (auto intro: only_row_trans)
  qed
qed

text \<open>The row of a current job is the job itself.\<close>

lemma current_row:
  "db_ok db \<Longrightarrow> job \<in> set db \<Longrightarrow> r \<in> set db \<Longrightarrow> job_of job r \<Longrightarrow> r = job"
  by (metis job_of_def row_id_unique)

lemma current_held: "world_ok strict L w \<Longrightarrow> job \<in> set (aw_db w) \<Longrightarrow> held job w"
  by (auto simp: held_def world_ok_def job_of_def)

text \<open>A job that is processed without an exception is no longer queued.\<close>

lemma commit_op_returns:
  assumes "db_ok (aw_db w)" and "commit_op p w = (Inr (), w')"
  obtains q where "p = Inr q" "state_of_id (aw_db w') (ar_id (op_job q)) = Some (op_gives q)"
proof -
  obtain q where q: "p = Inr q" using assms(2) by (cases p) (auto simp: commit_op_def)
  then obtain row where "run_store_op q (aw_db w) = (Inr row, aw_db w')"
    using assms(2) by (auto simp: commit_op_def split: prod.splits sum.splits)
  then have "apply_store_op q (aw_db w) = Some (aw_db w')" by (rule run_store_op_row(1))
  from that [OF q] anchors.apply_state [OF assms(1) this] show thesis by simp
qed

lemma current_state: "db_ok db \<Longrightarrow> job \<in> set db \<Longrightarrow> state_of_id db (ar_id job) = Some (ar_state job)"
  using state_of_id_iff by (auto simp: db_ok_def)

lemma carry_out_state:
  assumes w: "world_ok strict L w" and held: "held job w"
    and plan: "\<And>pl. plan = Inr pl \<Longrightarrow> plan_ok L (aw_files w) job pl"
    and lax: "\<And>r. r \<in> set (aw_db w) \<Longrightarrow> job_of job r \<Longrightarrow> strict \<Longrightarrow> resumed_state r \<noteq> UpgradedUnverified"
    and run: "carry_out env job plan w = (Inr (), w')"
  shows "\<exists>b. state_of_id (aw_db w') (ar_id job) = Some b \<and> b \<noteq> Queued"
proof -
  obtain wr action where pl: "plan = Inr (wr, action)" using run by (cases plan) (auto simp: carry_out_def)
  obtain res fs' where pub: "publish env job wr (aw_files w) = (res, fs')" by fastforce
  then have "res = Inr ()" using run pl by (cases res) (auto simp: carry_out_def)
  note p = publish_ok [OF w held plan [OF pl] lax pub]
  have c: "commit_op (end_op env job action) (w\<lparr>aw_files := fs'\<rparr>) = (Inr (), w')"
    using run pl pub \<open>res = Inr ()\<close> by (simp add: carry_out_def)
  obtain q where q: "end_op env job action = Inr q" "state_of_id (aw_db w') (ar_id (op_job q)) = Some (op_gives q)"
    using commit_op_returns [OF _ c] p(1) by (auto simp: world_ok_def)
  have "op_job q = job \<and> op_ok strict L fs' q" using end_op_ok [OF q(1)] p(2) \<open>res = Inr ()\<close> by simp
  moreover from this have "op_gives q \<noteq> Queued"
    using q(1) by (cases q) (auto simp: end_op_def Let_def res_simps proof_state_def split: job_action.splits if_splits)
  ultimately show ?thesis using q(2) by auto
qed

lemma try_job_state:
  assumes w: "world_ok strict L w" and held: "held job w" and env: "we_ots env = L"
    and cur: "\<And>r. r \<in> set (aw_db w) \<Longrightarrow> job_of job r \<Longrightarrow> strict \<Longrightarrow> resumed_state r = ar_state job"
    and job: "job \<in> set (aw_db w)" and run: "try_job env job w = (Inr (), w')"
  shows "\<exists>b. state_of_id (aw_db w') (ar_id job) = Some b \<and> b \<noteq> Queued"
proof -
  obtain res w1 where a: "attempt_job env job w = (res, w1)" by fastforce
  show ?thesis
  proof (cases res)
    case (Inl e)
    have "world_ok strict L w1" using attempt_job_ok [OF w held env cur, of w1] a by simp
    moreover have "commit_op (failure_op env job e) w1 = (Inr (), w')" using run a Inl by (simp add: try_job_def)
    ultimately obtain q where "failure_op env job e = Inr q" "state_of_id (aw_db w') (ar_id (op_job q)) = Some (op_gives q)"
      using commit_op_returns [of w1] by (auto simp: world_ok_def)
    then show ?thesis by (auto simp: failure_op_def Let_def res_simps split: py_exn.splits exn_class.splits)
  next
    case (Inr u)
    then have a': "attempt_job env job w = (Inr (), w')" using run a by (simp add: try_job_def)
    consider "ar_state job = Queued" | "ar_state job = SubmittedPending" | "ar_state job \<notin> {Queued, SubmittedPending}" by blast
    then show ?thesis
    proof cases
      case 1
      with a' cur show ?thesis
        by (intro carry_out_state [OF w held queued_plan_ok [OF env]]) (auto simp: attempt_job_def process_queued_def)
    next
      case 2
      with a' cur show ?thesis
        by (intro carry_out_state [OF w held pending_plan_ok [OF env 2]]) (auto simp: attempt_job_def process_pending_def)
    next
      case 3
      with a' current_state [OF _ job] w show ?thesis by (auto simp: attempt_job_def world_ok_def)
    qed
  qed
qed

text \<open>The job of a retry after it is resumed: the changed row, current in the new database.\<close>

lemma resumed_job:
  assumes w: "world_ok True L w" and job: "job \<in> set (aw_db w)" and st: "ar_state job = RetryFailed"
    and rs: "resume_retry job (aw_db w) = (Inr job', db1)" and w1: "w1 = w\<lparr>aw_db := db1\<rparr>"
  shows "world_ok True L w1" and "only_row (ar_id job) w w1" and "job' \<in> set (aw_db w1)"
    and "ar_id job' = ar_id job" and "ar_state job' \<noteq> RetryFailed"
proof -
  have rs': "run_store_op (OpResume job) (aw_db w) = (Inr job', db1)" using rs by simp
  have held: "held job w" and rp: "row_proof True L (aw_files w) job"
    using current_held [OF w job] w job by (auto simp: world_ok_def)
  have "w1 = snd (commit_op (Inr (OpResume job)) w)" using rs by (simp add: commit_op_def w1)
  note ok = commit_op_ok [OF w _ held this]
  show ok1: "world_ok True L w1" "only_row (ar_id job) w w1" using ok rp by simp_all
  note row = run_store_op_row [OF rs']
  show j1: "job' \<in> set (aw_db w1)" using row(2) by (simp add: w1)
  have enabled: "op_enabled (OpResume job)" "db1 = change_rows (OpResume job) (aw_db w)"
    using row(1) w apply_store_op_Some by (auto simp: world_ok_def db_ok_def)
  have "op_target (OpResume job) job" using st by (simp add: op_target_def)
  then have "op_change (OpResume job) job \<in> set db1"
    unfolding enabled(2) set_change_rows using job by (auto intro!: image_eqI [of _ _ job])
  moreover have "row_key job' = row_key (op_change (OpResume job) job)" using row(3) by (simp add: row_key_def)
  moreover have "inj_on row_key (set db1)" using ok1(1) by (simp add: world_ok_def db_ok_def distinct_map w1)
  ultimately have "job' = op_change (OpResume job) job" using row(2) by (metis inj_on_def)
  then show "ar_id job' = ar_id job" and "ar_state job' \<noteq> RetryFailed"
    using enabled(1) by (auto simp: RETRY_SOURCES_def split: option.splits)
qed

lemma current_resumed:
  "world_ok True L w \<Longrightarrow> job \<in> set (aw_db w) \<Longrightarrow> ar_state job \<noteq> RetryFailed \<Longrightarrow> r \<in> set (aw_db w) \<Longrightarrow> job_of job r \<Longrightarrow>
    resumed_state r = ar_state job"
  using current_row [of "aw_db w" job r] by (auto simp: world_ok_def resumed_state_def)

lemma process_job_ok:
  assumes w: "world_ok True L w" and job: "job \<in> set (aw_db w)" and env: "we_ots env = L"
    and w': "w' = snd (process_job env job w)"
  shows "world_ok True L w' \<and> only_row (ar_id job) w w'"
proof (cases "ar_state job = RetryFailed")
  case False
  from try_job_ok [OF w current_held [OF w job] env current_resumed [OF w job False]] False w'
  show ?thesis by (simp add: process_job_def)
next
  case True
  obtain res db1 where rs: "resume_retry job (aw_db w) = (res, db1)" by fastforce
  show ?thesis
  proof (cases res)
    case (Inl e)
    have held: "held job w" and rp: "row_proof True L (aw_files w) job"
      using current_held [OF w job] w job by (auto simp: world_ok_def)
    have "w\<lparr>aw_db := db1\<rparr> = snd (commit_op (Inr (OpResume job)) w)"
      using rs Inl by (simp add: commit_op_def)
    from commit_op_ok [OF w _ held this] rp w' True rs Inl show ?thesis by (simp add: process_job_def)
  next
    case (Inr job')
    note r = resumed_job [OF w job True rs [unfolded Inr] refl]
    from try_job_ok [OF r(1) current_held [OF r(1,3)] env current_resumed [OF r(1,3,5)], of w'] r(2,4) w' True rs Inr
    show ?thesis by (auto simp: process_job_def intro: only_row_trans)
  qed
qed

lemma process_job_state:
  assumes w: "world_ok True L w" and job: "job \<in> set (aw_db w)" and env: "we_ots env = L"
    and run: "process_job env job w = (Inr (), w')"
  shows "\<exists>b. state_of_id (aw_db w') (ar_id job) = Some b \<and> b \<noteq> Queued"
proof (cases "ar_state job = RetryFailed")
  case False
  with run show ?thesis
    using try_job_state [OF w current_held [OF w job] env current_resumed [OF w job False] job]
    by (simp add: process_job_def)
next
  case True
  then obtain job' db1 where rs: "resume_retry job (aw_db w) = (Inr job', db1)"
    and tj: "try_job env job' (w\<lparr>aw_db := db1\<rparr>) = (Inr (), w')"
    using run by (auto simp: process_job_def split: prod.splits sum.splits)
  note r = resumed_job [OF w job True rs refl]
  show ?thesis
    using try_job_state [OF r(1) current_held [OF r(1,3)] env current_resumed [OF r(1,3,5)] r(3) tj] r(4) by simp
qed

lemma process_jobs_ok:
  assumes "world_ok True L w" and "set jobs \<subseteq> set (aw_db w)" and "distinct (map ar_id jobs)" and "we_ots env = L"
    and "process_jobs env jobs w = (res, w')"
  shows "world_ok True L w'" and "map ar_id (aw_db w') = map ar_id (aw_db w)"
    and "\<And>r. r \<in> set (aw_db w) \<Longrightarrow> ar_id r \<notin> ar_id ` set jobs \<Longrightarrow> r \<in> set (aw_db w')"
    and "\<And>job. res = Inr () \<Longrightarrow> job \<in> set jobs \<Longrightarrow> \<exists>b. state_of_id (aw_db w') (ar_id job) = Some b \<and> b \<noteq> Queued"
proof -
  have "world_ok True L w' \<and> map ar_id (aw_db w') = map ar_id (aw_db w) \<and>
    (\<forall>r \<in> set (aw_db w). ar_id r \<notin> ar_id ` set jobs \<longrightarrow> r \<in> set (aw_db w')) \<and>
    (res = Inr () \<longrightarrow> (\<forall>job \<in> set jobs. \<exists>b. state_of_id (aw_db w') (ar_id job) = Some b \<and> b \<noteq> Queued))"
    using assms
  proof (induction jobs arbitrary: w)
    case (Cons job jobs)
    obtain res1 w1 where p: "process_job env job w = (res1, w1)" by fastforce
    have job: "job \<in> set (aw_db w)" using Cons.prems(2) by simp
    have ok: "world_ok True L w1" "only_row (ar_id job) w w1"
      using process_job_ok [OF Cons.prems(1) job Cons.prems(4), of w1] p by simp_all
    show ?case
    proof (cases res1)
      case (Inl e)
      with Cons.prems(5) p ok show ?thesis by (auto simp: only_row_def)
    next
      case (Inr u)
      have other: "x \<in> set (aw_db w1)" if "x \<in> set jobs" for x
        using that ok(2) Cons.prems(2,3) by (force simp: only_row_def image_iff)
      have run: "process_jobs env jobs w1 = (res, w')" using Cons.prems(5) p Inr by simp
      have "set jobs \<subseteq> set (aw_db w1)" "distinct (map ar_id jobs)" using other Cons.prems(3) by auto
      note IH = Cons.IH [OF ok(1) this Cons.prems(4) run]
      obtain b where b: "state_of_id (aw_db w1) (ar_id job) = Some b" "b \<noteq> Queued"
        using process_job_state [OF Cons.prems(1) job Cons.prems(4)] p Inr by auto
      have d1: "distinct (map ar_id (aw_db w1))" "distinct (map ar_id (aw_db w'))"
        using ok(1) IH by (auto simp: world_ok_def db_ok_def)
      obtain r1 where r1: "r1 \<in> set (aw_db w1)" "ar_id r1 = ar_id job" "ar_state r1 = b"
        using b(1) state_of_id_iff [OF d1(1)] by blast
      have "r1 \<in> set (aw_db w')" using IH Cons.prems(3) r1(1,2) by auto
      then have "state_of_id (aw_db w') (ar_id job) = Some b" using state_of_id_iff [OF d1(2)] r1(2,3) by blast
      with IH b(2) ok(2) show ?thesis by (auto simp: only_row_def)
    qed
  qed simp
  then show "world_ok True L w'" and "map ar_id (aw_db w') = map ar_id (aw_db w)"
    and "\<And>r. r \<in> set (aw_db w) \<Longrightarrow> ar_id r \<notin> ar_id ` set jobs \<Longrightarrow> r \<in> set (aw_db w')"
    and "\<And>job. res = Inr () \<Longrightarrow> job \<in> set jobs \<Longrightarrow> \<exists>b. state_of_id (aw_db w') (ar_id job) = Some b \<and> b \<noteq> Queued"
    by blast+
qed

section \<open>Runs\<close>

lemma next_id_fresh: "r \<in> set db \<Longrightarrow> ar_id r < next_id db"
  by (induction db) (auto simp: next_id_def)

lemma track_tip_cases:
  assumes "track_tip sequence tip_hash path interval threshold db = Inr (fresh, db')"
  shows "(\<not> fresh \<and> db' = db \<and> (\<exists>r \<in> set db. row_key r = (sequence, tip_hash))) \<or>
    (fresh \<and> db' = db @ [new_row (next_id db) sequence tip_hash path interval threshold] \<and>
      (\<forall>r \<in> set db. row_key r \<noteq> (sequence, tip_hash)))"
  using assms by (auto simp: track_tip_def res_simps list_ex_iff split: if_splits)

lemma new_row_ok:
  assumes "is_hash_text tip_hash" and "path_name path = proof_name sequence tip_hash"
  shows "row_ok (new_row i (int sequence) tip_hash path interval threshold)"
    and "row_proof strict L fs (new_row i (int sequence) tip_hash path interval threshold)"
  using assms by (simp_all add: row_ok_def new_row_def row_checks_def row_proof_def resumed_state_def)

lemma track_tip_ok:
  assumes "world_ok strict L w" and "track_tip (int sequence) tip_hash path interval threshold (aw_db w) = Inr (fresh, db')"
    and "is_hash_text tip_hash" and "path_name path = proof_name sequence tip_hash"
  shows "world_ok strict L (w\<lparr>aw_db := db'\<rparr>)"
  using track_tip_cases [OF assms(2)]
proof
  assume "fresh \<and> db' = aw_db w @ [new_row (next_id (aw_db w)) (int sequence) tip_hash path interval threshold] \<and>
    (\<forall>r \<in> set (aw_db w). row_key r \<noteq> (int sequence, tip_hash))"
  with assms(1) new_row_ok [OF assms(3,4)] show ?thesis
    by (auto simp: world_ok_def db_ok_def new_row_def row_key_def dest: next_id_fresh)
qed (use assms(1) in auto)

lemma snapshot_tip_Inr:
  assumes "snapshot_tip lock chain = Inr (sequence, tip_hash)"
  obtains ds where "is_chain chain ds" "length ds = Suc sequence" "tip_hash = tip_hash_of ds" "is_hash_text tip_hash"
proof -
  obtain n where n: "chain_tip chain None = Inr (n, tip_hash)" "n \<noteq> 0" "sequence = n - 1"
    using assms by (auto simp: snapshot_tip_def locked_tip_def res_simps)
  then obtain ds where "is_chain chain ds" "n = length ds" "tip_hash = tip_hash_of ds"
    by (auto simp: chain_tip_file)
  with n show thesis by (intro that [of ds]) (auto simp: is_chain_def intro: tip_hash_text)
qed

lemma path_name_no_slash: "47 \<notin> set n \<Longrightarrow> path_name (d @ 47 # n) = n"
proof -
  assume "47 \<notin> set n"
  then have "takeWhile (\<lambda>c. c \<noteq> 47) (rev n @ 47 # rev d) = rev n @ takeWhile (\<lambda>c. c \<noteq> 47) (47 # rev d)"
    by (intro takeWhile_append2) auto
  then show ?thesis by (simp add: path_name_def)
qed

lemma proof_name_no_slash:
  assumes "is_hash_text t"
  shows "47 \<notin> set (proof_name s t)"
proof -
  have "47 \<notin> set t" using assms by (auto simp: is_hash_text_def list_all_iff is_hex_def)
  moreover have "47 \<notin> set (dec s)" using dec_digits [of 47 s] by (auto simp: is_digit_def)
  ultimately show ?thesis by (auto simp: proof_name_def lit_def)
qed

lemma due_jobs_set: "set (due_jobs now db) = {r \<in> set db. is_due now r}"
  by (auto simp: due_jobs_def)

lemma due_jobs_distinct: "db_ok db \<Longrightarrow> distinct (map ar_id (due_jobs now db))"
  by (auto simp: due_jobs_def db_ok_def distinct_map intro: inj_on_subset)

text \<open>
  \<^verbatim>\<open>(proof_directory / name).expanduser().resolve()\<close> ends in the name it was given unless that file is a symbolic link:
  the name is no \<^verbatim>\<open>..\<close>, and links and \<^verbatim>\<open>..\<close> before it do not matter. The run needs this of one path only, the proof path
  of the tip it reads.
\<close>

definition proof_path_kept :: "worker_config \<Rightarrow> bool \<Rightarrow> bytestr option \<Rightarrow> bool" where
  "proof_path_kept c lock chain =
     (case snapshot_tip lock chain of
        Inl e \<Rightarrow> True
      | Inr (sequence, tip_hash) \<Rightarrow>
          path_name (wc_resolve c (wc_proof_directory c @ [47] @ proof_name sequence tip_hash)) = proof_name sequence tip_hash)"

text \<open>The parts of a run that reads a tip and tracks it.\<close>

lemma run_once_parts:
  assumes "snapshot_tip lock chain = Inr (sequence, tip_hash)"
    and "proof_path_kept c lock chain"
    and "track_tip (int sequence) tip_hash path (wc_interval_minutes c) (wc_confirmation_threshold c) (aw_db w) = Inr (fresh, db')"
    and "path = wc_resolve c (wc_proof_directory c @ [47] @ proof_name sequence tip_hash)"
    and "world_ok strict L w"
  shows "world_ok strict L (w\<lparr>aw_db := db'\<rparr>)"
    and "run_once c env lock chain w =
      (let jobs = due_jobs (utc_text (we_now env)) db' in
       case process_jobs env jobs (w\<lparr>aw_db := db'\<rparr>) of
         (Inl e, w') \<Rightarrow> (Inl (RunRaises e), w') | (Inr _, w') \<Rightarrow> (Inr (length jobs), w'))"
proof -
  have h: "is_hash_text tip_hash" using assms(1) by (rule snapshot_tip_Inr)
  have "path_name path = proof_name sequence tip_hash"
    using assms(1,2,4) by (simp add: proof_path_kept_def)
  from track_tip_ok [OF assms(5,3) h this] show "world_ok strict L (w\<lparr>aw_db := db'\<rparr>)" .
  show "run_once c env lock chain w =
      (let jobs = due_jobs (utc_text (we_now env)) db' in
       case process_jobs env jobs (w\<lparr>aw_db := db'\<rparr>) of
         (Inl e, w') \<Rightarrow> (Inl (RunRaises e), w') | (Inr _, w') \<Rightarrow> (Inr (length jobs), w'))"
    using assms(1,3,4) by (simp add: run_once_def Let_def)
qed

lemma run_once_ok:
  assumes "world_ok True L w" and "we_ots env = L" and "proof_path_kept c lock chain"
  shows "world_ok True L (snd (run_once c env lock chain w))"
proof (cases "snapshot_tip lock chain")
  case (Inr st)
  obtain sequence tip_hash where st: "st = (sequence, tip_hash)" by (cases st)
  define path where "path = wc_resolve c (wc_proof_directory c @ [47] @ proof_name sequence tip_hash)"
  show ?thesis
  proof (cases "track_tip (int sequence) tip_hash path (wc_interval_minutes c) (wc_confirmation_threshold c) (aw_db w)")
    case (Inl e)
    with assms(1) Inr st show ?thesis by (simp add: run_once_def path_def)
  next
    case tr: (Inr x)
    then obtain fresh db' where x: "track_tip (int sequence) tip_hash path (wc_interval_minutes c)
        (wc_confirmation_threshold c) (aw_db w) = Inr (fresh, db')" by (cases x) auto
    note r = run_once_parts [OF Inr [unfolded st] assms(3) x path_def assms(1)]
    obtain res w' where pj: "process_jobs env (due_jobs (utc_text (we_now env)) db') (w\<lparr>aw_db := db'\<rparr>) = (res, w')"
      by fastforce
    have "world_ok True L w'"
      using r(1) by (intro process_jobs_ok(1) [OF r(1) _ _ assms(2) pj])
        (auto simp: due_jobs_set world_ok_def intro: due_jobs_distinct)
    then show ?thesis unfolding r(2) using pj by (auto simp: Let_def split: sum.splits)
  qed
qed (use assms(1) in \<open>simp add: run_once_def\<close>)

text \<open>What the statement gives for the file of a row.\<close>

lemma strict_proof:
  assumes "world_ok True L w" and "r \<in> set (aw_db w)"
    and "ar_state r = SubmittedPending \<or> ar_state r = UpgradedUnverified"
  shows "\<exists>proof i. aw_files w (ar_proof_path r) = Some proof \<and>
    inspect_proof L proof (fromhex (ar_tip_hash r)) = Inr i \<and> (ar_state r = UpgradedUnverified \<longrightarrow> pi_bitcoin i)"
proof -
  have "row_proof True L (aw_files w) r" using assms(1,2) by (auto simp: world_ok_def)
  then show ?thesis
    using assms(3) by (auto simp: row_proof_def resumed_state_def inspected_def inspect_file_def
        split: option.splits sum.splits)
qed

text \<open>Every pending or upgraded row has a proof file for its tip hash, that of an upgraded row with a Bitcoin attestation.\<close>

definition proofs_attested :: "ots \<Rightarrow> anchor_world \<Rightarrow> bool" where
  "proofs_attested L w \<longleftrightarrow>
     (\<forall>r \<in> set (aw_db w). ar_state r = SubmittedPending \<or> ar_state r = UpgradedUnverified \<longrightarrow>
        (\<exists>proof i. aw_files w (ar_proof_path r) = Some proof \<and>
           inspect_proof L proof (fromhex (ar_tip_hash r)) = Inr i \<and> (ar_state r = UpgradedUnverified \<longrightarrow> pi_bitcoin i)))"

lemma world_ok_attested: "world_ok True L w \<Longrightarrow> proofs_attested L w"
  unfolding proofs_attested_def using strict_proof by blast

text \<open>
  The worlds one worker at a time brings about: an empty table, beside whatever files there are, and then any number of runs,
  each with its own configuration, environment, lock outcome and chain file, over the same proof library.
\<close>

inductive worker_world :: "ots \<Rightarrow> anchor_world \<Rightarrow> bool" for L :: ots where
  Fresh: "worker_world L \<lparr>aw_db = [], aw_files = fs\<rparr>"
| Run: "worker_world L w \<Longrightarrow> we_ots env = L \<Longrightarrow> proof_path_kept c lock chain \<Longrightarrow>
    worker_world L (snd (run_once c env lock chain w))"

lemma worker_world_ok: "worker_world L w \<Longrightarrow> world_ok True L w"
proof (induction rule: worker_world.induct)
  case (Fresh fs)
  show ?case by (simp add: world_ok_def db_ok_def)
next
  case (Run w env c lock chain)
  then show ?case by (intro run_once_ok)
qed

end
