(* ===== verification/Anchor_Processes.thy ===== *)
theory Anchor_Processes
  imports Anchor_Run
begin

text \<open>
  Several workers of \<^verbatim>\<open>src/forensics/anchor_worker.py\<close> on one database and one proof directory, as a step
  relation. One step is one committed transaction or one access to the file system: between the test that a
  proof file does not exist and its replacement, other workers may run. A worker may stop at any point. The
  invariant is \<open>world_ok\<close> without the attestation: a proof that a row relies on always validates
  against the row's tip hash.
\<close>

section \<open>Steps\<close>

datatype worker_phase =
    WIdle
  | WJobs "anchor_row list"
  | WTrying anchor_row "anchor_row list"
  | WPublishing anchor_row bytestr bool job_action "anchor_row list"
  | WReplacing anchor_row bytestr job_action "anchor_row list"
  | WEnding anchor_row job_action "anchor_row list"
  | WFailing anchor_row py_exn "anchor_row list"

record anchor_sys =
  sy_world :: anchor_world
  sy_worker :: "nat \<Rightarrow> worker_phase"

definition go :: "nat \<Rightarrow> worker_phase \<Rightarrow> anchor_world \<Rightarrow> anchor_sys \<Rightarrow> anchor_sys" where
  "go i ph w s = \<lparr>sy_world = w, sy_worker = (sy_worker s)(i := ph)\<rparr>"

definition job_plan_of :: "worker_env \<Rightarrow> anchor_row \<Rightarrow> files \<Rightarrow> py_exn + job_plan" where
  "job_plan_of env job fs = (if ar_state job = Queued then queued_plan env job fs else pending_plan env job fs)"

text \<open>\<open>Track\<close> and \<open>Due\<close> are the beginning of \<^verbatim>\<open>run_once\<close>; \<open>Die\<close> is the end of a run or of the process.\<close>

inductive worker_step :: "ots \<Rightarrow> anchor_sys \<Rightarrow> anchor_sys \<Rightarrow> bool" for L where
  Track: "sy_worker s i = WIdle \<Longrightarrow> snapshot_tip lock chain = Inr (sequence, tip_hash) \<Longrightarrow>
    path_name path = proof_name sequence tip_hash \<Longrightarrow>
    track_tip (int sequence) tip_hash path interval threshold (aw_db (sy_world s)) = Inr (fresh, db') \<Longrightarrow>
    worker_step L s (go i WIdle ((sy_world s)\<lparr>aw_db := db'\<rparr>) s)"
| Due: "sy_worker s i = WIdle \<Longrightarrow>
    worker_step L s (go i (WJobs (due_jobs now (aw_db (sy_world s)))) (sy_world s) s)"
| Resume: "sy_worker s i = WJobs (job # jobs) \<Longrightarrow> ar_state job = RetryFailed \<Longrightarrow>
    resume_retry job (aw_db (sy_world s)) = (res, db') \<Longrightarrow>
    worker_step L s (go i (case res of Inl e \<Rightarrow> WIdle | Inr job' \<Rightarrow> WTrying job' jobs)
      ((sy_world s)\<lparr>aw_db := db'\<rparr>) s)"
| Try: "sy_worker s i = WJobs (job # jobs) \<Longrightarrow> ar_state job \<noteq> RetryFailed \<Longrightarrow>
    worker_step L s (go i (WTrying job jobs) (sy_world s) s)"
| Skip: "sy_worker s i = WTrying job jobs \<Longrightarrow> ar_state job \<notin> {Queued, SubmittedPending} \<Longrightarrow>
    worker_step L s (go i (WJobs jobs) (sy_world s) s)"
| Plan: "sy_worker s i = WTrying job jobs \<Longrightarrow> ar_state job \<in> {Queued, SubmittedPending} \<Longrightarrow> we_ots env = L \<Longrightarrow>
    worker_step L s (go i
      (case job_plan_of env job (aw_files (sy_world s)) of
         Inl e \<Rightarrow> WFailing job e jobs
       | Inr (None, action) \<Rightarrow> WEnding job action jobs
       | Inr (Some (proof, replace), action) \<Rightarrow> WPublishing job proof replace action jobs) (sy_world s) s)"
| Check: "sy_worker s i = WPublishing job proof replace action jobs \<Longrightarrow>
    worker_step L s (go i
      (if \<not> replace \<and> aw_files (sy_world s) (ar_proof_path job) \<noteq> None
       then WFailing job (PyExn (PyError ''FileExistsError'') (ar_proof_path job)) jobs
       else WReplacing job proof action jobs) (sy_world s) s)"
| Replace: "sy_worker s i = WReplacing job proof action jobs \<Longrightarrow>
    write_proof_atomic (ar_proof_path job) proof True io (aw_files (sy_world s)) = (res, fs') \<Longrightarrow>
    worker_step L s (go i (case res of Inl e \<Rightarrow> WFailing job e jobs | Inr _ \<Rightarrow> WEnding job action jobs)
      ((sy_world s)\<lparr>aw_files := fs'\<rparr>) s)"
| End: "sy_worker s i = WEnding job action jobs \<Longrightarrow>
    commit_op (end_op env job action) (sy_world s) = (res, w') \<Longrightarrow>
    worker_step L s (go i (case res of Inl e \<Rightarrow> WFailing job e jobs | Inr _ \<Rightarrow> WJobs jobs) w' s)"
| Fail: "sy_worker s i = WFailing job e jobs \<Longrightarrow>
    commit_op (failure_op env job e) (sy_world s) = (res, w') \<Longrightarrow>
    worker_step L s (go i (case res of Inl e \<Rightarrow> WIdle | Inr _ \<Rightarrow> WJobs jobs) w' s)"
| Die: "worker_step L s (go i WIdle (sy_world s) s)"

definition init_sys :: "files \<Rightarrow> anchor_sys" where
  "init_sys fs = \<lparr>sy_world = \<lparr>aw_db = [], aw_files = fs\<rparr>, sy_worker = (\<lambda>_. WIdle)\<rparr>"

inductive worker_reachable :: "ots \<Rightarrow> files \<Rightarrow> anchor_sys \<Rightarrow> bool" for L fs where
  Start: "worker_reachable L fs (init_sys fs)"
| Step: "worker_reachable L fs s \<Longrightarrow> worker_step L s s' \<Longrightarrow> worker_reachable L fs s'"

inductive_cases worker_stepE: "worker_step L s s'"

section \<open>The invariant\<close>

definition kept :: "ots \<Rightarrow> anchor_world \<Rightarrow> anchor_row \<Rightarrow> bool" where
  "kept L w job \<longleftrightarrow> held job w \<and> row_proof False L (aw_files w) job"

fun phase_ok :: "ots \<Rightarrow> anchor_world \<Rightarrow> worker_phase \<Rightarrow> bool" where
  "phase_ok L w WIdle = True"
| "phase_ok L w (WJobs jobs) = (\<forall>job \<in> set jobs. kept L w job)"
| "phase_ok L w (WTrying job jobs) = (\<forall>job \<in> set (job # jobs). kept L w job)"
| "phase_ok L w (WPublishing job proof replace action jobs) =
     ((\<forall>job \<in> set (job # jobs). kept L w job) \<and> plan_ok L (aw_files w) job (Some (proof, replace), action))"
| "phase_ok L w (WReplacing job proof action jobs) =
     ((\<forall>job \<in> set (job # jobs). kept L w job) \<and> plan_ok L (aw_files w) job (Some (proof, True), action))"
| "phase_ok L w (WEnding job action jobs) =
     ((\<forall>job \<in> set (job # jobs). kept L w job) \<and>
      (case action of ToState state \<Rightarrow> proof_state False L (aw_files w) job state | StillPending \<Rightarrow> True))"
| "phase_ok L w (WFailing job e jobs) = (\<forall>job \<in> set (job # jobs). kept L w job)"

definition anchor_inv :: "ots \<Rightarrow> anchor_sys \<Rightarrow> bool" where
  "anchor_inv L s \<longleftrightarrow> world_ok False L (sy_world s) \<and> (\<forall>i. phase_ok L (sy_world s) (sy_worker s i))"

text \<open>The world moves on: jobs stay held, and files that validate keep validating.\<close>

definition later :: "ots \<Rightarrow> anchor_world \<Rightarrow> anchor_world \<Rightarrow> bool" where
  "later L w w' \<longleftrightarrow> (\<forall>job. held job w \<longrightarrow> held job w' \<and>
     (inspected L (aw_files w) job \<noteq> None \<longrightarrow> inspected L (aw_files w') job \<noteq> None))"

lemma later_refl [simp]: "later L w w"
  by (simp add: later_def)

lemma kept_later: "later L w w' \<Longrightarrow> kept L w job \<Longrightarrow> kept L w' job"
  by (auto simp: kept_def later_def row_proof_def)

lemma proof_state_later:
  "later L w w' \<Longrightarrow> kept L w job \<Longrightarrow> proof_state False L (aw_files w) job state \<Longrightarrow>
    proof_state False L (aw_files w') job state"
  by (auto simp: later_def proof_state_def kept_def)

lemma plan_ok_written: "plan_ok L fs job (Some wr, action) = plan_ok L fs' job (Some wr, action)"
  by (cases wr) simp

lemma phase_ok_later:
  assumes "later L w w'" and "phase_ok L w ph"
  shows "phase_ok L w' ph"
proof -
  note plan_ok.simps [simp del]
  show ?thesis
    using assms(2) kept_later [OF assms(1)] proof_state_later [OF assms(1)]
    by (cases ph) (auto simp: plan_ok_written [of L "aw_files w" _ _ _ "aw_files w'"] split: job_action.splits)
qed

lemma go_inv:
  assumes "anchor_inv L s" and "world_ok False L w" and "later L (sy_world s) w" and "phase_ok L w ph"
  shows "anchor_inv L (go i ph w s)"
  using assms phase_ok_later by (auto simp: anchor_inv_def go_def)

lemma later_commit:
  assumes "world_ok False L w" and "w' = snd (commit_op p w)"
  shows "later L w w'"
  using assms held_apply
  by (auto simp: later_def commit_op_snd world_ok_def split: sum.splits option.splits)

text \<open>Publishing a proof that validates for its job.\<close>

lemma later_write:
  assumes w: "world_ok False L w" and job: "held job w" and valid: "valid_for L pf job"
    and wr: "write_proof_atomic (ar_proof_path job) pf True io (aw_files w) = (res, fs')"
  shows "world_ok False L (w\<lparr>aw_files := fs'\<rparr>)" and "later L w (w\<lparr>aw_files := fs'\<rparr>)"
proof -
  obtain r where r: "job_of job r" "r \<in> set (aw_db w)" using job by (auto simp: held_def)
  have ok: "db_ok (aw_db w)" "\<forall>q \<in> set (aw_db w). row_ok q \<and> row_proof False L (aw_files w) q"
    using w by (auto simp: world_ok_def)
  show "world_ok False L (w\<lparr>aw_files := fs'\<rparr>)"
    using write_keeps_proof [OF wr r valid ok] ok(1) by (simp add: world_ok_def)
  have "inspected L fs' q \<noteq> None" if q: "held q w" "inspected L (aw_files w) q \<noteq> None" for q
  proof -
    obtain rq where rq: "job_of q rq" "rq \<in> set (aw_db w)" using q(1) by (auto simp: held_def)
    show ?thesis
    proof (cases "rq = r")
      case False
      then have "fs' (ar_proof_path rq) = aw_files w (ar_proof_path rq)"
        using write_keeps_files [OF wr r rq(2) ok(1)] ok(2) by auto
      then show ?thesis using q(2) inspected_cong [of fs' rq "aw_files w"] inspected_job [OF rq(1)] by simp
    next
      case True
      have "fs' (ar_proof_path job) = Some pf \<or> fs' (ar_proof_path job) = aw_files w (ar_proof_path job)"
        using write_result(1,2) [OF wr] by (cases res) auto
      then have "inspected L fs' job \<noteq> None \<or> inspected L fs' job = inspected L (aw_files w) job"
        using valid by (auto simp: inspected_def inspect_file_def valid_for_def)
      then show ?thesis using q(2) True inspected_job [OF rq(1)] inspected_job [OF r(1)] by auto
    qed
  qed
  then show "later L w (w\<lparr>aw_files := fs'\<rparr>)" by (auto simp: later_def held_def)
qed

lemma kept_row: "world_ok False L w \<Longrightarrow> job \<in> set (aw_db w) \<Longrightarrow> kept L w job"
  using current_held by (auto simp: kept_def world_ok_def)

lemma later_track:
  assumes "track_tip sequence tip_hash path interval threshold (aw_db w) = Inr (fresh, db')"
  shows "later L w (w\<lparr>aw_db := db'\<rparr>)"
  using track_tip_cases [OF assms] by (auto simp: later_def held_def)

text \<open>A committed operation keeps the invariant, whatever the phase after it.\<close>

lemma commit_step:
  assumes inv: "anchor_inv L s" and job: "kept L (sy_world s) job"
    and op: "\<And>q. p = Inr q \<Longrightarrow> op_job q = job \<and> op_ok False L (aw_files (sy_world s)) q"
    and w': "w' = snd (commit_op p (sy_world s))"
    and ph: "world_ok False L w' \<Longrightarrow> later L (sy_world s) w' \<Longrightarrow> phase_ok L w' ph"
  shows "anchor_inv L (go i ph w' s)"
proof -
  have w: "world_ok False L (sy_world s)" using inv by (simp add: anchor_inv_def)
  have "world_ok False L w'" using commit_op_ok(1) [OF w op _ w'] job by (simp add: kept_def)
  with inv later_commit [OF w w'] ph show ?thesis by (intro go_inv)
qed

lemma resume_commit:
  assumes "resume_retry job db = (res, db')" and "db = aw_db w"
  shows "w\<lparr>aw_db := db'\<rparr> = snd (commit_op (Inr (OpResume job)) w)"
  using assms by (auto simp: commit_op_def split: sum.splits)

lemma plan_phase:
  assumes job: "\<forall>q \<in> set (job # jobs). kept L w q" and st: "ar_state job \<in> {Queued, SubmittedPending}" and L: "we_ots env = L"
  shows "phase_ok L w
    (case job_plan_of env job (aw_files w) of
       Inl e \<Rightarrow> WFailing job e jobs
     | Inr (None, action) \<Rightarrow> WEnding job action jobs
     | Inr (Some (pf, replace), action) \<Rightarrow> WPublishing job pf replace action jobs)"
proof (cases "job_plan_of env job (aw_files w)")
  case (Inr pl)
  have pl: "plan_ok L (aw_files w) job pl"
    using Inr st queued_plan_ok [OF L] pending_plan_ok [OF L] by (auto simp: job_plan_of_def split: if_splits)
  obtain wr action where "pl = (wr, action)" by (cases pl)
  with pl job Inr show ?thesis
    by (cases wr) (auto split: job_action.splits intro: proof_state_lax)
qed (use job in simp)

lemma worker_step_inv:
  assumes "worker_step L s s'" and inv: "anchor_inv L s"
  shows "anchor_inv L s'"
  using assms(1)
proof cases
  case (Track i lock chain sequence tip_hash path interval threshold fresh db')
  have w: "world_ok False L (sy_world s)" using inv by (simp add: anchor_inv_def)
  have "is_hash_text tip_hash" using Track(3) by (rule snapshot_tip_Inr)
  then show ?thesis
    unfolding Track(1) using inv track_tip_ok [OF w Track(5) _ Track(4)] later_track [OF Track(5)]
    by (intro go_inv) simp_all
next
  case (Due i now)
  have w: "world_ok False L (sy_world s)" using inv by (simp add: anchor_inv_def)
  show ?thesis unfolding Due(1) using inv w kept_row [OF w] by (intro go_inv) (auto simp: due_jobs_set)
next
  case (Resume i job jobs res db')
  have k: "kept L (sy_world s) q" if "q \<in> set (job # jobs)" for q
    using inv Resume(2) that by (auto simp: anchor_inv_def dest: spec [of _ i])
  show ?thesis unfolding Resume(1)
  proof (rule commit_step [OF inv k [of job] _ resume_commit [OF Resume(4) refl]])
    fix q
    assume "Inr (OpResume job) = (Inr q :: py_exn + store_op)"
    then show "op_job q = job \<and> op_ok False L (aw_files (sy_world s)) q" using k [of job] by (auto simp: kept_def)
  next
    let ?w = "(sy_world s)\<lparr>aw_db := db'\<rparr>"
    assume w: "world_ok False L ?w" "later L (sy_world s) ?w"
    show "phase_ok L ?w (case res of Inl e \<Rightarrow> WIdle | Inr job' \<Rightarrow> WTrying job' jobs)"
    proof (cases res)
      case (Inr job')
      then have "job' \<in> set db'" using run_store_op_row(2) [of "OpResume job"] Resume(4) by simp
      with kept_row [OF w(1)] kept_later [OF w(2)] k Inr show ?thesis by simp
    qed simp
  qed simp
next
  case (Try i job jobs)
  then have "\<forall>q \<in> set (job # jobs). kept L (sy_world s) q"
    using inv by (auto simp: anchor_inv_def dest: spec [of _ i])
  then show ?thesis unfolding Try(1) using inv by (intro go_inv) (auto simp: anchor_inv_def)
next
  case (Skip i job jobs)
  then have "\<forall>q \<in> set jobs. kept L (sy_world s) q"
    using inv by (auto simp: anchor_inv_def dest: spec [of _ i])
  then show ?thesis unfolding Skip(1) using inv by (intro go_inv) (auto simp: anchor_inv_def)
next
  case (Plan i job jobs env)
  have "\<forall>q \<in> set (job # jobs). kept L (sy_world s) q"
    using inv Plan(2) by (auto simp: anchor_inv_def dest: spec [of _ i])
  from plan_phase [OF this Plan(3,4)] show ?thesis
    unfolding Plan(1) using inv by (intro go_inv) (simp_all add: anchor_inv_def)
next
  case (Check i job pf replace action jobs)
  have "phase_ok L (sy_world s) (WPublishing job pf replace action jobs)"
    using inv Check(2) by (metis anchor_inv_def)
  then show ?thesis unfolding Check(1) using inv by (intro go_inv) (auto simp: anchor_inv_def)
next
  case (Replace i job pf action jobs io res fs')
  have w: "world_ok False L (sy_world s)" using inv by (simp add: anchor_inv_def)
  have ph: "phase_ok L (sy_world s) (WReplacing job pf action jobs)"
    using inv Replace(2) by (metis anchor_inv_def)
  then have v: "valid_for L pf job" "held job (sy_world s)" by (auto simp: valid_for_def kept_def)
  note lw = later_write [OF w v(2,1) Replace(3)]
  have "case action of ToState state \<Rightarrow> proof_state False L fs' job state | StillPending \<Rightarrow> True" if "res = Inr ()"
    using inspected_written [of job pf True io "aw_files (sy_world s)" fs' L] Replace(3) that ph
    by (auto simp: proof_state_def split: job_action.splits if_splits)
  then show ?thesis unfolding Replace(1)
    using inv lw kept_later [OF lw(2)] ph by (intro go_inv) (auto split: sum.splits job_action.splits)
next
  case (End i job action jobs env res w')
  have ph: "phase_ok L (sy_world s) (WEnding job action jobs)" using inv End(2) by (metis anchor_inv_def)
  have w': "w' = snd (commit_op (end_op env job action) (sy_world s))" using End(3) by simp
  show ?thesis unfolding End(1)
    by (rule commit_step [OF inv _ end_op_ok w']) (use ph kept_later in \<open>auto split: sum.splits\<close>)
next
  case (Fail i job e jobs env res w')
  have ph: "phase_ok L (sy_world s) (WFailing job e jobs)" using inv Fail(2) by (metis anchor_inv_def)
  have w': "w' = snd (commit_op (failure_op env job e) (sy_world s))" using Fail(3) by simp
  show ?thesis unfolding Fail(1)
    by (rule commit_step [OF inv _ failure_op_ok w']) (use ph kept_later in \<open>auto split: sum.splits\<close>)
next
  case (Die i)
  show ?thesis unfolding Die using inv by (intro go_inv) (auto simp: anchor_inv_def)
qed

lemma worker_reachable_inv: "worker_reachable L fs s \<Longrightarrow> anchor_inv L s"
proof (induction rule: worker_reachable.induct)
  case Start
  show ?case by (simp add: anchor_inv_def init_sys_def world_ok_def db_ok_def)
qed (rule worker_step_inv)

end
