(* ===== verification/Anchor_Samples.thy ===== *)
theory Anchor_Samples
  imports Anchor_Processes Forensic_Properties
begin

text \<open>
  Concrete inputs for the properties of the worker: a proof format whose first byte says which attestation the
  proof holds, a run in which one worker makes a tip pending, and the run of two workers in which the proof of
  an upgraded tip is replaced by one without the attestation.
\<close>

section \<open>A proof format\<close>

definition sample_detached :: "byte \<Rightarrow> bytestr \<Rightarrow> detached" where
  "sample_detached b digest =
     \<lparr>det_hash_op = OpSHA256, det_timestamp = Timestamp digest
        [if b = 1 then BitcoinBlockHeaderAttestation 800000 else PendingAttestation (lit ''https://calendar'')] []\<rparr>"

definition sample_ots :: ots where
  "sample_ots =
     \<lparr>ots_deserialize = (\<lambda>bs. case bs of [] \<Rightarrow> Inl (lit ''empty'') | b # digest \<Rightarrow> Inr (sample_detached b digest)),
      ots_serialize = (\<lambda>d. Inr (0 # det_file_digest d)),
      ots_apply = (\<lambda>op msg. sha256 msg),
      ots_all_attestations = (\<lambda>t. map (\<lambda>a. (ts_msg t, a)) (ts_attestations t)),
      ots_merge = (\<lambda>t u. Inr (Timestamp (ts_msg t) (ts_attestations t @ ts_attestations u) (ts_ops t @ ts_ops u)))\<rparr>"

lemma sample_inspect:
  "length digest = 32 \<Longrightarrow> inspect_proof sample_ots (b # digest) digest = Inr \<lparr>pi_digest = digest, pi_bitcoin = (b = 1)\<rparr>"
  by (simp add: inspect_proof_def validated_detached_def sample_ots_def sample_detached_def)

lemma length_fromhex: "length (fromhex s) = length s div 2"
  by (induction s rule: fromhex.induct) simp_all

lemma sample_target:
  "is_hash_text tip \<Longrightarrow> target_state sample_ots (b # fromhex tip) (fromhex tip) =
    Inr (if b = 1 then UpgradedUnverified else SubmittedPending)"
  by (simp add: target_state_def sample_inspect length_fromhex is_hash_text_def)

definition sample_io :: write_io where
  "sample_io = \<lparr>wi_mkdir = None, wi_temp = Inr (lit ''a''), wi_write = None, wi_replace = None\<rparr>"

definition sample_now :: dt where
  "sample_now = \<lparr>dt_date = (2026, 1, 31), dt_hour = 12, dt_minute = 0, dt_second = 0, dt_micro = 0\<rparr>"

text \<open>A backend that stamps with the byte 0 and upgrades to the byte given, and an environment around it.\<close>

definition sample_worker :: "byte \<Rightarrow> worker_env" where
  "sample_worker b =
     \<lparr>we_ots = sample_ots, we_stamp = (\<lambda>digest. Inr (0 # digest)), we_upgrade = (\<lambda>proof digest. Inr (Some (b # digest))),
      we_read = (\<lambda>p. None), we_write = (\<lambda>p. sample_io), we_now = sample_now, we_jitter = (\<lambda>r. f64_zero)\<rparr>"

lemma sample_write:
  "write_proof_atomic target (b # digest) True sample_io fs =
    (Inr (), fs(target \<mapsto> b # digest, temp_path target (lit ''a'') := None))"
  by (simp add: write_proof_atomic_def write_proof_ops_def write_ops_def sample_io_def fun_eq_iff)

lemma sample_write_new:
  "fs target = None \<Longrightarrow> write_proof_atomic target (b # digest) False sample_io fs =
    (Inr (), fs(target \<mapsto> b # digest, temp_path target (lit ''a'') := None))"
  by (simp add: write_proof_atomic_def write_proof_ops_def write_ops_def sample_io_def fun_eq_iff)

lemma sample_now_valid: "valid_dt sample_now"
  by (simp add: valid_dt_def valid_date_def sample_now_def days_in_month_def)

definition sample_next :: pystr where
  "sample_next = utc_text (dt_of_micros (dt_micros sample_now + 900000000))"

lemma sample_later: "dt_micros sample_now + 900000000 < max_micros"
  by (simp add: sample_now_def dt_micros_def ymd2ord_def days_before_year_def days_before_month_def
      seconds_of_day_def max_micros_def)

lemma sample_next_attempt: "ar_interval_minutes job = 15 \<Longrightarrow> next_pending_attempt job sample_now = Inr sample_next"
proof -
  assume i: "ar_interval_minutes job = 15"
  have "int (dt_micros sample_now) + 900000000 < int max_micros" using sample_later by linarith
  moreover have "nat (int (dt_micros sample_now) + 900000000) = dt_micros sample_now + 900000000" by linarith
  ultimately show ?thesis
    using i by (simp add: next_pending_attempt_def timedelta_minutes_def add_micros_def sample_next_def Let_def)
qed

section \<open>A tip\<close>

lemma sample_snapshot:
  obtains chain tip where "snapshot_tip True chain = Inr (0, tip)" "is_hash_text tip"
proof -
  obtain d where d: "links iter_init (norm_dict d)" by (rule sample_log)
  then have ch: "is_chain (Some (line_of (norm_dict d))) [norm_dict d]"
    by (simp add: is_chain_def file_of_def file_bytes_def)
  then have "chain_tip (Some (line_of (norm_dict d))) None = Inr (1, tip_hash_of [norm_dict d])"
    by (auto simp: chain_tip_file)
  then have s: "snapshot_tip True (Some (line_of (norm_dict d))) = Inr (0, tip_hash_of [norm_dict d])"
    by (simp add: snapshot_tip_def locked_tip_def)
  then show thesis by (intro that [OF s]) (rule snapshot_tip_Inr)
qed

definition sample_path :: "pystr \<Rightarrow> pystr" where
  "sample_path tip = lit ''/anchors'' @ 47 # proof_name 0 tip"

lemma sample_path_name: "is_hash_text tip \<Longrightarrow> path_name (sample_path tip) = proof_name 0 tip"
  unfolding sample_path_def by (rule path_name_no_slash [OF proof_name_no_slash])

definition sample_row :: "pystr \<Rightarrow> anchor_row" where
  "sample_row tip = new_row 1 0 tip (sample_path tip) 15 6"

definition pending_row :: "pystr \<Rightarrow> anchor_row" where
  "pending_row tip = (sample_row tip)\<lparr>ar_state := SubmittedPending, ar_last_attempt := Some (utc_text sample_now),
     ar_next_attempt := Some sample_next\<rparr>"

definition upgraded_row :: "pystr \<Rightarrow> anchor_row" where
  "upgraded_row tip = (pending_row tip)\<lparr>ar_state := UpgradedUnverified, ar_next_attempt := None\<rparr>"

lemma row_simps [simp]:
  "ar_id (sample_row tip) = 1" "ar_sequence (sample_row tip) = 0" "ar_tip_hash (sample_row tip) = tip"
  "ar_state (sample_row tip) = Queued" "ar_proof_path (sample_row tip) = sample_path tip"
  "ar_interval_minutes (sample_row tip) = 15" "ar_retry_from (sample_row tip) = None"
  "ar_last_error (sample_row tip) = None" "ar_failure_class (sample_row tip) = None"
  "ar_id (pending_row tip) = 1" "ar_sequence (pending_row tip) = 0" "ar_tip_hash (pending_row tip) = tip"
  "ar_state (pending_row tip) = SubmittedPending" "ar_proof_path (pending_row tip) = sample_path tip"
  "ar_interval_minutes (pending_row tip) = 15" "ar_next_attempt (pending_row tip) = Some sample_next"
  "ar_state (upgraded_row tip) = UpgradedUnverified" "ar_proof_path (upgraded_row tip) = sample_path tip"
  "ar_tip_hash (upgraded_row tip) = tip" "ar_sequence (upgraded_row tip) = 0"
  by (simp_all add: sample_row_def new_row_def pending_row_def upgraded_row_def)

lemma sample_track: "track_tip 0 tip (sample_path tip) 15 6 [] = Inr (True, [sample_row tip])"
  by (simp add: track_tip_def bind_int_def sample_row_def next_id_def)

lemma to_pending:
  "run_store_op (OpTransition (sample_row tip) SubmittedPending (utc_text sample_now) (Some sample_next)) [sample_row tip] =
    (Inr (pending_row tip), [pending_row tip])"
  by (simp add: transition_def update_one_def update_rows_def get_row_def row_key_def pending_row_def sample_row_def new_row_def)

lemma to_upgraded:
  "run_store_op (OpTransition (pending_row tip) UpgradedUnverified (utc_text sample_now) None) [pending_row tip] =
    (Inr (upgraded_row tip), [upgraded_row tip])"
  by (simp add: transition_def update_one_def update_rows_def get_row_def row_key_def upgraded_row_def)
    (simp add: pending_row_def sample_row_def new_row_def)

section \<open>Runs\<close>

lemma go_simps [simp]:
  "sy_world (go i ph w s) = w" "sy_worker (go i ph w s) j = (if j = i then ph else sy_worker s j)"
  by (simp_all add: go_def)

definition empty_files :: files where
  "empty_files = (\<lambda>p. None)"

definition published :: "byte \<Rightarrow> pystr \<Rightarrow> files \<Rightarrow> files" where
  "published b tip fs = fs(sample_path tip \<mapsto> b # fromhex tip, temp_path (sample_path tip) (lit ''a'') := None)"

text \<open>The worker stamps the tip: its row is pending and the proof is published.\<close>

definition pending_world :: "pystr \<Rightarrow> anchor_world" where
  "pending_world tip = \<lparr>aw_db = [pending_row tip], aw_files = published 0 tip empty_files\<rparr>"

abbreviation sample_reach :: "anchor_sys \<Rightarrow> bool" where
  "sample_reach s \<equiv> worker_reachable sample_ots empty_files s"

lemma sample_published: "published b tip fs (sample_path tip) = Some (b # fromhex tip)"
  by (simp add: published_def)

lemma sample_inspected:
  "is_hash_text tip \<Longrightarrow> ar_proof_path r = sample_path tip \<Longrightarrow> ar_tip_hash r = tip \<Longrightarrow>
    inspected sample_ots (published b tip fs) r = Some \<lparr>pi_digest = fromhex tip, pi_bitcoin = (b = 1)\<rparr>"
  by (simp add: inspected_def inspect_file_def sample_published sample_inspect length_fromhex is_hash_text_def)

lemma sample_queued_plan:
  "is_hash_text tip \<Longrightarrow> queued_plan (sample_worker b) (sample_row tip) empty_files =
    Inr (Some (0 # fromhex tip, False), ToState SubmittedPending)"
  by (simp add: queued_plan_def sample_worker_def empty_files_def sample_target)

lemma sample_pending_plan:
  "is_hash_text tip \<Longrightarrow> queued \<noteq> 1 \<Longrightarrow> pending_plan (sample_worker b) (pending_row tip) (published queued tip fs) =
    Inr (Some (b # fromhex tip, True), if b = 1 then ToState UpgradedUnverified else StillPending)"
  by (simp add: pending_plan_def sample_worker_def sample_published sample_target read_proof_def
      sample_inspect length_fromhex is_hash_text_def)

lemma sample_end:
  "end_op (sample_worker b) (sample_row tip) (ToState SubmittedPending) =
    Inr (OpTransition (sample_row tip) SubmittedPending (utc_text sample_now) (Some sample_next))"
  "end_op (sample_worker b) (pending_row tip) (ToState UpgradedUnverified) =
    Inr (OpTransition (pending_row tip) UpgradedUnverified (utc_text sample_now) None)"
  by (simp_all add: end_op_def sample_worker_def sample_next_attempt)

lemma sample_envs [simp]: "we_ots (sample_worker b) = sample_ots" "we_now (sample_worker b) = sample_now"
  by (simp_all add: sample_worker_def)

lemma queue_tip:
  assumes "snapshot_tip True chain = Inr (0, tip)"
  shows "sample_reach (go 1 WIdle \<lparr>aw_db = [sample_row tip], aw_files = empty_files\<rparr> (init_sys empty_files))"
proof -
  have h: "is_hash_text tip" using assms by (rule snapshot_tip_Inr)
  have "worker_step sample_ots (init_sys empty_files)
      (go 1 WIdle ((sy_world (init_sys empty_files))\<lparr>aw_db := [sample_row tip]\<rparr>) (init_sys empty_files))"
    by (rule worker_step.Track [where interval = 15 and threshold = 6 and fresh = True, OF _ assms sample_path_name [OF h]])
      (simp_all add: init_sys_def sample_track)
  from worker_reachable.Step [OF worker_reachable.Start this] show ?thesis by (simp add: init_sys_def)
qed

lemma make_pending:
  assumes tip: "snapshot_tip True chain = Inr (0, tip)"
  obtains s where "sample_reach s" "sy_world s = pending_world tip" "\<And>i. sy_worker s i = WIdle"
proof -
  have h: "is_hash_text tip" using tip by (rule snapshot_tip_Inr)
  define w0 where "w0 = \<lparr>aw_db = [sample_row tip], aw_files = empty_files\<rparr>"
  define s0 where "s0 = go 1 WIdle w0 (init_sys empty_files)"
  define s1 where "s1 = go 1 (WJobs [sample_row tip]) w0 s0"
  define s2 where "s2 = go 1 (WTrying (sample_row tip) []) w0 s1"
  define s3 where "s3 = go 1 (WPublishing (sample_row tip) (0 # fromhex tip) False (ToState SubmittedPending) []) w0 s2"
  define s4 where "s4 = go 1 (WReplacing (sample_row tip) (0 # fromhex tip) (ToState SubmittedPending) []) w0 s3"
  define w1 where "w1 = \<lparr>aw_db = [sample_row tip], aw_files = published 0 tip empty_files\<rparr>"
  define s5 where "s5 = go 1 (WEnding (sample_row tip) (ToState SubmittedPending) []) w1 s4"
  define s6 where "s6 = go 1 (WJobs []) (pending_world tip) s5"
  define s7 where "s7 = go 1 WIdle (pending_world tip) s6"
  note defs = s0_def s1_def s2_def s3_def s4_def s5_def s6_def s7_def
  have r0: "sample_reach s0" using queue_tip [OF tip] by (simp add: s0_def w0_def)
  have "worker_step sample_ots s0 s1"
    using worker_step.Due [of s0 1 sample_ots "[]"] by (simp add: s1_def s0_def w0_def due_jobs_def is_due_def)
  with r0 have r1: "sample_reach s1" by (rule worker_reachable.Step)
  have "worker_step sample_ots s1 s2"
    using worker_step.Try [of s1 1 "sample_row tip" "[]" sample_ots] by (simp add: s2_def s1_def)
  with r1 have r2: "sample_reach s2" by (rule worker_reachable.Step)
  have "worker_step sample_ots s2 s3"
    using worker_step.Plan [of s2 1 "sample_row tip" "[]" "sample_worker 0" sample_ots]
    by (simp add: s3_def s2_def w0_def job_plan_of_def sample_queued_plan [OF h])
  with r2 have r3: "sample_reach s3" by (rule worker_reachable.Step)
  have "worker_step sample_ots s3 s4"
    using worker_step.Check [of s3 1 "sample_row tip" "0 # fromhex tip" False "ToState SubmittedPending" "[]" sample_ots]
    by (simp add: s4_def s3_def w0_def empty_files_def)
  with r3 have r4: "sample_reach s4" by (rule worker_reachable.Step)
  have "worker_step sample_ots s4 s5"
    using worker_step.Replace [of s4 1 "sample_row tip" "0 # fromhex tip" "ToState SubmittedPending" "[]" sample_io
        "Inr ()" "published 0 tip empty_files" sample_ots]
    by (simp add: s5_def s4_def w0_def w1_def sample_write published_def)
  with r4 have r5: "sample_reach s5" by (rule worker_reachable.Step)
  have "commit_op (end_op (sample_worker 0) (sample_row tip) (ToState SubmittedPending)) w1 = (Inr (), pending_world tip)"
    using to_pending by (simp add: sample_end commit_op_def w1_def pending_world_def)
  then have "worker_step sample_ots s5 s6"
    using worker_step.End [of s5 1 "sample_row tip" "ToState SubmittedPending" "[]" "sample_worker 0" "Inr ()"]
    by (simp add: s6_def s5_def)
  with r5 have r6: "sample_reach s6" by (rule worker_reachable.Step)
  have "worker_step sample_ots s6 s7" using worker_step.Die [of sample_ots s6 1] by (simp add: s7_def s6_def)
  with r6 have "sample_reach s7" by (rule worker_reachable.Step)
  then show thesis by (rule that) (simp_all add: defs init_sys_def)
qed

text \<open>
  Two workers read the same pending proof. The first publishes the attestation and marks the row upgraded; the
  second then replaces the file by a proof its calendar had changed but not attested.
\<close>

lemma lose_attestation:
  assumes tip: "snapshot_tip True chain = Inr (0, tip)"
  obtains s where "sample_reach s" "aw_db (sy_world s) = [upgraded_row tip]"
    "aw_files (sy_world s) (sample_path tip) = Some (2 # fromhex tip)"
proof -
  have h: "is_hash_text tip" using tip by (rule snapshot_tip_Inr)
  obtain s0 where r0: "sample_reach s0" and w0: "sy_world s0 = pending_world tip" and idle: "\<And>i. sy_worker s0 i = WIdle"
    using make_pending [OF tip] by blast
  let ?p = "pending_row tip" and ?w = "pending_world tip"
  define s1 where "s1 = go 1 (WJobs [?p]) ?w s0"
  define s2 where "s2 = go 2 (WJobs [?p]) ?w s1"
  define s3 where "s3 = go 1 (WTrying ?p []) ?w s2"
  define s4 where "s4 = go 2 (WTrying ?p []) ?w s3"
  define s5 where "s5 = go 1 (WPublishing ?p (1 # fromhex tip) True (ToState UpgradedUnverified) []) ?w s4"
  define s6 where "s6 = go 2 (WPublishing ?p (2 # fromhex tip) True StillPending []) ?w s5"
  define s7 where "s7 = go 1 (WReplacing ?p (1 # fromhex tip) (ToState UpgradedUnverified) []) ?w s6"
  define s8 where "s8 = go 2 (WReplacing ?p (2 # fromhex tip) StillPending []) ?w s7"
  define w1 where "w1 = ?w\<lparr>aw_files := published 1 tip (aw_files ?w)\<rparr>"
  define s9 where "s9 = go 1 (WEnding ?p (ToState UpgradedUnverified) []) w1 s8"
  define w2 where "w2 = w1\<lparr>aw_db := [upgraded_row tip]\<rparr>"
  define s10 where "s10 = go 1 (WJobs []) w2 s9"
  define w3 where "w3 = w2\<lparr>aw_files := published 2 tip (aw_files w2)\<rparr>"
  define s11 where "s11 = go 2 (WEnding ?p StillPending []) w3 s10"
  have due: "due_jobs sample_next (aw_db ?w) = [?p]" by (simp add: pending_world_def due_jobs_def is_due_def)
  have "worker_step sample_ots s0 s1"
    using worker_step.Due [of s0 1 sample_ots sample_next] by (simp add: s1_def idle w0 due)
  with r0 have r1: "sample_reach s1" by (rule worker_reachable.Step)
  have "worker_step sample_ots s1 s2"
    using worker_step.Due [of s1 2 sample_ots sample_next] by (simp add: s2_def s1_def idle due)
  with r1 have r2: "sample_reach s2" by (rule worker_reachable.Step)
  have "worker_step sample_ots s2 s3"
    using worker_step.Try [of s2 1 ?p "[]" sample_ots] by (simp add: s3_def s2_def s1_def)
  with r2 have r3: "sample_reach s3" by (rule worker_reachable.Step)
  have "worker_step sample_ots s3 s4"
    using worker_step.Try [of s3 2 ?p "[]" sample_ots] by (simp add: s4_def s3_def s2_def)
  with r3 have r4: "sample_reach s4" by (rule worker_reachable.Step)
  have "worker_step sample_ots s4 s5"
    using worker_step.Plan [of s4 1 ?p "[]" "sample_worker 1" sample_ots]
    by (simp add: s5_def s4_def s3_def pending_world_def job_plan_of_def sample_pending_plan [OF h])
  with r4 have r5: "sample_reach s5" by (rule worker_reachable.Step)
  have "worker_step sample_ots s5 s6"
    using worker_step.Plan [of s5 2 ?p "[]" "sample_worker 2" sample_ots]
    by (simp add: s6_def s5_def s4_def pending_world_def job_plan_of_def sample_pending_plan [OF h])
  with r5 have r6: "sample_reach s6" by (rule worker_reachable.Step)
  have "worker_step sample_ots s6 s7"
    using worker_step.Check [of s6 1 ?p "1 # fromhex tip" True "ToState UpgradedUnverified" "[]" sample_ots]
    by (simp add: s7_def s6_def s5_def)
  with r6 have r7: "sample_reach s7" by (rule worker_reachable.Step)
  have "worker_step sample_ots s7 s8"
    using worker_step.Check [of s7 2 ?p "2 # fromhex tip" True StillPending "[]" sample_ots]
    by (simp add: s8_def s7_def s6_def)
  with r7 have r8: "sample_reach s8" by (rule worker_reachable.Step)
  have "worker_step sample_ots s8 s9"
    using worker_step.Replace [of s8 1 ?p "1 # fromhex tip" "ToState UpgradedUnverified" "[]" sample_io
        "Inr ()" "published 1 tip (aw_files ?w)" sample_ots]
    by (simp add: s9_def s8_def s7_def w1_def sample_write published_def)
  with r8 have r9: "sample_reach s9" by (rule worker_reachable.Step)
  have "commit_op (end_op (sample_worker 1) ?p (ToState UpgradedUnverified)) w1 = (Inr (), w2)"
    using to_upgraded by (simp add: sample_end commit_op_def w1_def w2_def pending_world_def)
  then have "worker_step sample_ots s9 s10"
    using worker_step.End [of s9 1 ?p "ToState UpgradedUnverified" "[]" "sample_worker 1" "Inr ()"]
    by (simp add: s10_def s9_def)
  with r9 have r10: "sample_reach s10" by (rule worker_reachable.Step)
  have "worker_step sample_ots s10 s11"
    using worker_step.Replace [of s10 2 ?p "2 # fromhex tip" StillPending "[]" sample_io
        "Inr ()" "published 2 tip (aw_files w2)" sample_ots]
    by (simp add: s11_def s10_def s9_def s8_def w3_def sample_write published_def)
  with r10 have r11: "sample_reach s11" by (rule worker_reachable.Step)
  then show thesis
    by (rule that) (simp_all add: s11_def w3_def w2_def sample_published)
qed

section \<open>A run that upgrades\<close>

definition sample_config :: worker_config where
  "sample_config = \<lparr>wc_proof_directory = lit ''/anchors'', wc_resolve = (\<lambda>p. p), wc_interval_minutes = 15,
     wc_confirmation_threshold = 6\<rparr>"

text \<open>The environment of a run fifteen minutes later.\<close>

definition later_worker :: "byte \<Rightarrow> worker_env" where
  "later_worker b = (sample_worker b)\<lparr>we_now := dt_of_micros (dt_micros sample_now + 900000000)\<rparr>"

lemma later_now: "utc_text (we_now (later_worker b)) = sample_next" "we_ots (later_worker b) = sample_ots"
  by (simp_all add: later_worker_def sample_next_def)

definition later_row :: "pystr \<Rightarrow> anchor_row" where
  "later_row tip = (pending_row tip)\<lparr>ar_state := UpgradedUnverified, ar_last_attempt := Some sample_next,
     ar_next_attempt := None\<rparr>"

definition later_world :: "pystr \<Rightarrow> anchor_world" where
  "later_world tip = \<lparr>aw_db = [later_row tip], aw_files = published 1 tip (published 0 tip empty_files)\<rparr>"

lemma pending_row_clear:
  "ar_last_error (pending_row tip) = None" "ar_retry_from (pending_row tip) = None" "ar_failure_class (pending_row tip) = None"
  by (simp_all add: pending_row_def)

lemma sample_process_job:
  assumes "is_hash_text tip"
  shows "process_job (later_worker 1) (pending_row tip) (pending_world tip) = (Inr (), later_world tip)"
proof -
  have plan: "pending_plan (later_worker 1) (pending_row tip) (published 0 tip empty_files) =
      Inr (Some (1 # fromhex tip, True), ToState UpgradedUnverified)"
    using assms by (simp add: later_worker_def sample_worker_def pending_plan_def read_proof_def sample_published
        sample_target sample_inspect length_fromhex is_hash_text_def)
  have op: "end_op (later_worker 1) (pending_row tip) (ToState UpgradedUnverified) =
      Inr (OpTransition (pending_row tip) UpgradedUnverified sample_next None)"
    by (simp add: end_op_def later_now)
  have commit: "run_store_op (OpTransition (pending_row tip) UpgradedUnverified sample_next None) [pending_row tip] =
      (Inr (later_row tip), [later_row tip])"
    by (simp add: transition_def update_one_def update_rows_def get_row_def row_key_def later_row_def pending_row_clear)
  have pub: "publish (later_worker 1) (pending_row tip) (Some (1 # fromhex tip, True)) (published 0 tip empty_files) =
      (Inr (), published 1 tip (published 0 tip empty_files))"
    by (simp add: publish_def later_worker_def sample_worker_def sample_write published_def)
  show ?thesis
    using commit
    by (simp add: process_job_def try_job_def attempt_job_def process_pending_def pending_world_def plan carry_out_def
        pub op commit_op_def later_world_def)
qed

lemma sample_run_once:
  assumes "snapshot_tip True chain = Inr (0, tip)"
  shows "run_once sample_config (later_worker 1) True chain (pending_world tip) = (Inr 1, later_world tip)"
proof -
  have h: "is_hash_text tip" using assms by (rule snapshot_tip_Inr)
  have "track_tip 0 tip (sample_path tip) 15 6 [pending_row tip] = Inr (False, [pending_row tip])"
    by (simp add: track_tip_def bind_int_def row_key_def)
  moreover have "due_jobs sample_next [pending_row tip] = [pending_row tip]" by (simp add: due_jobs_def is_due_def)
  moreover have "lit ''/anchors'' @ 47 # proof_name 0 tip = sample_path tip" by (simp add: sample_path_def)
  ultimately show ?thesis
    using assms sample_process_job [OF h, unfolded pending_world_def]
    by (simp add: pending_world_def run_once_def sample_config_def later_now Let_def)
qed

lemma pending_world_ok: "is_hash_text tip \<Longrightarrow> world_ok strict sample_ots (pending_world tip)"
  using sample_path_name [of tip]
  by (simp add: world_ok_def pending_world_def db_ok_def row_proof_def resumed_state_def sample_inspected row_ok_def)
    (simp add: row_checks_def pending_row_def sample_row_def new_row_def)

section \<open>Runs from an empty table\<close>

lemma sample_path_kept: "snapshot_tip True chain = Inr (0, tip) \<Longrightarrow> proof_path_kept sample_config True chain"
  using sample_path_name [of tip] snapshot_tip_Inr [of True chain 0 tip]
  by (simp add: proof_path_kept_def sample_config_def sample_path_def) blast

lemma sample_process_first:
  assumes "is_hash_text tip"
  shows "process_job (sample_worker 0) (sample_row tip) \<lparr>aw_db = [sample_row tip], aw_files = empty_files\<rparr> =
    (Inr (), pending_world tip)"
proof -
  have pub: "publish (sample_worker 0) (sample_row tip) (Some (0 # fromhex tip, False)) empty_files =
      (Inr (), published 0 tip empty_files)"
    by (simp add: publish_def sample_worker_def sample_write_new published_def empty_files_def)
  show ?thesis
    using to_pending
    by (simp add: process_job_def try_job_def attempt_job_def process_queued_def pending_world_def carry_out_def
        sample_queued_plan [OF assms] pub sample_end commit_op_def)
qed

lemma sample_first_run:
  assumes "snapshot_tip True chain = Inr (0, tip)"
  shows "run_once sample_config (sample_worker 0) True chain \<lparr>aw_db = [], aw_files = empty_files\<rparr> = (Inr 1, pending_world tip)"
proof -
  have h: "is_hash_text tip" using assms by (rule snapshot_tip_Inr)
  have "due_jobs now [sample_row tip] = [sample_row tip]" for now by (simp add: due_jobs_def is_due_def)
  moreover have "lit ''/anchors'' @ 47 # proof_name 0 tip = sample_path tip" by (simp add: sample_path_def)
  ultimately show ?thesis
    using assms sample_track [of tip] sample_process_first [OF h]
    by (simp add: run_once_def sample_config_def Let_def)
qed

lemma sample_worker_world:
  assumes "snapshot_tip True chain = Inr (0, tip)"
  shows "worker_world sample_ots (pending_world tip)" and "worker_world sample_ots (later_world tip)"
proof -
  note kept = sample_path_kept [OF assms]
  show p: "worker_world sample_ots (pending_world tip)"
    using worker_world.Run [OF worker_world.Fresh _ kept, of "sample_worker 0" sample_ots empty_files] sample_first_run [OF assms] by simp
  show "worker_world sample_ots (later_world tip)"
    using worker_world.Run [OF p _ kept, of "later_worker 1"] sample_run_once [OF assms] later_now(2) by simp
qed

end
