(* ===== verification/Anchor_Delay.thy ===== *)
theory Anchor_Delay
  imports Anchor_Worker
begin

text \<open>
  Bounds on the retry delay of \<^verbatim>\<open>src/forensics/anchor_worker.py\<close>: the computed float is at least the capped
  exponential delay and at most 108000 seconds, whatever the rounding, and the timestamp of the next attempt
  lies between the two. The float conversion of the uncapped delay raises from the 1016th attempt on.
\<close>

lemma final_max: "BACKOFF_FINAL_MAX_SECONDS = mk_f64 False (int_mag 108000)"
proof -
  have a: "f64_of_dec False 86400 0 = mk_f64 False (int_mag 86400)"
    using round_units_exact [of 1 "int_mag 86400"] mag_val_int_mag [of 86400]
    by (simp add: f64_of_dec_def dec_mag_def)
  define M :: nat where "M = 1023 * 4503599627370496 + 1125899906842624"
  have v: "mag_val M * 100 = 125 * f64_unit"
    using mag_val_of [of "4503599627370496 + 1125899906842624" 1022] unfolding M_def
    by (simp add: f64_unit_def flip: power_add)
  have "round_units (mag_val M * 100) 100 = M" by (rule round_units_exact) simp
  then have b: "f64_of_dec False 125 2 = mk_f64 False M"
    unfolding f64_of_dec_def dec_mag_def v by (simp add: M_def inf_mag_def)
  have "mag_val (int_mag 86400) * mag_val M = mag_val (int_mag 108000) * f64_unit"
    using v mag_val_int_mag [of 86400] mag_val_int_mag [of 108000] by simp
  then have "round_units (mag_val (int_mag 86400) * mag_val M) f64_unit = int_mag 108000"
    by (simp add: round_units_exact)
  moreover have "M < 9223372036854775808" "int_mag 86400 < 9223372036854775808"
    using mag_val_int_mag(2) [of 86400] by (simp_all add: M_def inf_mag_def)
  ultimately show ?thesis
    using mag_val_int_mag(2) [of 108000] by (simp add: BACKOFF_FINAL_MAX_SECONDS_def a b f64_mul_def)
qed

text \<open>The float of the uncapped delay: exact up to the 1015th attempt, and too large after.\<close>

lemma raw_delay_float:
  shows "k \<le> 1014 \<Longrightarrow> \<exists>x. float_of_int (900 * 2 ^ k) = Inr x"
    and "1015 \<le> k \<Longrightarrow> float_of_int (900 * 2 ^ k) = Inl (py_error ''OverflowError'' ''int too large to convert to float'')"
proof -
  have n: "nat (900 * 2 ^ k) = 900 * 2 ^ k" for k by (simp add: nat_mult_distrib nat_power_eq)
  have dm: "dec_mag (900 * 2 ^ k) 0 = round_units (900 * 2 ^ k * f64_unit) 1" for k by (simp add: dec_mag_def)
  have inf: "mag_val inf_mag = 4503599627370496 * 2 ^ 2046"
    using mag_val_of [of 4503599627370496 2046] by (simp add: inf_mag_def)
  have top: "mag_val (inf_mag - 1) = 9007199254740991 * 2 ^ 2045"
    using mag_val_of [of 9007199254740991 2045] by (simp add: inf_mag_def)
  show "\<exists>x. float_of_int (900 * 2 ^ k) = Inr x" if "k \<le> 1014"
  proof -
    have "900 * 2 ^ k * f64_unit \<le> 900 * 2 ^ 1014 * f64_unit"
      using that by (intro mult_right_mono mult_left_mono power_increasing) simp_all
    also have "\<dots> = 900 * 2 ^ 43 * 2 ^ 2045" by (simp add: f64_unit_def mult.assoc flip: power_add)
    also have "\<dots> \<le> mag_val (inf_mag - 1)" unfolding top by (rule mult_right_mono) simp_all
    finally have "round_units (900 * 2 ^ k * f64_unit) 1 \<le> inf_mag - 1" by (intro round_units_le) simp_all
    moreover have "0 < inf_mag" by (simp add: inf_mag_def)
    ultimately show ?thesis by (simp add: float_of_int_def f64_of_int_def n dm Let_def)
  qed
  show "float_of_int (900 * 2 ^ k) = Inl (py_error ''OverflowError'' ''int too large to convert to float'')"
    if "1015 \<le> k"
  proof -
    have "mag_val inf_mag \<le> 900 * 2 ^ 43 * 2 ^ 2046" unfolding inf by (rule mult_right_mono) simp_all
    also have "\<dots> = 900 * 2 ^ 1015 * f64_unit" by (simp add: f64_unit_def mult.assoc flip: power_add)
    also have "\<dots> \<le> 900 * 2 ^ k * f64_unit"
      using that by (intro mult_right_mono mult_left_mono power_increasing) simp_all
    finally have "inf_mag \<le> round_units (900 * 2 ^ k * f64_unit) 1" by (intro round_units_ge) simp_all
    then show ?thesis by (simp add: float_of_int_def f64_of_int_def n dm Let_def)
  qed
qed

text \<open>The value of a float in units.\<close>

abbreviation f64_units :: "f64 \<Rightarrow> nat" where
  "f64_units x \<equiv> mag_val (f64_mag x)"

lemma add_min_bounds:
  assumes c: "c \<le> 108000"
    and d: "d = f64_min (f64_add (mk_f64 False (int_mag c)) j) BACKOFF_FINAL_MAX_SECONDS"
  shows "c * f64_unit \<le> f64_units d" and "f64_units d \<le> 108000 * f64_unit"
proof -
  have C: "mag_val (int_mag c) = c * f64_unit" "int_mag c < inf_mag" using mag_val_int_mag [of c] c by simp_all
  have F: "mag_val (int_mag 108000) = 108000 * f64_unit" "int_mag 108000 < inf_mag"
    using mag_val_int_mag [of 108000] by simp_all
  have inf: "inf_mag < 9223372036854775808" by (simp add: inf_mag_def)
  define s where "s = min (round_units (mag_val (int_mag c) + f64_units j) 1) inf_mag"
  have "int_mag c \<le> round_units (mag_val (int_mag c) + f64_units j) 1" by (rule round_units_ge) simp_all
  then have s: "int_mag c \<le> s" "s < 9223372036854775808" using C(2) inf by (simp_all add: s_def)
  have "c * f64_unit \<le> 108000 * f64_unit" using c by (rule mult_right_mono) simp
  then have "int_mag c \<le> int_mag 108000" using C(1) F(1) mag_val_le_iff by metis
  moreover have "f64_add (mk_f64 False (int_mag c)) j = mk_f64 False s"
    using C(2) inf by (simp add: f64_add_def s_def)
  then have "f64_mag d = min s (int_mag 108000)"
    using s(2) F(2) inf by (simp add: d f64_min_def final_max f64_key_def min_def)
  ultimately have m: "int_mag c \<le> f64_mag d" "f64_mag d \<le> int_mag 108000" using s(1) by simp_all
  show "c * f64_unit \<le> f64_units d" using m(1) C(1) mag_val_le_iff by metis
  show "f64_units d \<le> 108000 * f64_unit" using m(2) F(1) mag_val_le_iff by metis
qed

definition capped_delay :: "nat \<Rightarrow> nat" where
  "capped_delay n = min (900 * 2 ^ (n - 1)) 86400"

lemma retry_delay_returns:
  assumes "1 \<le> n" and "n \<le> 1015" and "f64_le f64_zero j" and "f64_le j f64_one"
  obtains d where "retry_delay_seconds (int n) j = Inr d"
    "capped_delay n * f64_unit \<le> f64_units d" "f64_units d \<le> 108000 * f64_unit"
proof -
  have k: "n - 1 \<le> 1014" "nat (int n - 1) = n - 1" using assms by simp_all
  obtain x where x: "float_of_int (900 * 2 ^ (n - 1)) = Inr x" using raw_delay_float(1) [OF k(1)] by blast
  have cap: "min (900 * 2 ^ (n - Suc 0)) (86400 :: int) = int (capped_delay n)"
    by (simp add: capped_delay_def of_nat_min)
  have "float_of_int (int (capped_delay n)) = Inr (mk_f64 False (int_mag (capped_delay n)))"
    using f64_of_int_exact [of "int (capped_delay n)"] by (simp add: float_of_int_def capped_delay_def)
  then have "\<exists>j'. retry_delay_seconds (int n) j =
      Inr (f64_min (f64_add (mk_f64 False (int_mag (capped_delay n))) j') BACKOFF_FINAL_MAX_SECONDS)"
    using assms x k(2)
    by (simp add: retry_delay_seconds_def BACKOFF_BASE_SECONDS_def BACKOFF_MAX_SECONDS_def Let_def cap) blast
  then obtain d j' where d: "retry_delay_seconds (int n) j = Inr d"
    "d = f64_min (f64_add (mk_f64 False (int_mag (capped_delay n))) j') BACKOFF_FINAL_MAX_SECONDS" by blast
  have "capped_delay n \<le> 108000" by (simp add: capped_delay_def)
  from that [OF d(1) add_min_bounds [OF this d(2)]] show thesis .
qed

lemma retry_delay_overflow:
  assumes "1016 \<le> n" and "f64_le f64_zero j" and "f64_le j f64_one"
  shows "retry_delay_seconds (int n) j = Inl (py_error ''OverflowError'' ''int too large to convert to float'')"
proof -
  have "nat (int n - 1) = n - 1" using assms(1) by simp
  moreover have "float_of_int (900 * 2 ^ (n - 1)) = Inl (py_error ''OverflowError'' ''int too large to convert to float'')"
    using assms(1) by (intro raw_delay_float(2)) simp
  ultimately show ?thesis using assms
    by (simp add: retry_delay_seconds_def BACKOFF_BASE_SECONDS_def Let_def)
qed

lemma timedelta_seconds_bounds:
  assumes "c * f64_unit \<le> f64_units d" and "f64_units d \<le> C * f64_unit"
  shows "int c * 1000000 \<le> timedelta_seconds d" and "timedelta_seconds d \<le> int C * 1000000"
proof -
  define v where "v = f64_units d"
  define f where "f = round_half_even (mag_val (round_units (v mod f64_unit * 1000000) 1)) f64_unit"
  have td: "timedelta_seconds d = int (v div f64_unit * 1000000 + f)"
    by (simp add: timedelta_seconds_def Let_def v_def f_def)
  have "c \<le> v div f64_unit" using assms(1) by (simp add: v_def less_eq_div_iff_mult_less_eq)
  then have "c * 1000000 \<le> v div f64_unit * 1000000 + f" by simp
  then show "int c * 1000000 \<le> timedelta_seconds d" unfolding td by linarith
  have "v mod f64_unit * 1000000 \<le> mag_val (int_mag 1000000) * 1"
    using mag_val_int_mag(1) [of 1000000] mod_less_divisor [of f64_unit v] by (simp add: mult.commute less_imp_le)
  then have "round_units (v mod f64_unit * 1000000) 1 \<le> int_mag 1000000" by (rule round_units_le [rotated]) simp
  then have "mag_val (round_units (v mod f64_unit * 1000000) 1) \<le> mag_val (int_mag 1000000)"
    by (simp only: mag_val_le_iff)
  also have "\<dots> = 1000000 * f64_unit" by (rule mag_val_int_mag(1)) simp
  finally have "mag_val (round_units (v mod f64_unit * 1000000) 1) \<le> 1000000 * f64_unit" .
  then have f: "f \<le> 1000000" unfolding f_def by (rule round_half_even_le [rotated]) simp
  have "v div f64_unit * 1000000 + f \<le> C * 1000000"
  proof (cases "v div f64_unit < C")
    case True
    then have "(v div f64_unit + 1) * 1000000 \<le> C * 1000000" by (intro mult_right_mono) simp_all
    with f show ?thesis by simp
  next
    case False
    then have "C \<le> v div f64_unit" by simp
    then have "C * f64_unit \<le> v" by (simp add: less_eq_div_iff_mult_less_eq)
    with assms(2) have v: "v = C * f64_unit" by (simp add: v_def)
    have "f = 0" unfolding f_def v by (simp add: round_units_def round_half_even_def floorlog_def mag_val_def mag_mant_def)
    with v show ?thesis by simp
  qed
  then show "timedelta_seconds d \<le> int C * 1000000" unfolding td by linarith
qed

end
