(* ===== verification/Anchor_Properties.thy ===== *)
theory Anchor_Properties
  imports Anchor_Samples Anchor_Delay
begin

text \<open>
  The properties of the OpenTimestamps adapter and worker: what the database promises about the proof files,
  under one and under several workers, what a run does to each row, when a failed job is due again, and what
  a crash leaves behind. Each property has a witness at a concrete input.
\<close>

section \<open>Proof files\<close>

text \<open>
  C2. Whatever several workers do on one database and proof directory, in any interleaving and with any
  backend, failure or crash, a row that is pending or upgraded has a file at its proof path that validates
  against the row's tip hash. The proof file of a tracked tip is not a symbolic link, so its path keeps its name.
\<close>

theorem proofs_always_validate:
  assumes "worker_reachable L fs s" and "r \<in> set (aw_db (sy_world s))"
    and "ar_state r = SubmittedPending \<or> ar_state r = UpgradedUnverified"
  shows "\<exists>proof i. aw_files (sy_world s) (ar_proof_path r) = Some proof \<and>
    inspect_proof L proof (fromhex (ar_tip_hash r)) = Inr i"
proof -
  have "row_proof False L (aw_files (sy_world s)) r"
    using worker_reachable_inv [OF assms(1)] assms(2) by (auto simp: anchor_inv_def world_ok_def)
  then have "inspected L (aw_files (sy_world s)) r \<noteq> None"
    using assms(3) by (auto simp: row_proof_def resumed_state_def)
  then show ?thesis by (auto simp: inspected_def inspect_file_def split: option.splits sum.splits)
qed

theorem proofs_always_validate_witness:
  "\<exists>(s::anchor_sys) r. r \<in> set (aw_db (sy_world s)) \<and> ar_state r = SubmittedPending \<and>
    (\<exists>proof i. aw_files (sy_world s) (ar_proof_path r) = Some proof \<and>
      inspect_proof sample_ots proof (fromhex (ar_tip_hash r)) = Inr i)"
proof -
  obtain chain tip where "snapshot_tip True chain = Inr (0, tip)" by (rule sample_snapshot)
  then obtain s where s: "sample_reach s" "sy_world s = pending_world tip" by (rule make_pending)
  have r: "pending_row tip \<in> set (aw_db (sy_world s))" using s(2) by (simp add: pending_world_def)
  have "\<exists>proof i. aw_files (sy_world s) (ar_proof_path (pending_row tip)) = Some proof \<and>
      inspect_proof sample_ots proof (fromhex (ar_tip_hash (pending_row tip))) = Inr i"
    by (rule proofs_always_validate [OF s(1) r]) simp
  with r show ?thesis by (intro exI [of _ s] exI [of _ "pending_row tip"]) simp
qed

text \<open>
  C10. One worker at a time keeps the attestations: from an empty table, after any number of runs, with any configurations,
  backends, clocks, write errors and chain files and whichever exceptions end them, the file of an upgraded row holds a proof for the
  row's tip hash with a Bitcoin attestation. The proof file of a tip a run reads is not a symbolic link.
\<close>

theorem run_keeps_attestations:
  assumes "worker_world L w" and "r \<in> set (aw_db w)" and "ar_state r = UpgradedUnverified"
  shows "\<exists>proof i. aw_files w (ar_proof_path r) = Some proof \<and>
    inspect_proof L proof (fromhex (ar_tip_hash r)) = Inr i \<and> pi_bitcoin i"
  using strict_proof [OF worker_world_ok [OF assms(1)] assms(2)] assms(3) by auto

theorem run_keeps_attestations_witness:
  "\<exists>chain tip. run_once sample_config (sample_worker 0) True chain \<lparr>aw_db = [], aw_files = empty_files\<rparr> = (Inr 1, pending_world tip) \<and>
    run_once sample_config (later_worker 1) True chain (pending_world tip) = (Inr 1, later_world tip) \<and>
    (\<exists>proof i. aw_files (later_world tip) (ar_proof_path (later_row tip)) = Some proof \<and>
      inspect_proof sample_ots proof (fromhex (ar_tip_hash (later_row tip))) = Inr i \<and> pi_bitcoin i)"
proof -
  obtain chain tip where tip: "snapshot_tip True chain = Inr (0, tip)" by (rule sample_snapshot)
  have r: "later_row tip \<in> set (aw_db (later_world tip))" "ar_state (later_row tip) = UpgradedUnverified"
    by (simp_all add: later_world_def later_row_def)
  from run_keeps_attestations [OF sample_worker_world(2) [OF tip] r] sample_first_run [OF tip] sample_run_once [OF tip]
  show ?thesis by blast
qed

text \<open>
  C11. Two workers can lose an attestation. There is a run in which a row is upgraded, its file holds a
  proof without a Bitcoin attestation, and no worker will ever look at the row again.
\<close>

theorem concurrent_workers_lose_attestation:
  "\<exists>s r proof i. worker_reachable sample_ots empty_files s \<and> r \<in> set (aw_db (sy_world s)) \<and>
    ar_state r = UpgradedUnverified \<and> aw_files (sy_world s) (ar_proof_path r) = Some proof \<and>
    inspect_proof sample_ots proof (fromhex (ar_tip_hash r)) = Inr i \<and> \<not> pi_bitcoin i \<and> (\<forall>now. \<not> is_due now r)"
proof -
  obtain chain tip where tip: "snapshot_tip True chain = Inr (0, tip)" "is_hash_text tip" by (rule sample_snapshot)
  obtain s where s: "worker_reachable sample_ots empty_files s" "aw_db (sy_world s) = [upgraded_row tip]"
    "aw_files (sy_world s) (sample_path tip) = Some (2 # fromhex tip)"
    using lose_attestation [OF tip(1)] by blast
  have "inspect_proof sample_ots (2 # fromhex tip) (fromhex tip) = Inr \<lparr>pi_digest = fromhex tip, pi_bitcoin = False\<rparr>"
    using tip(2) by (simp add: sample_inspect length_fromhex is_hash_text_def)
  with s show ?thesis
    by (intro exI [of _ s] exI [of _ "upgraded_row tip"] exI [of _ "2 # fromhex tip"]
        exI [of _ "\<lparr>pi_digest = fromhex tip, pi_bitcoin = False\<rparr>"] conjI) (simp_all add: is_due_def)
qed

section \<open>Rows\<close>

lemma commit_state:
  assumes "db_ok (aw_db w)" and "w' = snd (commit_op p w)" and "state_of_id (aw_db w) i = Some a"
  shows "\<exists>b. state_of_id (aw_db w') i = Some b \<and> (b = a \<or> b \<in> set (ALLOWED_TRANSITIONS a))"
proof (cases "w' = w")
  case False
  then obtain q db' where q: "apply_store_op q (aw_db w) = Some db'" "w' = w\<lparr>aw_db := db'\<rparr>"
    using assms(2) by (auto simp: commit_op_snd split: sum.splits option.splits)
  have e: "op_enabled q" "state_of_id (aw_db w) (ar_id (op_job q)) = Some (op_expects q)"
    using anchors.apply_iff [OF assms(1)] q(1) by blast+
  from anchors.apply_state [OF assms(1) q(1)] anchors.enabled_allowed [OF e(1)] e(2) q(2) assms(3)
  show ?thesis by (auto simp: allowed_step_def)
qed (use assms(3) in simp)

lemma worker_step_commit:
  assumes "worker_step L s s'"
  shows "aw_db (sy_world s') = aw_db (sy_world s) \<or>
    (\<exists>p w'. w' = snd (commit_op p (sy_world s)) \<and> aw_db (sy_world s') = aw_db w') \<or>
    (\<exists>row. aw_db (sy_world s') = aw_db (sy_world s) @ [row])"
  using assms
proof cases
  case (Track i lock chain sequence tip_hash path interval threshold fresh db')
  show ?thesis using track_tip_cases [OF Track(5)] Track(1) by auto
next
  case (Resume i job jobs res db')
  have "sy_world s' = snd (commit_op (Inr (OpResume job)) (sy_world s))"
    using resume_commit [OF Resume(4) refl] Resume(1) by simp
  then show ?thesis by blast
next
  case (End i job action jobs env res w')
  have "sy_world s' = snd (commit_op (end_op env job action) (sy_world s))" using End(1,3) by simp
  then show ?thesis by blast
next
  case (Fail i job e jobs env res w')
  have "sy_world s' = snd (commit_op (failure_op env job e) (sy_world s))" using Fail(1,3) by simp
  then show ?thesis by blast
qed simp_all

text \<open>
  C7. Every step of every worker moves each row along \<open>ALLOWED_TRANSITIONS\<close> or leaves its state, and no row
  disappears.
\<close>

theorem states_follow_transitions:
  assumes "worker_reachable L fs s" and "worker_step L s s'" and "state_of_id (aw_db (sy_world s)) i = Some a"
  shows "\<exists>b. state_of_id (aw_db (sy_world s')) i = Some b \<and> (b = a \<or> b \<in> set (ALLOWED_TRANSITIONS a))"
proof -
  have db: "db_ok (aw_db (sy_world s))"
    using worker_reachable_inv [OF assms(1)] by (simp add: anchor_inv_def world_ok_def)
  show ?thesis
    using worker_step_commit [OF assms(2)]
  proof (elim disjE exE conjE)
    fix p w'
    assume "w' = snd (commit_op p (sy_world s))" "aw_db (sy_world s') = aw_db w'"
    with commit_state [OF db _ assms(3)] show ?thesis by simp
  next
    fix row
    assume "aw_db (sy_world s') = aw_db (sy_world s) @ [row]"
    with assms(3) show ?thesis by (simp add: state_of_id_def map_add_Some_iff)
  qed (use assms(3) in simp)
qed

theorem states_follow_transitions_witness:
  "\<exists>s. sample_reach s \<and> (\<exists>b. state_of_id (aw_db (sy_world s)) 1 = Some b \<and>
    (b = SubmittedPending \<or> b \<in> set (ALLOWED_TRANSITIONS SubmittedPending)))"
proof -
  obtain chain tip where "snapshot_tip True chain = Inr (0, tip)" by (rule sample_snapshot)
  then obtain s where s: "sample_reach s" "sy_world s = pending_world tip" by (rule make_pending)
  have d: "worker_step sample_ots s (go 1 WIdle (sy_world s) s)" by (rule worker_step.Die)
  have "state_of_id (aw_db (sy_world s)) 1 = Some SubmittedPending"
    using s(2) by (simp add: state_of_id_def pending_world_def)
  from states_follow_transitions [OF s(1) d this] worker_reachable.Step [OF s(1) d] show ?thesis by blast
qed

text \<open>
  At every moment the database has at most one row for a tip, and after tracking it exactly one, inserted
  when there was none.
\<close>

theorem one_row_per_tip:
  assumes "worker_reachable L fs s"
    and "track_tip sequence tip path interval threshold (aw_db (sy_world s)) = Inr (fresh, db')"
  shows "count_rows sequence tip (aw_db (sy_world s)) = (if fresh then 0 else 1) \<and>
    count_rows sequence tip db' = 1"
proof -
  have "distinct (map row_key (aw_db (sy_world s)))"
    using worker_reachable_inv [OF assms(1)] by (simp add: anchor_inv_def world_ok_def db_ok_def)
  note one = filter_one_iff [OF this, of "(sequence, tip)" "\<lambda>_. True", simplified]
  show ?thesis
    using track_tip_cases [OF assms(2)] one
    by (auto simp: count_rows_def filter_empty_conv row_key_def new_row_def)
qed

theorem one_row_per_tip_witness:
  "\<exists>db' tip. track_tip 0 tip [] 15 6 [] = Inr (True, db') \<and> count_rows 0 tip db' = 1"
proof -
  let ?s = "init_sys empty_files"
  have t: "track_tip 0 [] [] 15 6 (aw_db (sy_world ?s)) = Inr (True, [new_row 1 0 [] [] 15 6])"
    by (simp add: init_sys_def track_tip_def bind_int_def next_id_def)
  from one_row_per_tip [OF worker_reachable.Start t] t show ?thesis by (auto simp: init_sys_def)
qed

lemma allowed_not_same: "s \<in> set (ALLOWED_TRANSITIONS t) \<Longrightarrow> s \<noteq> t"
  by (cases t) (auto simp: RETRY_SOURCES_def)

text \<open>
  Of two workers that read a row in the same state, only one can move it: once the transition of the one is
  committed, the transition of the other raises and changes nothing.
\<close>

theorem transition_is_exclusive:
  assumes "db_ok db" and "transition job state1 now1 next1 db = (Inr row, db1)"
  shows "\<exists>e. transition job state2 now2 next2 db1 = (Inl e, db1)"
proof -
  let ?p = "OpTransition job state1 now1 next1" and ?q = "OpTransition job state2 now2 next2"
  have "run_store_op ?p db = (Inr row, db1)" using assms(2) by simp
  then have a: "apply_store_op ?p db = Some db1" by (rule run_store_op_row(1))
  have "state1 \<in> set (ALLOWED_TRANSITIONS (ar_state job))"
    using anchors.apply_iff [OF assms(1), of ?p] a by auto
  then have "op_expects ?q \<noteq> op_gives ?p" using allowed_not_same by force
  then have "apply_store_op ?q db1 = None" using anchors.exclusive [OF assms(1) a, of ?q] by simp
  then show ?thesis using store_op_apply [of ?q db1] by auto
qed

theorem transition_is_exclusive_witness:
  "\<exists>db1 e. transition (sample_row []) SubmittedPending [] None [sample_row []] = (Inr (db1 ! 0), db1) \<and>
    transition (sample_row []) UpgradedUnverified [] None db1 = (Inl e, db1)"
proof -
  have "transition (sample_row []) SubmittedPending [] None [sample_row []] =
      (Inr ((sample_row [])\<lparr>ar_state := SubmittedPending, ar_last_attempt := Some []\<rparr>),
       [(sample_row [])\<lparr>ar_state := SubmittedPending, ar_last_attempt := Some []\<rparr>])"
    by (simp add: transition_def update_one_def update_rows_def get_row_def row_key_def sample_row_def new_row_def)
  moreover from transition_is_exclusive [OF _ this] obtain e where
    "transition (sample_row []) UpgradedUnverified [] None
      [(sample_row [])\<lparr>ar_state := SubmittedPending, ar_last_attempt := Some []\<rparr>] =
      (Inl e, [(sample_row [])\<lparr>ar_state := SubmittedPending, ar_last_attempt := Some []\<rparr>])"
    by (force simp: db_ok_def)
  ultimately show ?thesis by (intro exI [of _ "[_]"]) auto
qed

section \<open>Runs\<close>

lemma run_once_jobs:
  assumes w: "world_ok True L w" and env: "we_ots env = L" and res: "proof_path_kept c lock chain"
    and run: "run_once c env lock chain w = (out, w')"
  obtains "w' = w" "\<forall>n. out \<noteq> Inr n"
  | db' jobs pr where "set (aw_db w) \<subseteq> set db'" "world_ok True L (w\<lparr>aw_db := db'\<rparr>)"
    "jobs = due_jobs (utc_text (we_now env)) db'" "process_jobs env jobs (w\<lparr>aw_db := db'\<rparr>) = (pr, w')"
    "\<And>n. out = Inr n \<Longrightarrow> pr = Inr ()"
proof (cases "snapshot_tip lock chain")
  case (Inl e)
  with run that(1) show thesis by (auto simp: run_once_def)
next
  case (Inr st)
  obtain sequence tip where st: "st = (sequence, tip)" by (cases st)
  define path where "path = wc_resolve c (wc_proof_directory c @ [47] @ proof_name sequence tip)"
  show thesis
  proof (cases "track_tip (int sequence) tip path (wc_interval_minutes c) (wc_confirmation_threshold c) (aw_db w)")
    case (Inl e)
    with run Inr st that(1) show thesis by (auto simp: run_once_def path_def)
  next
    case tr: (Inr x)
    then obtain fresh db' where x: "track_tip (int sequence) tip path (wc_interval_minutes c)
        (wc_confirmation_threshold c) (aw_db w) = Inr (fresh, db')" by (cases x) auto
    note r = run_once_parts [OF Inr [unfolded st] res x path_def w]
    obtain pr w2 where pj: "process_jobs env (due_jobs (utc_text (we_now env)) db') (w\<lparr>aw_db := db'\<rparr>) = (pr, w2)"
      by fastforce
    have "set (aw_db w) \<subseteq> set db'" using track_tip_cases [OF x] by auto
    moreover have "w' = w2" and "\<And>n. out = Inr n \<Longrightarrow> pr = Inr ()"
      using r(2) pj run by (auto simp: Let_def split: sum.splits)
    ultimately show thesis using that(2) [OF _ r(1) refl] pj by blast
  qed
qed

text \<open>
  A run changes no row that is not due; rows that are upgraded or independently verified and rows of an
  integrity failure are never due, so nothing is retried that must not be.
\<close>

theorem settled_rows_stay:
  assumes "world_ok True L w" and "we_ots env = L" and "proof_path_kept c lock chain"
    and "r \<in> set (aw_db w)"
    and "ar_state r = UpgradedUnverified \<or> ar_state r = IndependentlyVerified \<or>
      (ar_state r = RetryFailed \<and> ar_failure_class r = Some IntegrityFailure) \<or>
      \<not> is_due (utc_text (we_now env)) r"
  shows "r \<in> set (aw_db (snd (run_once c env lock chain w)))"
proof -
  obtain out w' where run: "run_once c env lock chain w = (out, w')" by fastforce
  have nd: "\<not> is_due (utc_text (we_now env)) r" using assms(5) by (auto simp: is_due_def)
  show ?thesis
    using run_once_jobs [OF assms(1-3) run]
  proof cases
    case 1
    then show ?thesis using run assms(4) by simp
  next
    case (2 db' jobs pr)
    have db: "db_ok db'" using 2(2) by (simp add: world_ok_def)
    have "ar_id r \<notin> ar_id ` set jobs"
      using row_id_unique [OF db] 2(1,3) assms(4) nd by (auto simp: due_jobs_set subset_iff)
    moreover have "set jobs \<subseteq> set db'" using 2(3) by (auto simp: due_jobs_set)
    ultimately show ?thesis
      using process_jobs_ok(3) [OF 2(2) _ _ assms(2) 2(4), of r] due_jobs_distinct [OF db] 2(1,3) assms(4) run by auto
  qed
qed

theorem settled_rows_stay_witness:
  "\<exists>chain tip. later_row tip \<in> set (aw_db (snd (run_once sample_config (sample_worker 1) True chain
    \<lparr>aw_db = [later_row tip], aw_files = published 1 tip empty_files\<rparr>)))"
proof -
  obtain chain tip where tip: "snapshot_tip True chain = Inr (0, tip)" "is_hash_text tip" by (rule sample_snapshot)
  let ?w = "\<lparr>aw_db = [later_row tip], aw_files = published 1 tip empty_files\<rparr>"
  have "row_ok (later_row tip)"
    using tip(2) sample_path_name [OF tip(2)]
    by (simp add: row_ok_def row_checks_def later_row_def pending_row_def sample_row_def new_row_def)
  moreover have "inspected sample_ots (published 1 tip empty_files) (later_row tip) = Some \<lparr>pi_digest = fromhex tip, pi_bitcoin = True\<rparr>"
    using sample_inspected [OF tip(2), of "later_row tip" 1] by (simp add: later_row_def)
  ultimately have w: "world_ok True sample_ots ?w"
    by (simp add: world_ok_def db_ok_def row_proof_def resumed_state_def)
  have res: "proof_path_kept sample_config True chain" using tip(1) by (rule sample_path_kept)
  have "later_row tip \<in> set (aw_db (snd (run_once sample_config (sample_worker 1) True chain ?w)))"
    by (rule settled_rows_stay [OF w _ res]) (simp_all add: later_row_def)
  then show ?thesis by blast
qed

text \<open>When a run returns, no row is left queued: every queued row was submitted or its failure recorded.\<close>

theorem run_leaves_none_queued:
  assumes "world_ok True L w" and "we_ots env = L" and "proof_path_kept c lock chain"
    and "run_once c env lock chain w = (Inr n, w')" and "r \<in> set (aw_db w')"
  shows "ar_state r \<noteq> Queued"
  using run_once_jobs [OF assms(1-4)]
proof cases
  case (2 db' jobs pr)
  have db: "db_ok db'" using 2(2) by (simp add: world_ok_def)
  have j: "set jobs \<subseteq> set (aw_db (w\<lparr>aw_db := db'\<rparr>))" "distinct (map ar_id jobs)"
    using 2(3) due_jobs_distinct [OF db] by (auto simp: due_jobs_set)
  note p = process_jobs_ok [OF 2(2) j assms(2) 2(4)]
  have db2: "db_ok (aw_db w')" using p(1) by (simp add: world_ok_def)
  have "ar_id r \<in> set (map ar_id (aw_db w'))" using assms(5) by simp
  then obtain q where q: "q \<in> set db'" "ar_id q = ar_id r" using p(2) by auto
  show ?thesis
  proof (cases "q \<in> set jobs")
    case True
    then obtain b where "state_of_id (aw_db w') (ar_id q) = Some b" "b \<noteq> Queued" using p(4) 2(5) by blast
    with current_state [OF db2 assms(5)] q(2) show ?thesis by simp
  next
    case False
    then have nd: "\<not> is_due (utc_text (we_now env)) q" using q(1) 2(3) by (simp add: due_jobs_set)
    have "ar_id q \<notin> ar_id ` set jobs" using row_id_unique [OF db q(1)] False j(1) by auto
    then have "q \<in> set (aw_db w')" using p(3) [of q] q(1) by simp
    then have "q = r" using row_id_unique [OF db2 _ assms(5)] q(2) by blast
    with nd show ?thesis by (auto simp: is_due_def)
  qed
qed simp

theorem run_leaves_none_queued_witness:
  "\<exists>chain tip. run_once sample_config (later_worker 1) True chain (pending_world tip) = (Inr 1, later_world tip) \<and>
    ar_state (later_row tip) \<noteq> Queued"
proof -
  obtain chain tip where tip: "snapshot_tip True chain = Inr (0, tip)" "is_hash_text tip" by (rule sample_snapshot)
  have res: "proof_path_kept sample_config True chain" using tip(1) by (rule sample_path_kept)
  have "later_row tip \<in> set (aw_db (later_world tip))" by (simp add: later_world_def)
  from run_leaves_none_queued [OF pending_world_ok [OF tip(2)] later_now(2) res sample_run_once [OF tip(1)] this]
  show ?thesis using sample_run_once [OF tip(1)] by blast
qed

section \<open>Retries\<close>

text \<open>
  C16. For each of the first 1015 attempts and every jitter sample from 0 to 1 the delay is a float of at least
  the capped exponential delay and at most 108000 seconds, in spite of the rounding of the products and the sum.
\<close>

theorem retry_delay_bounds:
  assumes "1 \<le> n" and "n \<le> 1015" and "f64_le f64_zero j" and "f64_le j f64_one"
  shows "\<exists>d. retry_delay_seconds (int n) j = Inr d \<and>
    min (900 * 2 ^ (n - 1)) 86400 * f64_unit \<le> mag_val (f64_mag d) \<and> mag_val (f64_mag d) \<le> 108000 * f64_unit"
  using retry_delay_returns [OF assms] by (metis capped_delay_def)

lemma zero_sample: "f64_le f64_zero f64_zero" "f64_le f64_zero f64_one"
  by (simp_all add: f64_le_def f64_isnan_def f64_key_def f64_zero_def f64_one_def inf_mag_def)

theorem retry_delay_bounds_witness:
  "\<exists>d. retry_delay_seconds 3 f64_zero = Inr d \<and> 3600 * f64_unit \<le> mag_val (f64_mag d)"
  using retry_delay_bounds [of 3 f64_zero] zero_sample by auto

text \<open>
  From the 1016th attempt on the delay raises \<^verbatim>\<open>OverflowError\<close>, inside the handler of the failure, so that the
  failure of the job leaves the worker instead of being recorded.
\<close>

theorem many_failures_escape:
  assumes "1016 \<le> n" and "ar_attempt_count job = int n - 1" and "f64_le f64_zero (we_jitter env job)"
    and "f64_le (we_jitter env job) f64_one" and "cls \<noteq> AnchorIntegrityError" and "cls \<noteq> AnchorConfigurationError"
  shows "failure_op env job (PyExn cls msg) = Inl (py_error ''OverflowError'' ''int too large to convert to float'')"
proof -
  have "ar_attempt_count job + 1 = int n" using assms(2) by simp
  then show ?thesis
    using retry_delay_overflow [OF assms(1,3,4)] assms(5,6)
    by (cases cls) (simp_all add: failure_op_def Let_def)
qed

theorem many_failures_escape_witness:
  "failure_op (sample_worker 0) ((sample_row [])\<lparr>ar_attempt_count := 1015\<rparr>) (PyExn AnchorTransientError []) =
    Inl (py_error ''OverflowError'' ''int too large to convert to float'')"
  by (rule many_failures_escape [of 1016]) (simp_all add: sample_worker_def zero_sample)

text \<open>
  A job whose attempt fails with anything but an integrity or configuration error is due again in a window:
  never before the capped delay has passed, and always once 108000 seconds have.
\<close>

theorem failed_job_due_window:
  assumes "valid_dt (we_now env)" and "cls \<noteq> AnchorIntegrityError" and "cls \<noteq> AnchorConfigurationError"
    and "ar_attempt_count job = int n - 1" and "1 \<le> n" and "n \<le> 1015"
    and "f64_le f64_zero (we_jitter env job)" and "f64_le (we_jitter env job) f64_one"
    and "dt_micros (we_now env) + 108000 * 1000000 < max_micros" and "valid_dt t"
  shows "\<exists>p. failure_op env job (PyExn cls msg) = Inr p \<and>
    (dt_micros t < dt_micros (we_now env) + min (900 * 2 ^ (n - 1)) 86400 * 1000000 \<longrightarrow>
      \<not> is_due (utc_text t) (op_change p job)) \<and>
    (dt_micros (we_now env) + 108000 * 1000000 \<le> dt_micros t \<longrightarrow> is_due (utc_text t) (op_change p job))"
proof -
  obtain d where d: "retry_delay_seconds (int n) (we_jitter env job) = Inr d"
    "capped_delay n * f64_unit \<le> f64_units d" "f64_units d \<le> 108000 * f64_unit"
    using retry_delay_returns [OF assms(5-8)] .
  define m where "m = timedelta_seconds d"
  have m: "int (capped_delay n) * 1000000 \<le> m" "m \<le> 108000 * 1000000"
    using timedelta_seconds_bounds [OF d(2,3)] by (simp_all add: m_def)
  define u where "u = dt_micros (we_now env) + nat m"
  have mn: "0 \<le> m" using m(1) by linarith
  have u: "u < max_micros" "int (dt_micros (we_now env)) + m = int u" using mn m(2) assms(9) by (simp_all add: u_def)
  have "add_micros (we_now env) m = Inr (dt_of_micros u)" using u by (simp add: add_micros_def)
  moreover have "ar_attempt_count job + 1 = int n" using assms(4) by simp
  ultimately have f: "failure_op env job (PyExn cls msg) =
      Inr (OpFailure job TransientFailure msg (utc_text (we_now env)) (Some (utc_text (dt_of_micros u))))"
    using assms(2,3) d(1) by (cases cls) (simp_all add: failure_op_def Let_def m_def)
  have "text_le (utc_text (dt_of_micros u)) (utc_text t) \<longleftrightarrow> u \<le> dt_micros t"
    using text_le_iso_utc [OF dt_of_micros(1) [OF u(1)] assms(10)] dt_of_micros(2) [OF u(1)] by (simp add: utc_text_def)
  moreover have "dt_micros (we_now env) + capped_delay n * 1000000 \<le> u" "u \<le> dt_micros (we_now env) + 108000 * 1000000"
    using m mn by (simp_all add: u_def nat_le_iff le_nat_iff)
  ultimately show ?thesis
    unfolding f
    by (intro exI [of _ "OpFailure job TransientFailure msg (utc_text (we_now env)) (Some (utc_text (dt_of_micros u)))"])
      (auto simp: is_due_def capped_delay_def)
qed

theorem failed_job_due_window_witness:
  "\<exists>p. failure_op (sample_worker 0) (sample_row []) (PyExn AnchorTransientError []) = Inr p \<and>
    \<not> is_due (utc_text sample_now) (op_change p (sample_row []))"
proof -
  have b: "dt_micros sample_now + 108000 * 1000000 < max_micros"
    by (simp add: sample_now_def dt_micros_def ymd2ord_def days_before_year_def days_before_month_def
        seconds_of_day_def max_micros_def)
  have c: "ar_attempt_count (sample_row []) = 0" by (simp add: sample_row_def new_row_def)
  show ?thesis
    using failed_job_due_window [of "sample_worker 0" AnchorTransientError "sample_row []" 1 sample_now "[]"]
      sample_now_valid b c zero_sample by (auto simp: sample_worker_def)
qed

section \<open>Crashes\<close>

text \<open>After a queued job has published, its file holds the proof that gives the row its next state.\<close>

lemma queued_published:
  assumes "queued_plan env job fs = Inr (wr, action)" and "publish env job wr fs = (Inr (), fs')"
  obtains pf st where "fs' (ar_proof_path job) = Some pf"
    and "target_state (we_ots env) pf (fromhex (ar_tip_hash job)) = Inr st" and "action = ToState st"
proof (cases "fs (ar_proof_path job)")
  case None
  then obtain pfb st where n: "wr = Some (pfb, False)" "action = ToState st"
    "target_state (we_ots env) pfb (fromhex (ar_tip_hash job)) = Inr st"
    using assms(1) by (auto simp: queued_plan_def Let_def res_simps)
  have "fs' (ar_proof_path job) = Some pfb"
    using assms(2) n(1) write_result(1) [OF _ refl] by (simp add: publish_def)
  with n that show thesis by blast
next
  case (Some pf)
  then obtain st where n: "wr = None" "action = ToState st"
    "target_state (we_ots env) pf (fromhex (ar_tip_hash job)) = Inr st"
    using assms(1) by (auto simp: queued_plan_def Let_def res_simps read_proof_def split: option.splits)
  have "fs' (ar_proof_path job) = Some pf" using assms(2) n(1) Some by (simp add: publish_def)
  with n that show thesis by blast
qed

text \<open>An operation that does not insert never changes the keys of the rows.\<close>

lemma same_job_row:
  assumes "db_ok db" and "run_store_op (OpTransition job s1 n1 x1) db = (Inr row, db1)"
    and "apply_store_op (OpTransition job s2 n2 x2) db = Some db2"
  shows "\<exists>row2. run_store_op (OpTransition job s2 n2 x2) db = (Inr row2, db2)"
proof -
  note run = assms(2)
  have row: "row \<in> set db1" "row_key row = row_key job" using run_store_op_row(2,3) [OF run] by simp_all
  have same: "map row_key db2 = map row_key db1"
    using run_store_op_row(1) [OF run] assms(1,3) by (auto simp: apply_store_op_Some db_ok_def)
  have "row_key row \<in> set (map row_key db1)" using row(1) by simp
  then have "row_key job \<in> set (map row_key db2)" using row(2) same by (simp del: set_map)
  then obtain row2 where "get_row (ar_sequence job) (ar_tip_hash job) db2 = Inr row2"
    by (cases "filter (\<lambda>r. row_key r = row_key job) db2") (auto simp: get_row_def row_key_def filter_empty_conv)
  then show ?thesis using store_op_apply [of "OpTransition job s2 n2 x2" db] assms(3) by auto
qed

text \<open>
  C15. A worker that dies after publishing the proof of a queued job and before recording it loses nothing: the
  next worker reads the published proof instead of asking the backend, and gives the row the state it would
  have had.
\<close>

theorem restart_after_crash:
  assumes "process_queued env job w = (Inr (), w')" and "db_ok (aw_db w)"
    and "we_ots env2 = we_ots env" and "we_read env2 (ar_proof_path job) = None"
    and "next_pending_attempt job (we_now env2) = Inr t"
  shows "\<exists>w2. process_queued env2 job (w\<lparr>aw_files := aw_files w'\<rparr>) = (Inr (), w2) \<and>
    aw_files w2 = aw_files w' \<and> state_of_id (aw_db w2) (ar_id job) = state_of_id (aw_db w') (ar_id job)"
proof -
  let ?L = "we_ots env" and ?g = "fromhex (ar_tip_hash job)"
  obtain wr action where pl: "queued_plan env job (aw_files w) = Inr (wr, action)"
    using assms(1) by (cases "queued_plan env job (aw_files w)") (auto simp: process_queued_def carry_out_def)
  obtain res fs where pub: "publish env job wr (aw_files w) = (res, fs)" by fastforce
  then have res: "res = Inr ()" using assms(1) pl by (cases res) (auto simp: process_queued_def carry_out_def)
  have cm: "commit_op (end_op env job action) (w\<lparr>aw_files := fs\<rparr>) = (Inr (), w')"
    using assms(1) pl pub res by (simp add: process_queued_def carry_out_def)
  have fs: "aw_files w' = fs" using cm by (auto simp: commit_op_def split: sum.splits prod.splits)
  obtain pf st where pf: "fs (ar_proof_path job) = Some pf" "target_state ?L pf ?g = Inr st" "action = ToState st"
    by (rule queued_published [OF pl pub [unfolded res]])
  have plan2: "queued_plan env2 job fs = Inr (None, ToState st)"
    using pf assms(3,4) by (simp add: queued_plan_def read_proof_def)
  obtain q where q: "end_op env job action = Inr q"
    using cm by (cases "end_op env job action") (auto simp: commit_op_def)
  then obtain row where run: "run_store_op q (aw_db w) = (Inr row, aw_db w')"
    using cm by (auto simp: commit_op_def split: prod.splits sum.splits)
  obtain now2 x2 where q2: "end_op env2 job (ToState st) = Inr (OpTransition job st now2 x2)"
    using assms(5) that by (cases "st = SubmittedPending") (simp_all add: end_op_def Let_def)
  obtain now1 x1 where q1: "q = OpTransition job st now1 x1"
    using q pf(3) by (auto simp: end_op_def Let_def res_simps split: if_splits)
  let ?q2 = "OpTransition job st now2 x2"
  have a1: "apply_store_op q (aw_db w) = Some (aw_db w')" using run by (rule run_store_op_row(1))
  then obtain db2 where a2: "apply_store_op ?q2 (aw_db w) = Some db2"
    using anchors.apply_iff [OF assms(2), of q] anchors.apply_iff [OF assms(2), of ?q2] q1 by auto
  obtain row2 where run2: "run_store_op ?q2 (aw_db w) = (Inr row2, db2)"
    using same_job_row [OF assms(2) run [unfolded q1] a2] by blast
  have "process_queued env2 job (w\<lparr>aw_files := fs\<rparr>) = (Inr (), w\<lparr>aw_files := fs, aw_db := db2\<rparr>)"
    using plan2 q2 run2 by (simp add: process_queued_def carry_out_def publish_def commit_op_def)
  moreover have "state_of_id db2 (ar_id job) = state_of_id (aw_db w') (ar_id job)"
    using anchors.apply_state [OF assms(2) a1] anchors.apply_state [OF assms(2) a2] q1 by simp
  ultimately show ?thesis using fs by simp
qed

theorem restart_after_crash_witness:
  "\<exists>tip w2. process_queued (later_worker 1) (sample_row tip) \<lparr>aw_db = [sample_row tip], aw_files = published 0 tip empty_files\<rparr> =
    (Inr (), w2) \<and> state_of_id (aw_db w2) 1 = Some SubmittedPending"
proof -
  obtain chain tip where tip: "snapshot_tip True chain = Inr (0, tip)" "is_hash_text tip" by (rule sample_snapshot)
  let ?w = "\<lparr>aw_db = [sample_row tip], aw_files = empty_files\<rparr>"
  have pub: "publish (sample_worker 0) (sample_row tip) (Some (0 # fromhex tip, False)) empty_files =
      (Inr (), published 0 tip empty_files)"
    by (simp add: publish_def sample_worker_def sample_write_new empty_files_def published_def)
  have run: "process_queued (sample_worker 0) (sample_row tip) ?w = (Inr (), pending_world tip)"
    using to_pending by (simp add: process_queued_def sample_queued_plan [OF tip(2)] carry_out_def pub sample_end
        commit_op_def pending_world_def)
  have b: "dt_micros sample_now + 1800000000 < max_micros"
    by (simp add: sample_now_def dt_micros_def ymd2ord_def days_before_year_def days_before_month_def
        seconds_of_day_def max_micros_def)
  then have "\<exists>t. next_pending_attempt (sample_row tip) (we_now (later_worker 1)) = Inr t"
    using dt_of_micros(2) [OF sample_later]
    by (auto simp: next_pending_attempt_def timedelta_minutes_def add_micros_def later_worker_def Let_def)
  then obtain t where t: "next_pending_attempt (sample_row tip) (we_now (later_worker 1)) = Inr t" by blast
  have "state_of_id (aw_db (pending_world tip)) 1 = Some SubmittedPending"
    by (simp add: state_of_id_def pending_world_def)
  with restart_after_crash [OF run _ _ _ t] show ?thesis
    by (auto simp: db_ok_def later_worker_def sample_worker_def pending_world_def)
qed

text \<open>
  C24. The proof file is never partial. After any number of the operations of \<^verbatim>\<open>write_proof_atomic\<close> the target
  holds what it held before or the whole proof, and no other file has changed but the temporary one.
\<close>

theorem proof_file_is_atomic:
  "fold run_op (take n (fst (write_proof_ops target proof replace io fs))) fs target \<in> {fs target, Some proof} \<and>
   (\<forall>p. p = target \<or> (\<exists>random. p = temp_path target random) \<or>
     fold run_op (take n (fst (write_proof_ops target proof replace io fs))) fs p = fs p)"
proof -
  obtain ops r where "write_proof_ops target proof replace io fs = (ops, r)" by fastforce
  from write_prefix(1) [OF this refl, of n] write_prefix(2) [OF this refl] this show ?thesis by auto
qed

section \<open>Backend\<close>

text \<open>
  A stamped proof is accepted for the digest it was made for: when the library reads back what it wrote,
  \<^verbatim>\<open>inspect_proof\<close> accepts the result of \<^verbatim>\<open>stamp\<close> and reports that digest.
\<close>

theorem stamped_proof_is_accepted:
  assumes "length digest = 32" and "length nonce = 16" and "submitter (commitment_of L digest nonce) = Inr c"
    and "ots_serialize L (detached_with L digest nonce c) = Inr bytes" and "bytes \<noteq> []"
    and "ots_deserialize L bytes = Inr (detached_with L digest nonce c)"
  shows "stamp L submitter (Some nonce) digest = Inr bytes \<and>
    (\<exists>i. inspect_proof L bytes digest = Inr i \<and> pi_digest i = digest)"
  using assms by (simp add: stamp_def inspect_proof_def validated_detached_def detached_with_def)

theorem stamped_proof_is_accepted_witness:
  "\<exists>L. stamp L Inr (Some (replicate 16 0)) (replicate 32 7) = Inr [1] \<and>
    (\<exists>i. inspect_proof L [1] (replicate 32 7) = Inr i \<and> pi_digest i = replicate 32 7)"
proof -
  let ?d = "detached_with sample_ots (replicate 32 7) (replicate 16 0)
    (commitment_of sample_ots (replicate 32 7) (replicate 16 0))"
  define L where "L = sample_ots\<lparr>ots_serialize := (\<lambda>d. Inr [1]), ots_deserialize := (\<lambda>bs. Inr ?d)\<rparr>"
  have "detached_with L = detached_with sample_ots" "commitment_of L = commitment_of sample_ots"
    by (simp_all add: fun_eq_iff L_def detached_with_def commitment_of_def)
  then have "stamp L Inr (Some (replicate 16 0)) (replicate 32 7) = Inr [1] \<and>
      (\<exists>i. inspect_proof L [1] (replicate 32 7) = Inr i \<and> pi_digest i = replicate 32 7)"
    by (intro stamped_proof_is_accepted) (simp_all add: L_def)
  then show ?thesis by blast
qed

text \<open>
  The loop over pending timestamps, which changes the tree in place, visits exactly the nodes
  \<^verbatim>\<open>_directly_attested_timestamps\<close> returns, in that order.
\<close>

theorem upgrade_visits_attested_nodes:
  "map (\<lambda>p. node_at p ts) (attested_paths ts) = directly_attested ts"
  by (rule nodes_at_attested_paths)

text \<open>Timestamps are compared in the database as text, and that order is the order of the instants.\<close>

theorem timestamps_compare_as_instants:
  assumes "valid_dt a" and "valid_dt b"
  shows "text_le (utc_text a) (utc_text b) \<longleftrightarrow> dt_micros a \<le> dt_micros b"
  using text_le_iso_utc [OF assms] by (simp add: utc_text_def)

theorem timestamps_compare_as_instants_witness:
  "text_le (utc_text sample_now) (utc_text sample_now)"
  using timestamps_compare_as_instants [OF sample_now_valid sample_now_valid] by simp

end
