(* ===== verification/Ocsf_Mapper.thy ===== *)
theory Ocsf_Mapper
  imports Chain_Logger Py_Float_Arith Py_Datetime_Order Py_Json_Ascii
begin

text \<open>
  The mapping of alerts to the formats of a security operations centre,
  \<^verbatim>\<open>src/soc-integration/ocsf/mapper.py\<close>: the validator of the canonical alert, the flat Wazuh event, the OCSF
  Detection Finding, and what the command writes for one file.
\<close>

section \<open>Fields and errors\<close>

definition SOC_SCHEMA_VERSION :: string where
  "SOC_SCHEMA_VERSION = ''1.0''"

definition OCSF_VERSION :: string where
  "OCSF_VERSION = ''1.8.0''"

definition CLASSES :: "string list" where
  "CLASSES = [''intrusion'', ''normal'', ''sensor_tamper'']"

definition CONFIDENCE_LEVELS :: "string list" where
  "CONFIDENCE_LEVELS = [''low'', ''borderline'', ''high'']"

definition PACS_STATUSES :: "string list" where
  "PACS_STATUSES = [''matched'', ''missing'', ''unknown'', ''not_applicable'']"

definition REQUIRED_FIELDS :: "string list" where
  "REQUIRED_FIELDS =
     [''schema_version'', ''source'', ''event_id'', ''ts_utc'', ''node_id'', ''site_id'', ''zone_id'', ''class'',
      ''confidence'', ''confidence_level'', ''model_id'', ''top_shap'', ''pacs_event_status'',
      ''pacs_reader_id'', ''pacs_event_id'']"

definition OPTIONAL_FIELDS :: "string list" where
  "OPTIONAL_FIELDS = [''csi_window_sha256'', ''sequence_number'', ''seq'', ''record_hash'']"

datatype alert_reason =
    AlertNotObject
  | AlertMissing "pystr list"
  | AlertUnknown "pystr list"
  | AlertSchemaVersion
  | AlertSource
  | AlertNotText pystr
  | AlertTimestampShape
  | AlertTimestampValue
  | AlertClass
  | AlertConfidence
  | AlertLevel
  | AlertLevelMismatch string f64
  | ShapNotArray
  | ShapNotObject nat
  | ShapFields nat
  | ShapValue nat
  | ShapRank nat
  | PacsStatus
  | PacsMatched
  | PacsMissing
  | PacsNotApplicable
  | AlertNotHash string
  | AlertNotNatural string

text \<open>
  What can leave the functions: \<^verbatim>\<open>AlertValidationError\<close>, the \<^verbatim>\<open>OverflowError\<close> of \<^verbatim>\<open>math.isfinite\<close> on a huge
  integer, the \<^verbatim>\<open>TypeError\<close> of looking a list or dictionary up in a set, and the \<^verbatim>\<open>KeyError\<close> of a subscript.
\<close>

datatype alert_exn = AlertError alert_reason | AlertOverflow | AlertUnhashable | AlertKeyError string

definition alert_item :: "pydict \<Rightarrow> string \<Rightarrow> alert_exn + pyval" where
  "alert_item d k = (case dget d k of None \<Rightarrow> Inl (AlertKeyError k) | Some v \<Rightarrow> Inr v)"

section \<open>Field checks\<close>

definition require_text :: "pyval \<Rightarrow> pystr \<Rightarrow> alert_exn + unit" where
  "require_text v field =
     (case v of
        PStr s \<Rightarrow> raise_if (list_all is_space s) (AlertError (AlertNotText field))
      | _ \<Rightarrow> Inl (AlertError (AlertNotText field)))"

definition require_optional_text :: "pyval \<Rightarrow> pystr \<Rightarrow> alert_exn + unit" where
  "require_optional_text v field = (if v = PNone then Inr () else require_text v field)"

definition require_natural :: "pyval \<Rightarrow> string \<Rightarrow> alert_exn + unit" where
  "require_natural v field =
     (case v of
        PInt n \<Rightarrow> raise_if (n < 0) (AlertError (AlertNotNatural field))
      | _ \<Rightarrow> Inl (AlertError (AlertNotNatural field)))"

definition require_sha256 :: "pyval \<Rightarrow> string \<Rightarrow> alert_exn + unit" where
  "require_sha256 v field =
     (case v of
        PStr s \<Rightarrow> raise_if (\<not> is_hash_text s) (AlertError (AlertNotHash field))
      | _ \<Rightarrow> Inl (AlertError (AlertNotHash field)))"

text \<open>\<^verbatim>\<open>value not in names\<close> for a set of texts: a list or a dictionary cannot be hashed.\<close>

definition require_one_of :: "pyval \<Rightarrow> string list \<Rightarrow> alert_reason \<Rightarrow> alert_exn + unit" where
  "require_one_of v names reason =
     (case v of
        PStr s \<Rightarrow> raise_if (s \<notin> set (map lit names)) (AlertError reason)
      | PList _ \<Rightarrow> Inl AlertUnhashable
      | PDict _ \<Rightarrow> Inl AlertUnhashable
      | _ \<Rightarrow> Inl (AlertError reason))"

text \<open>A finite number that is not a \<^verbatim>\<open>bool\<close>, as the float \<^verbatim>\<open>float(value)\<close>.\<close>

definition finite_number :: "pyval \<Rightarrow> alert_reason \<Rightarrow> alert_exn + f64" where
  "finite_number v reason =
     (case v of
        PInt n \<Rightarrow> (case f64_of_int n of None \<Rightarrow> Inl AlertOverflow | Some x \<Rightarrow> Inr x)
      | PFloat x \<Rightarrow> rbind (raise_if (\<not> f64_isfinite x) (AlertError reason)) (\<lambda>_. Inr x)
      | _ \<Rightarrow> Inl (AlertError reason))"

text \<open>\<^verbatim>\<open>0 <= value <= 1\<close>, exact for an integer.\<close>

fun in_unit_interval :: "pyval \<Rightarrow> bool" where
  "in_unit_interval (PInt n) = (0 \<le> n \<and> n \<le> 1)"
| "in_unit_interval (PFloat x) = (f64_le f64_zero x \<and> f64_le x f64_one)"
| "in_unit_interval _ = False"

definition confidence_value :: "pyval \<Rightarrow> alert_exn + f64" where
  "confidence_value v =
     rbind (finite_number v AlertConfidence) (\<lambda>x.
     rbind (raise_if (\<not> in_unit_interval v) (AlertError AlertConfidence)) (\<lambda>_. Inr x))"

text \<open>The floats \<^verbatim>\<open>0.90\<close> and \<^verbatim>\<open>0.60\<close>.\<close>

definition f64_090 :: f64 where
  "f64_090 = f64_of_dec False 90 2"

definition f64_060 :: f64 where
  "f64_060 = f64_of_dec False 60 2"

definition confidence_level :: "f64 \<Rightarrow> string" where
  "confidence_level confidence =
     (if f64_le f64_090 confidence then ''high''
      else if f64_le f64_060 confidence then ''borderline'' else ''low'')"

definition to_epoch_millis :: "pystr \<Rightarrow> alert_exn + int" where
  "to_epoch_millis value =
     (case fromisoformat_utc value of
        None \<Rightarrow> Inl (AlertError AlertTimestampValue)
      | Some parsed \<Rightarrow>
          (let epoch = \<lparr>dt_date = (1970, 1, 1), dt_hour = 0, dt_minute = 0, dt_second = 0, dt_micro = 0\<rparr>;
               delta = int (dt_micros parsed) - int (dt_micros epoch);
               days = delta div 86400000000;
               seconds = delta mod 86400000000 div 1000000;
               microseconds = delta mod 1000000
           in Inr (days * 86400000 + seconds * 1000 + microseconds div 1000)))"

definition require_alert_time :: "pyval \<Rightarrow> alert_exn + unit" where
  "require_alert_time v =
     (case v of
        PStr s \<Rightarrow>
          rbind (raise_if (\<not> utc_shape (Some 9) s) (AlertError AlertTimestampShape)) (\<lambda>_.
          rbind (to_epoch_millis s) (\<lambda>_. Inr ()))
      | _ \<Rightarrow> Inl (AlertError AlertTimestampShape))"

text \<open>The stated level must be the one of the confidence.\<close>

definition require_level :: "pyval \<Rightarrow> f64 \<Rightarrow> alert_exn + unit" where
  "require_level level confidence =
     rbind (require_one_of level CONFIDENCE_LEVELS AlertLevel) (\<lambda>_.
       raise_if (level \<noteq> PStr (lit (confidence_level confidence)))
         (AlertError (AlertLevelMismatch (confidence_level confidence) confidence)))"

definition shap_path :: "nat \<Rightarrow> string \<Rightarrow> pystr" where
  "shap_path i field = lit ''top_shap['' @ dec i @ lit '']'' @ lit field"

definition validate_shap_item :: "nat \<Rightarrow> pyval \<Rightarrow> alert_exn + unit" where
  "validate_shap_item i item =
     (case item of
        PDict d \<Rightarrow>
          rbind (raise_if (\<not> list_all is_kstr (dkeys d)) (AlertError (ShapNotObject i))) (\<lambda>_.
          rbind (raise_if (unknown_fields [''feature'', ''value'', ''rank''] d \<noteq> [] \<or>
                   missing_fields [''feature'', ''value''] d \<noteq> []) (AlertError (ShapFields i))) (\<lambda>_.
          rbind (alert_item d ''feature'') (\<lambda>feature.
          rbind (require_text feature (shap_path i ''.feature'')) (\<lambda>_.
          rbind (alert_item d ''value'') (\<lambda>contribution.
          rbind (finite_number contribution (ShapValue i)) (\<lambda>_.
            case dget d ''rank'' of
              None \<Rightarrow> Inr ()
            | Some (PInt rank) \<Rightarrow> raise_if (rank \<le> 0) (AlertError (ShapRank i))
            | Some _ \<Rightarrow> Inl (AlertError (ShapRank i))))))))
      | _ \<Rightarrow> Inl (AlertError (ShapNotObject i)))"

definition validate_top_shap :: "pyval \<Rightarrow> alert_exn + unit" where
  "validate_top_shap v =
     (case v of
        PList items \<Rightarrow> rall (\<lambda>(i, item). validate_shap_item i item) (enumerate 0 items)
      | _ \<Rightarrow> Inl (AlertError ShapNotArray))"

definition validate_pacs :: "pydict \<Rightarrow> alert_exn + unit" where
  "validate_pacs d =
     rbind (alert_item d ''pacs_event_status'') (\<lambda>status.
     rbind (require_one_of status PACS_STATUSES PacsStatus) (\<lambda>_.
     rbind (alert_item d ''pacs_reader_id'') (\<lambda>reader_id.
     rbind (alert_item d ''pacs_event_id'') (\<lambda>event_id.
     rbind (require_optional_text reader_id (lit ''pacs_reader_id'')) (\<lambda>_.
     rbind (require_optional_text event_id (lit ''pacs_event_id'')) (\<lambda>_.
     rbind (raise_if (status = PStr (lit ''matched'') \<and> (reader_id = PNone \<or> event_id = PNone))
       (AlertError PacsMatched)) (\<lambda>_.
     rbind (raise_if (status = PStr (lit ''missing'') \<and> event_id \<noteq> PNone) (AlertError PacsMissing)) (\<lambda>_.
       raise_if (status = PStr (lit ''not_applicable'') \<and> (reader_id \<noteq> PNone \<or> event_id \<noteq> PNone))
         (AlertError PacsNotApplicable)))))))))"

section \<open>The validator\<close>

definition optional_check :: "pydict \<Rightarrow> (pyval \<Rightarrow> string \<Rightarrow> alert_exn + unit) \<Rightarrow> string \<Rightarrow> alert_exn + unit" where
  "optional_check d check field = (case dget d field of None \<Rightarrow> Inr () | Some v \<Rightarrow> check v field)"

definition validate_alert_values :: "pydict \<Rightarrow> alert_exn + unit" where
  "validate_alert_values d =
     rbind (alert_item d ''schema_version'') (\<lambda>version.
     rbind (raise_if (version \<noteq> PStr (lit SOC_SCHEMA_VERSION)) (AlertError AlertSchemaVersion)) (\<lambda>_.
     rbind (alert_item d ''source'') (\<lambda>source.
     rbind (raise_if (source \<noteq> PStr (lit ''vestrix'')) (AlertError AlertSource)) (\<lambda>_.
     rbind (rall (\<lambda>field. rbind (alert_item d field) (\<lambda>v. require_text v (lit field)))
       [''event_id'', ''node_id'', ''site_id'', ''zone_id'', ''model_id'']) (\<lambda>_.
     rbind (rbind (alert_item d ''ts_utc'') require_alert_time) (\<lambda>_.
     rbind (rbind (alert_item d ''class'') (\<lambda>v. require_one_of v CLASSES AlertClass)) (\<lambda>_.
     rbind (rbind (alert_item d ''confidence'') confidence_value) (\<lambda>confidence.
     rbind (rbind (alert_item d ''confidence_level'') (\<lambda>level. require_level level confidence)) (\<lambda>_.
     rbind (rbind (alert_item d ''top_shap'') validate_top_shap) (\<lambda>_.
     rbind (validate_pacs d) (\<lambda>_.
     rbind (rall (optional_check d require_sha256) [''csi_window_sha256'', ''record_hash'']) (\<lambda>_.
       rall (optional_check d require_natural) [''sequence_number'', ''seq'']))))))))))))"

definition validate_alert :: "pyval \<Rightarrow> alert_exn + pydict" where
  "validate_alert alert =
     (case alert of
        PDict d \<Rightarrow>
          rbind (raise_if (\<not> list_all is_kstr (dkeys d)) (AlertError AlertNotObject)) (\<lambda>_.
          rbind (raise_if (missing_fields REQUIRED_FIELDS d \<noteq> [])
            (AlertError (AlertMissing (missing_fields REQUIRED_FIELDS d)))) (\<lambda>_.
          rbind (raise_if (unknown_fields (REQUIRED_FIELDS @ OPTIONAL_FIELDS) d \<noteq> [])
            (AlertError (AlertUnknown (unknown_fields (REQUIRED_FIELDS @ OPTIONAL_FIELDS) d)))) (\<lambda>_.
          rbind (validate_alert_values d) (\<lambda>_. Inr d))))
      | _ \<Rightarrow> Inl (AlertError AlertNotObject))"

section \<open>Wazuh\<close>

definition drop_none :: "pydict \<Rightarrow> pydict" where
  "drop_none d = filter (\<lambda>kv. snd kv \<noteq> PNone) d"

text \<open>\<^verbatim>\<open>top_shap\<close> is popped; of its first entry only the feature and the value are kept.\<close>

definition first_shap :: "pyval \<Rightarrow> alert_exn + pyval \<times> pyval" where
  "first_shap top_shap =
     (case top_shap of
        PList (PDict item # _) \<Rightarrow>
          rbind (alert_item item ''feature'') (\<lambda>feature.
          rbind (alert_item item ''value'') (\<lambda>contribution. Inr (feature, contribution)))
      | _ \<Rightarrow> Inr (PStr (lit ''none''), PFloat f64_zero))"

definition to_wazuh :: "pyval \<Rightarrow> alert_exn + pydict" where
  "to_wazuh alert =
     rbind (validate_alert alert) (\<lambda>canonical.
     rbind (alert_item canonical ''top_shap'') (\<lambda>top_shap.
     rbind (first_shap top_shap) (\<lambda>(feature, contribution).
       Inr (dset (dset (drop_none (filter (\<lambda>kv. fst kv \<noteq> KStr (lit ''top_shap'')) canonical))
         ''shap_top_feature'' feature) ''shap_top_value'' contribution))))"

section \<open>OCSF\<close>

text \<open>The three lookups in the level; a level outside the table is a \<^verbatim>\<open>KeyError\<close>.\<close>

definition level_number :: "pystr \<Rightarrow> alert_exn + int" where
  "level_number level =
     (if level = lit ''low'' then Inr 1
      else if level = lit ''borderline'' then Inr 2
      else if level = lit ''high'' then Inr 3
      else Inl (AlertKeyError ''confidence_level''))"

definition level_name :: "int \<Rightarrow> string" where
  "level_name n = (if n = 1 then ''Low'' else if n = 2 then ''Medium'' else ''High'')"

definition severity :: "pydict \<Rightarrow> alert_exn + int \<times> string" where
  "severity alert =
     (let event_class = str_item alert ''class''; level = str_item alert ''confidence_level'' in
      if event_class = lit ''normal'' then Inr (1, ''Informational'')
      else if event_class = lit ''sensor_tamper'' then Inr (4, ''High'')
      else if str_item alert ''pacs_event_status'' = lit ''missing'' then Inr (5, ''Critical'')
      else if level = lit ''high'' then Inr (4, ''High'')
      else if level = lit ''borderline'' then Inr (3, ''Medium'')
      else if level = lit ''low'' then Inr (2, ''Low'')
      else Inl (AlertKeyError ''confidence_level''))"

definition alert_title :: "pydict \<Rightarrow> pystr" where
  "alert_title alert =
     (let event_class = str_item alert ''class'';
          zone = str_item alert ''site_id'' @ lit ''/'' @ str_item alert ''zone_id'' in
      if event_class = lit ''sensor_tamper'' then lit ''Vestrix sensor tamper detected at '' @ zone
      else if event_class = lit ''normal'' then lit ''Vestrix benign physical activity at '' @ zone
      else if str_item alert ''pacs_event_status'' = lit ''missing''
      then lit ''Vestrix intrusion without corresponding PACS event at '' @ zone
      else lit ''Vestrix physical intrusion detected at '' @ zone)"

text \<open>\<^verbatim>\<open>round(confidence * 100)\<close>: the product is a float, rounded half to even.\<close>

definition confidence_score :: "f64 \<Rightarrow> int" where
  "confidence_score confidence =
     int (round_half_even (mag_val (f64_mag (f64_mul confidence (f64_of_dec False 100 0)))) f64_unit)"

definition text_value :: "string \<Rightarrow> pyval" where
  "text_value s = PStr (lit s)"

definition dict_of :: "(string \<times> pyval) list \<Rightarrow> pyval" where
  "dict_of kvs = PDict (map (\<lambda>(k, v). (KStr (lit k), v)) kvs)"

definition ocsf_metadata :: "pydict \<Rightarrow> pyval" where
  "ocsf_metadata canonical = dict_of
     [(''version'', text_value OCSF_VERSION),
      (''product'', dict_of
        [(''name'', text_value ''Vestrix''), (''vendor_name'', text_value ''Vestrix''),
         (''version'', text_value SOC_SCHEMA_VERSION)]),
      (''original_event_uid'', PStr (str_item canonical ''event_id'')),
      (''original_time'', PStr (str_item canonical ''ts_utc'')),
      (''log_name'', text_value ''vestrix-alerts''), (''log_provider'', text_value ''Vestrix''),
      (''source'', text_value ''Vestrix canonical SOC alert'')]"

definition ocsf_finding :: "pydict \<Rightarrow> pyval" where
  "ocsf_finding canonical = dict_of
     [(''uid'', PStr (str_item canonical ''event_id'')),
      (''title'', PStr (alert_title canonical)),
      (''desc'', PStr (lit ''Vestrix classified physical activity as '' @ str_item canonical ''class'' @
         lit '' in '' @ str_item canonical ''site_id'' @ lit ''/'' @ str_item canonical ''zone_id'' @ lit ''.'')),
      (''analytic'', dict_of
        [(''name'', PStr (str_item canonical ''model_id'')), (''uid'', PStr (str_item canonical ''model_id'')),
         (''type_id'', PInt 4), (''type'', text_value ''Learning (ML/DL)'')]),
      (''types'', PList [text_value ''Physical Security'', text_value ''WiFi CSI Sensing''])]"

definition ocsf_device :: "pydict \<Rightarrow> pyval" where
  "ocsf_device canonical = dict_of
     [(''uid'', PStr (str_item canonical ''node_id'')), (''name'', PStr (str_item canonical ''node_id'')),
      (''type_id'', PInt 99), (''type'', text_value ''WiFi CSI sensor''),
      (''vendor_name'', text_value ''Vestrix'')]"

definition ocsf_event :: "pydict \<Rightarrow> int \<Rightarrow> int \<times> string \<Rightarrow> int \<Rightarrow> f64 \<Rightarrow> pydict" where
  "ocsf_event canonical time sev confidence_id confidence =
     map (\<lambda>(k, v). (KStr (lit k), v))
     [(''activity_id'', PInt 1), (''activity_name'', text_value ''Create''),
      (''category_uid'', PInt 2), (''category_name'', text_value ''Findings''),
      (''class_uid'', PInt 2004), (''class_name'', text_value ''Detection Finding''),
      (''type_uid'', PInt 200401), (''type_name'', text_value ''Detection Finding: Create''),
      (''time'', PInt time), (''severity_id'', PInt (fst sev)), (''severity'', text_value (snd sev)),
      (''confidence_id'', PInt confidence_id), (''confidence'', text_value (level_name confidence_id)),
      (''confidence_score'', PInt (confidence_score confidence)),
      (''status_id'', PInt 1), (''status'', text_value ''New''),
      (''is_alert'', PBool (str_item canonical ''class'' \<noteq> lit ''normal'')),
      (''message'', PStr (alert_title canonical)),
      (''metadata'', ocsf_metadata canonical), (''finding_info'', ocsf_finding canonical),
      (''device'', ocsf_device canonical),
      (''unmapped'', dict_of [(''vestrix'', PDict canonical)])]"

definition to_ocsf :: "pyval \<Rightarrow> alert_exn + pydict" where
  "to_ocsf alert =
     rbind (validate_alert alert) (\<lambda>canonical.
     rbind (rbind (alert_item canonical ''confidence'') (\<lambda>v. finite_number v AlertConfidence)) (\<lambda>confidence.
     rbind (level_number (str_item canonical ''confidence_level'')) (\<lambda>confidence_id.
     rbind (to_epoch_millis (str_item canonical ''ts_utc'')) (\<lambda>time.
     rbind (severity canonical) (\<lambda>sev.
       Inr (ocsf_event canonical time sev confidence_id confidence))))))"

section \<open>The command\<close>

datatype main_exn = MainReads json_error | MainNotUtf8 | MainMaps alert_exn | MainNotEncodable

text \<open>
  \<open>wazuh\<close> is the chosen format; the result is the line printed. \<^verbatim>\<open>read_text\<close> decodes the file; its translation of
  line ends changes nothing outside strings of the JSON text, which cannot hold them.
\<close>

definition mapper_main :: "bool \<Rightarrow> bytestr \<Rightarrow> main_exn + pystr" where
  "mapper_main wazuh file =
     (case decode_utf8 False file of
        None \<Rightarrow> Inl MainNotUtf8
      | Some text \<Rightarrow>
          rbind (rmap_err MainReads (loads_text text)) (\<lambda>source.
          rbind (rmap_err MainMaps ((if wazuh then to_wazuh else to_ocsf) source)) (\<lambda>out.
            case ascii_text (PDict out) of None \<Rightarrow> Inl MainNotEncodable | Some line \<Rightarrow> Inr line)))"

end
