(* ===== verification/Ocsf_Alerts.thy ===== *)
theory Ocsf_Alerts
  imports Ocsf_Mapper
begin

text \<open>
  The contract of the canonical alert, field by field, and the lemmas that relate it to the validator: which
  alerts it accepts, and which exceptions it raises on the others.
\<close>

section \<open>The contract\<close>

fun one_of :: "string list \<Rightarrow> pyval \<Rightarrow> bool" where
  "one_of names (PStr s) = (s \<in> set (map lit names))"
| "one_of names _ = False"

fun finite_ok :: "pyval \<Rightarrow> bool" where
  "finite_ok (PInt n) = (f64_of_int n \<noteq> None)"
| "finite_ok (PFloat x) = f64_isfinite x"
| "finite_ok _ = False"

fun float_of :: "pyval \<Rightarrow> f64" where
  "float_of (PInt n) = the (f64_of_int n)"
| "float_of (PFloat x) = x"
| "float_of _ = f64_zero"

fun natural_ok :: "pyval \<Rightarrow> bool" where
  "natural_ok (PInt n) = (0 \<le> n)"
| "natural_ok _ = False"

fun positive_ok :: "pyval \<Rightarrow> bool" where
  "positive_ok (PInt n) = (0 < n)"
| "positive_ok _ = False"

fun alert_time_ok :: "pyval \<Rightarrow> bool" where
  "alert_time_ok (PStr s) = (utc_shape (Some 9) s \<and> fromisoformat_utc s \<noteq> None)"
| "alert_time_ok _ = False"

definition given :: "pydict \<Rightarrow> string \<Rightarrow> (pyval \<Rightarrow> bool) \<Rightarrow> bool" where
  "given d k P \<longleftrightarrow> (case dget d k of None \<Rightarrow> True | Some v \<Rightarrow> P v)"

fun shap_item_ok :: "pyval \<Rightarrow> bool" where
  "shap_item_ok (PDict d) =
     (named_keys [''feature'', ''value''] \<subseteq> set (dkeys d) \<and>
      set (dkeys d) \<subseteq> named_keys [''feature'', ''value'', ''rank''] \<and>
      item_ok d ''feature'' text_ok \<and> item_ok d ''value'' finite_ok \<and> given d ''rank'' positive_ok)"
| "shap_item_ok _ = False"

fun shap_ok :: "pyval \<Rightarrow> bool" where
  "shap_ok (PList items) = (\<forall>item \<in> set items. shap_item_ok item)"
| "shap_ok _ = False"

definition pacs_ok :: "pyval \<Rightarrow> pyval \<Rightarrow> pyval \<Rightarrow> bool" where
  "pacs_ok status reader_id event_id \<longleftrightarrow>
     one_of PACS_STATUSES status \<and> (reader_id = PNone \<or> text_ok reader_id) \<and> (event_id = PNone \<or> text_ok event_id) \<and>
     (status = PStr (lit ''matched'') \<longrightarrow> reader_id \<noteq> PNone \<and> event_id \<noteq> PNone) \<and>
     (status = PStr (lit ''missing'') \<longrightarrow> event_id = PNone) \<and>
     (status = PStr (lit ''not_applicable'') \<longrightarrow> reader_id = PNone \<and> event_id = PNone)"

definition alert_ok :: "pydict \<Rightarrow> bool" where
  "alert_ok d \<longleftrightarrow>
     named_keys REQUIRED_FIELDS \<subseteq> set (dkeys d) \<and>
     set (dkeys d) \<subseteq> named_keys (REQUIRED_FIELDS @ OPTIONAL_FIELDS) \<and>
     dget d ''schema_version'' = Some (PStr (lit SOC_SCHEMA_VERSION)) \<and>
     dget d ''source'' = Some (PStr (lit ''vestrix'')) \<and>
     (\<forall>k \<in> {''event_id'', ''node_id'', ''site_id'', ''zone_id'', ''model_id''}. item_ok d k text_ok) \<and>
     item_ok d ''ts_utc'' alert_time_ok \<and> item_ok d ''class'' (one_of CLASSES) \<and>
     item_ok d ''confidence'' (\<lambda>v. finite_ok v \<and> in_unit_interval v \<and>
       dget d ''confidence_level'' = Some (PStr (lit (confidence_level (float_of v))))) \<and>
     item_ok d ''top_shap'' shap_ok \<and>
     item_ok d ''pacs_event_status'' (\<lambda>s. item_ok d ''pacs_reader_id'' (\<lambda>r. item_ok d ''pacs_event_id'' (pacs_ok s r))) \<and>
     (\<forall>k \<in> {''csi_window_sha256'', ''record_hash''}. given d k hash_ok) \<and>
     (\<forall>k \<in> {''sequence_number'', ''seq''}. given d k natural_ok)"

section \<open>What is accepted\<close>

lemma alert_item_iff: "rbind (alert_item d k) f = Inr u \<longleftrightarrow> item_ok d k (\<lambda>v. f v = Inr u)"
  by (simp add: alert_item_def item_ok_def split: option.splits)

lemma alert_checks [simp]:
  "require_text v f = Inr u \<longleftrightarrow> text_ok v"
  "require_optional_text v f = Inr u \<longleftrightarrow> v = PNone \<or> text_ok v"
  "require_natural v g = Inr u \<longleftrightarrow> natural_ok v"
  "require_sha256 v g = Inr u \<longleftrightarrow> hash_ok v"
  "require_one_of v names r = Inr u \<longleftrightarrow> one_of names v"
  "finite_number v r = Inr x \<longleftrightarrow> finite_ok v \<and> x = float_of v"
  by (cases v; force simp: require_text_def require_optional_text_def require_natural_def require_sha256_def
      require_one_of_def finite_number_def list_all_iff res_simps split: option.splits)+

lemma alert_time_check [simp]: "require_alert_time v = Inr u \<longleftrightarrow> alert_time_ok v"
  by (cases v) (auto simp: require_alert_time_def to_epoch_millis_def res_simps Let_def split: option.splits)

lemma confidence_value_iff [simp]:
  "confidence_value v = Inr x \<longleftrightarrow> finite_ok v \<and> in_unit_interval v \<and> x = float_of v"
  by (auto simp: confidence_value_def res_simps)

lemma require_level_iff [simp]: "require_level v x = Inr u \<longleftrightarrow> v = PStr (lit (confidence_level x))"
  by (auto simp: require_level_def res_simps confidence_level_def CONFIDENCE_LEVELS_def)

lemma shap_item_iff [simp]: "validate_shap_item i v = Inr u \<longleftrightarrow> shap_item_ok v"
proof (cases v)
  case (PDict d)
  have k: "set (dkeys d) \<subseteq> named_keys ns \<Longrightarrow> list_all is_kstr (dkeys d)" for ns by (rule named_keys_kstr)
  have r: "(case dget d ''rank'' of None \<Rightarrow> Inr () | Some (PInt rank) \<Rightarrow> raise_if (rank \<le> 0) e | Some _ \<Rightarrow> Inl e) = Inr ()
      \<longleftrightarrow> given d ''rank'' positive_ok" for e :: alert_exn
    by (auto simp: given_def split: option.splits pyval.splits)
  have "validate_shap_item i v = Inr u \<longleftrightarrow>
      list_all is_kstr (dkeys d) \<and> unknown_fields [''feature'', ''value'', ''rank''] d = [] \<and>
      named_keys [''feature'', ''value''] \<subseteq> set (dkeys d) \<and>
      item_ok d ''feature'' (\<lambda>f. text_ok f \<and> item_ok d ''value'' (\<lambda>c. finite_ok c \<and> given d ''rank'' positive_ok))"
    using PDict by (simp add: validate_shap_item_def rbind_eq_Inr [of "raise_if _ _"] alert_item_iff r
        rbind_eq_Inr [of "require_text _ _"] rbind_eq_Inr [of "finite_number _ _"] conj_ac)
  then show ?thesis using PDict k unknown_fields_Nil [of d]
    by (auto simp: item_ok_def split: option.splits)
qed (simp_all add: validate_shap_item_def)

lemma enumerate_items: "set xs = snd ` set (enumerate n xs)"
  by (metis list.set_map map_snd_enumerate)

lemma shap_iff [simp]: "validate_top_shap v = Inr u \<longleftrightarrow> shap_ok v"
proof (cases v)
  case (PList items)
  with enumerate_items [of items 0] show ?thesis by (simp add: validate_top_shap_def rall_eq_Inr case_prod_beta)
qed (simp_all add: validate_top_shap_def)

lemma pacs_iff [simp]:
  "validate_pacs d = Inr u \<longleftrightarrow>
     item_ok d ''pacs_event_status'' (\<lambda>s. item_ok d ''pacs_reader_id'' (\<lambda>r. item_ok d ''pacs_event_id'' (pacs_ok s r)))"
proof -
  have "validate_pacs d = Inr u \<longleftrightarrow>
      item_ok d ''pacs_event_status'' (\<lambda>s. one_of PACS_STATUSES s \<and>
        item_ok d ''pacs_reader_id'' (\<lambda>r. item_ok d ''pacs_event_id'' (pacs_ok s r)))"
    by (simp add: validate_pacs_def alert_item_iff rbind_eq_Inr [of "require_one_of _ _ _"]
        rbind_eq_Inr [of "require_optional_text _ _"] rbind_eq_Inr [of "raise_if _ _"] pacs_ok_def item_ok_def
        split: option.splits)
  then show ?thesis by (auto simp: item_ok_def pacs_ok_def split: option.splits)
qed

lemma optional_check_iff [simp]: "optional_check d f k = Inr u \<longleftrightarrow> given d k (\<lambda>v. f v k = Inr u)"
  by (simp add: optional_check_def given_def split: option.splits)

lemma validate_alert_values_iff:
  assumes "named_keys REQUIRED_FIELDS \<subseteq> set (dkeys d)" and "set (dkeys d) \<subseteq> named_keys (REQUIRED_FIELDS @ OPTIONAL_FIELDS)"
  shows "validate_alert_values d = Inr u \<longleftrightarrow> alert_ok d"
proof -
  note b = rbind_eq_Inr [of "raise_if _ _"] rbind_eq_Inr [of "rall _ _"] rbind_eq_Inr [of "rbind _ _"]
    rbind_eq_Inr [of "validate_pacs _"] rbind_eq_Inr [of "optional_check _ _ _"]
  show ?thesis using assms
    by (simp add: validate_alert_values_def alert_ok_def b alert_item_iff rall_eq_Inr)
      (auto simp: item_ok_def split: option.splits)
qed

lemma validate_alert_iff: "validate_alert v = Inr d \<longleftrightarrow> v = PDict d \<and> alert_ok d"
proof (cases v)
  case (PDict e)
  have "alert_ok e \<Longrightarrow> list_all is_kstr (dkeys e) \<and> named_keys REQUIRED_FIELDS \<subseteq> set (dkeys e) \<and>
      set (dkeys e) \<subseteq> named_keys (REQUIRED_FIELDS @ OPTIONAL_FIELDS)"
    by (auto simp: alert_ok_def intro: named_keys_kstr)
  then show ?thesis using PDict validate_alert_values_iff [of e]
    by (auto simp: validate_alert_def res_simps unknown_fields_Nil)
qed (simp_all add: validate_alert_def)

section \<open>What is raised\<close>

text \<open>The exceptions that are not \<^verbatim>\<open>AlertValidationError\<close>, and the alerts that cause them.\<close>

fun huge_int :: "pyval \<Rightarrow> bool" where
  "huge_int (PInt n) = (f64_of_int n = None)"
| "huge_int _ = False"

fun unhashable :: "pyval \<Rightarrow> bool" where
  "unhashable (PList vs) = True"
| "unhashable (PDict d) = True"
| "unhashable _ = False"

definition has_item :: "pydict \<Rightarrow> string \<Rightarrow> (pyval \<Rightarrow> bool) \<Rightarrow> bool" where
  "has_item d k P \<longleftrightarrow> (\<exists>v. dget d k = Some v \<and> P v)"

fun huge_contribution :: "pyval \<Rightarrow> bool" where
  "huge_contribution (PList items) =
     (\<exists>item \<in> set items. case item of PDict i \<Rightarrow> has_item i ''value'' huge_int | _ \<Rightarrow> False)"
| "huge_contribution _ = False"

definition alert_fails :: "pydict \<Rightarrow> alert_exn \<Rightarrow> bool" where
  "alert_fails d e \<longleftrightarrow>
     (case e of
        AlertError r \<Rightarrow> True
      | AlertOverflow \<Rightarrow> has_item d ''confidence'' huge_int \<or> has_item d ''top_shap'' huge_contribution
      | AlertUnhashable \<Rightarrow>
          has_item d ''class'' unhashable \<or> has_item d ''confidence_level'' unhashable \<or>
          has_item d ''pacs_event_status'' unhashable
      | AlertKeyError k \<Rightarrow> False)"

lemma raises_item:
  "KStr (lit k) \<in> set (dkeys d) \<Longrightarrow> (\<And>v. dget d k = Some v \<Longrightarrow> raises P (f v)) \<Longrightarrow> raises P (rbind (alert_item d k) f)"
  using dget_None_iff [of d k] by (auto simp: alert_item_def split: option.splits)

lemma raises_checks [intro]:
  "raises (alert_fails d) (require_text v f)" "raises (alert_fails d) (require_optional_text v f)"
  "raises (alert_fails d) (require_natural v g)" "raises (alert_fails d) (require_sha256 v g)"
  "raises (alert_fails d) (require_alert_time v)" "raises (alert_fails d) (raise_if b (AlertError r))"
  by (auto simp: raises_def alert_fails_def require_text_def require_optional_text_def require_natural_def
      require_sha256_def require_alert_time_def to_epoch_millis_def res_simps Let_def
      split: pyval.splits if_splits option.splits)

lemma raises_one_of:
  "dget d k = Some v \<Longrightarrow> k \<in> {''class'', ''confidence_level'', ''pacs_event_status''} \<Longrightarrow>
    raises (alert_fails d) (require_one_of v names r)"
  by (cases v) (auto simp: raises_def alert_fails_def require_one_of_def has_item_def)

lemma raises_finite: "(\<And>q. P (AlertError q)) \<Longrightarrow> (huge_int v \<Longrightarrow> P AlertOverflow) \<Longrightarrow> raises P (finite_number v r)"
  by (cases v) (auto simp: raises_def finite_number_def res_simps split: option.splits)

lemma raises_shap_item:
  "raises (\<lambda>e. (\<exists>q. e = AlertError q) \<or>
    e = AlertOverflow \<and> (case v of PDict d \<Rightarrow> has_item d ''value'' huge_int | _ \<Rightarrow> False)) (validate_shap_item i v)"
proof (cases v)
  case (PDict d)
  let ?P = "\<lambda>e. (\<exists>q. e = AlertError q) \<or> e = AlertOverflow \<and> has_item d ''value'' huge_int"
  have c: "raises ?P (raise_if b (AlertError r))" "raises ?P (require_text w f)" for b r w f
    by (auto simp: raises_def require_text_def split: pyval.splits)
  show ?thesis
    unfolding PDict validate_shap_item_def
    by (simp, intro raises_rbind raises_item c raises_finite)
      (auto simp: res_simps named_keys_def has_item_def raises_def split: option.splits pyval.splits)
qed (auto simp: validate_shap_item_def raises_def)

lemma raises_shap:
  assumes "dget d ''top_shap'' = Some v"
  shows "raises (alert_fails d) (validate_top_shap v)"
proof (cases v)
  case (PList items)
  have "alert_fails d e" if "p \<in> set (enumerate 0 items)" "validate_shap_item (fst p) (snd p) = Inl e" for p e
  proof -
    have "snd p \<in> set items" using that(1) enumerate_items [of items 0] by auto
    then show ?thesis using raises_shap_item [of "snd p" "fst p"] that(2) PList assms
      by (auto simp: raises_def alert_fails_def has_item_def)
  qed
  then show ?thesis
    by (simp add: PList validate_top_shap_def case_prod_beta, intro raises_rall)
      (simp add: raises_def case_prod_beta)
qed (auto simp: validate_top_shap_def alert_fails_def raises_def)

lemma raises_confidence: "dget d ''confidence'' = Some v \<Longrightarrow> raises (alert_fails d) (confidence_value v)"
  by (auto simp: confidence_value_def alert_fails_def has_item_def intro!: raises_rbind raises_finite raises_checks)

lemma raises_level: "dget d ''confidence_level'' = Some v \<Longrightarrow> raises (alert_fails d) (require_level v x)"
  by (auto simp: require_level_def intro!: raises_rbind raises_one_of)

lemma required_keys:
  "named_keys REQUIRED_FIELDS \<subseteq> set (dkeys d) \<Longrightarrow> list_all (\<lambda>k. KStr (lit k) \<in> set (dkeys d)) REQUIRED_FIELDS"
  by (auto simp: list_all_iff named_keys_def)

lemma raises_pacs:
  assumes "named_keys REQUIRED_FIELDS \<subseteq> set (dkeys d)"
  shows "raises (alert_fails d) (validate_pacs d)"
proof -
  note has = required_keys [OF assms, unfolded REQUIRED_FIELDS_def, simplified]
  show ?thesis
    unfolding validate_pacs_def
    by (intro raises_item raises_rbind raises_checks raises_one_of) (assumption | simp add: has)+
qed

lemma raises_optional: "(\<And>v. raises P (f v k)) \<Longrightarrow> raises P (optional_check d f k)"
  by (auto simp: optional_check_def split: option.splits)

lemma raises_values:
  assumes "named_keys REQUIRED_FIELDS \<subseteq> set (dkeys d)"
  shows "raises (alert_fails d) (validate_alert_values d)"
proof -
  note has = required_keys [OF assms, unfolded REQUIRED_FIELDS_def, simplified]
  show ?thesis
    unfolding validate_alert_values_def
    by (intro raises_item raises_rbind raises_checks raises_one_of raises_rall raises_confidence raises_level
        raises_shap raises_pacs [OF assms] raises_optional)
      (assumption | simp add: has | (auto)[1])+
qed

lemma validate_alert_errors:
  assumes "validate_alert v = Inl e"
  shows "(\<exists>r. e = AlertError r) \<or> (\<exists>d. v = PDict d \<and> alert_fails d e)"
proof (cases v)
  case (PDict d)
  have "raises (\<lambda>e. (\<exists>r. e = AlertError r) \<or> alert_fails d e) (validate_alert v)"
    using raises_values [of d] unfolding PDict validate_alert_def
    by (auto simp: raises_def rbind_eq_Inl)
  with assms PDict show ?thesis by (auto simp: raises_def)
qed (use assms in \<open>auto simp: validate_alert_def\<close>)

end
