(* ===== verification/Ocsf_Score.thy ===== *)
theory Ocsf_Score
  imports Ocsf_Mapper
begin

text \<open>
  The float arithmetic of \<^verbatim>\<open>round(confidence * 100)\<close>: the score of a confidence is within a quarter of a
  hundredth of it, so the bands of \<^verbatim>\<open>confidence_level\<close> are bands of the score.
\<close>

abbreviation f64_value :: "f64 \<Rightarrow> nat" where
  "f64_value x \<equiv> mag_val (f64_mag x)"

section \<open>Floats at the quarters\<close>

lemma quarter_float:
  assumes "0 < n" and "n < 9007199254740992"
  obtains M where "mag_val M * 4 = n * f64_unit" and "M < inf_mag"
proof
  define L where "L = floorlog 2 n"
  define m where "m = n * 2 ^ (53 - L)"
  have i: "int_mag n = (1021 + L) * 4503599627370496 + m" using assms(1) by (simp add: int_mag_def L_def m_def)
  have b: "2 ^ (L - 1) \<le> n" "n < 2 ^ L" using floorlog_bounds [of n 2] assms(1) by (auto simp: L_def)
  have "n < 2 ^ 53" using assms(2) by simp
  then have "L \<le> 53" unfolding L_def by (intro floorlog_leI) simp_all
  moreover have "0 < L" using assms(1) b by (cases L) auto
  ultimately have L: "L \<le> 53" "0 < L" by simp_all
  have "(2::nat) ^ 52 = 2 ^ (L - 1) * 2 ^ (53 - L)" using L by (simp flip: power_add)
  also have "\<dots> \<le> m" unfolding m_def using b(1) by (rule mult_right_mono) simp
  finally have m1: "4503599627370496 \<le> m" by simp
  have "m < 2 ^ L * 2 ^ (53 - L)" unfolding m_def using b(2) by simp
  also have "\<dots> = 2 ^ 53" using L by (simp flip: power_add)
  finally have m2: "m < 9007199254740992" by simp
  let ?M = "(1019 + L) * 4503599627370496 + m"
  have "mag_val ?M * 4 = m * 2 ^ (1021 + L)"
    using mag_val_of [OF m1 m2, of "1019 + L"] by (simp add: power_add)
  also have "\<dots> = n * f64_unit" using L by (simp add: f64_unit_def m_def mult.assoc flip: power_add)
  finally show "mag_val ?M * 4 = n * f64_unit" .
  show "?M < inf_mag" using m2 L(1) by (simp add: inf_mag_def)
qed

lemma round_quarter:
  assumes "0 < d"
  shows "(4 * k - 1) * d \<le> 4 * n \<Longrightarrow> k \<le> round_half_even n d"
    and "4 * n \<le> (4 * k + 1) * d \<Longrightarrow> round_half_even n d \<le> k"
proof -
  note c = round_half_even_close [OF assms, of n]
  show "k \<le> round_half_even n d" if "(4 * k - 1) * d \<le> 4 * n"
  proof (rule ccontr)
    assume "\<not> k \<le> round_half_even n d"
    then have "(round_half_even n d + 1) * d \<le> k * d" by (intro mult_right_mono) simp_all
    moreover have "4 * (k * d) - d \<le> 4 * n" using that by (simp add: algebra_simps diff_mult_distrib)
    ultimately show False using c(2) assms by (simp add: algebra_simps)
  qed
  show "round_half_even n d \<le> k" if "4 * n \<le> (4 * k + 1) * d"
  proof (rule ccontr)
    assume "\<not> round_half_even n d \<le> k"
    then have "(k + 1) * d \<le> round_half_even n d * d" by (intro mult_right_mono) simp_all
    with that c(1) assms show False by (simp add: algebra_simps)
  qed
qed

section \<open>The score\<close>

lemma times_hundred:
  "f64_mag (f64_mul c (f64_of_dec False 100 0)) = min (round_units (f64_value c * (100 * f64_unit)) f64_unit) inf_mag"
proof -
  have I: "mag_val (int_mag 100) = 100 * f64_unit" "int_mag 100 < inf_mag"
    using mag_val_int_mag [of 100] by simp_all
  have "dec_mag 100 0 = int_mag 100"
    using round_units_exact [of 1 "int_mag 100"] I(1) by (simp add: dec_mag_def)
  then have "f64_value (f64_of_dec False 100 0) = 100 * f64_unit"
    using I by (simp add: f64_of_dec_def inf_mag_def)
  moreover have "min (round_units N d) inf_mag < 9223372036854775808" for N d by (simp add: inf_mag_def min_def)
  ultimately show ?thesis by (simp add: f64_mul_def)
qed

lemma score_ge:
  assumes "0 < k" and "k < 1000" and "(4 * k - 1) * f64_unit \<le> f64_value c * 400"
  shows "int k \<le> confidence_score c"
proof -
  obtain M where M: "mag_val M * 4 = (4 * k - 1) * f64_unit" "M < inf_mag"
    by (rule quarter_float [of "4 * k - 1"]) (use assms in simp_all)
  have "mag_val M * f64_unit \<le> f64_value c * (100 * f64_unit)" using M(1) assms(3) by simp
  then have "M \<le> round_units (f64_value c * (100 * f64_unit)) f64_unit" by (intro round_units_ge) simp_all
  with M(2) have "mag_val M \<le> mag_val (min (round_units (f64_value c * (100 * f64_unit)) f64_unit) inf_mag)"
    by (simp add: mag_val_le_iff)
  with M(1) show ?thesis
    unfolding confidence_score_def times_hundred by (intro of_nat_mono round_quarter(1)) simp_all
qed

lemma score_le:
  assumes "k < 1000" and "f64_value c * 400 \<le> (4 * k + 1) * f64_unit"
  shows "confidence_score c \<le> int k"
proof -
  obtain M where M: "mag_val M * 4 = (4 * k + 1) * f64_unit" "M < inf_mag"
    by (rule quarter_float [of "4 * k + 1"]) (use assms in simp_all)
  have "f64_value c * (100 * f64_unit) \<le> mag_val M * f64_unit" using M(1) assms(2) by simp
  then have "round_units (f64_value c * (100 * f64_unit)) f64_unit \<le> M" by (intro round_units_le) simp_all
  then have "mag_val (min (round_units (f64_value c * (100 * f64_unit)) f64_unit) inf_mag) \<le> mag_val M"
    by (simp add: mag_val_le_iff)
  with M(1) show ?thesis
    unfolding confidence_score_def times_hundred by (intro of_nat_mono round_quarter(2)) simp_all
qed

section \<open>The bands\<close>

text \<open>\<^verbatim>\<open>0.90\<close> and \<^verbatim>\<open>0.60\<close> as floats.\<close>

lemma hundredths_mag:
  assumes "2 ^ 1073 \<le> c * f64_unit div 100" and "c * f64_unit div 100 < 2 ^ 1074"
  shows "dec_mag c 2 = 1021 * 4503599627370496 + round_half_even (c * 2 ^ 53) 100"
proof -
  have "floorlog 2 (c * f64_unit div 100) = 1074"
    using assms by (intro antisym floorlog_leI floorlog_geI) simp_all
  moreover have "round_half_even (c * f64_unit) (100 * 2 ^ 1021) = round_half_even (c * 2 ^ 53) 100"
    using round_half_even_scale [of "2 ^ 1021" "c * 2 ^ 53" 100]
    by (simp add: f64_unit_def mult.assoc flip: power_add)
  ultimately show ?thesis by (simp add: dec_mag_def round_units_def power2_eq_square)
qed

lemma bands_mag:
  "dec_mag 90 2 = 4606281698874543309" "dec_mag 60 2 = 4603579539098121011"
proof -
  have "2 ^ 1073 \<le> c * f64_unit div 100 \<and> c * f64_unit div 100 < 2 ^ 1074" if "60 \<le> c" "c < 100" for c :: nat
  proof -
    have u: "f64_unit = 2 * 2 ^ 1073" by (simp add: f64_unit_def)
    have "2 ^ 1073 * 100 \<le> c * f64_unit" using that(1) unfolding u by (simp del: power_numeral)
    moreover have "c * f64_unit < 2 ^ 1074 * 100" using that(2) by (simp add: f64_unit_def del: power_numeral)
    ultimately show ?thesis by (simp add: less_eq_div_iff_mult_less_eq div_less_iff_less_mult del: power_numeral)
  qed
  then have "dec_mag c 2 = 1021 * 4503599627370496 + round_half_even (c * 2 ^ 53) 100"
    if "60 \<le> c" "c < 100" for c
    using hundredths_mag that by blast
  from this [of 90] this [of 60] show "dec_mag 90 2 = 4606281698874543309" "dec_mag 60 2 = 4603579539098121011"
    by (simp_all add: round_half_even_def)
qed

lemma bands_value:
  "f64_value f64_090 = 8106479329266893 * 2 ^ 1021" "f64_value f64_060 = 5404319552844595 * 2 ^ 1021"
proof -
  have v: "mag_val (1021 * 4503599627370496 + m) = m * 2 ^ 1021"
    if "4503599627370496 \<le> m" "m < 9007199254740992" for m using mag_val_of [OF that] .
  have "f64_mag f64_090 = 1021 * 4503599627370496 + 8106479329266893"
    "f64_mag f64_060 = 1021 * 4503599627370496 + 5404319552844595"
    by (simp_all add: f64_090_def f64_060_def f64_of_dec_def bands_mag inf_mag_def)
  then show "f64_value f64_090 = 8106479329266893 * 2 ^ 1021" "f64_value f64_060 = 5404319552844595 * 2 ^ 1021"
    using v [of 8106479329266893] v [of 5404319552844595] by (simp_all del: power_numeral)
qed

lemma unit_interval_value:
  "f64_le f64_zero x \<Longrightarrow> f64_le y x \<Longrightarrow> \<not> f64_neg y \<Longrightarrow> f64_value y \<le> f64_value x"
  "f64_le f64_zero x \<Longrightarrow> \<not> f64_neg y \<Longrightarrow> f64_le x y \<Longrightarrow> f64_value x \<le> f64_value y"
  "f64_le f64_zero x \<Longrightarrow> \<not> f64_neg y \<Longrightarrow> \<not> f64_isnan y \<Longrightarrow> \<not> f64_le y x \<Longrightarrow> f64_value x \<le> f64_value y"
  by (auto simp: f64_le_def f64_key_def f64_zero_def mag_val_le_iff split: if_splits)

lemma one_value: "f64_value f64_one = f64_unit"
  using mag_val_int_mag [of 1] by (simp add: f64_one_def int_mag_def floorlog_def)

lemma band_floats: "\<not> f64_neg f64_090" "\<not> f64_neg f64_060" "\<not> f64_isnan f64_090" "\<not> f64_isnan f64_060" "\<not> f64_neg f64_one"
  by (simp_all add: f64_090_def f64_060_def f64_of_dec_def bands_mag inf_mag_def f64_isnan_def f64_one_def)

text \<open>The score of a confidence lies in the band of its level.\<close>

theorem score_bands:
  assumes "f64_le f64_zero x" and "f64_le x f64_one"
  shows "0 \<le> confidence_score x" and "confidence_score x \<le> 100"
    and "confidence_level x = ''high'' \<Longrightarrow> 90 \<le> confidence_score x"
    and "confidence_level x = ''borderline'' \<Longrightarrow> 60 \<le> confidence_score x \<and> confidence_score x \<le> 90"
    and "confidence_level x = ''low'' \<Longrightarrow> confidence_score x \<le> 60"
proof -
  define e :: nat where "e = 2 ^ 1021"
  have u: "f64_unit = 9007199254740992 * e" by (simp add: f64_unit_def e_def)
  note v = bands_value [folded e_def]
  note b = unit_interval_value [OF assms(1)]
  show "0 \<le> confidence_score x" by (simp add: confidence_score_def)
  have "f64_value x \<le> f64_unit" using b(2) [OF band_floats(5) assms(2)] by (simp add: one_value)
  then show "confidence_score x \<le> 100" using score_le [of 100 x] by simp
  have hi: "90 \<le> confidence_score x" if "f64_le f64_090 x"
  proof -
    have "8106479329266893 * e \<le> f64_value x" using b(1) [OF that band_floats(1)] by (simp only: v)
    then have "(4 * 90 - 1) * f64_unit \<le> f64_value x * 400" unfolding u by simp
    then show ?thesis using score_ge [of 90 x] by simp
  qed
  have mid: "60 \<le> confidence_score x" if "f64_le f64_060 x"
  proof -
    have "5404319552844595 * e \<le> f64_value x" using b(1) [OF that band_floats(2)] by (simp only: v)
    then have "(4 * 60 - 1) * f64_unit \<le> f64_value x * 400" unfolding u by simp
    then show ?thesis using score_ge [of 60 x] by simp
  qed
  have hi2: "confidence_score x \<le> 90" if "\<not> f64_le f64_090 x"
  proof -
    have "f64_value x \<le> 8106479329266893 * e"
      using b(3) [OF band_floats(1,3) that] by (simp only: v)
    then have "f64_value x * 400 \<le> (4 * 90 + 1) * f64_unit" unfolding u by simp
    then show ?thesis using score_le [of 90 x] by simp
  qed
  have mid2: "confidence_score x \<le> 60" if "\<not> f64_le f64_060 x"
  proof -
    have "f64_value x \<le> 5404319552844595 * e"
      using b(3) [OF band_floats(2,4) that] by (simp only: v)
    then have "f64_value x * 400 \<le> (4 * 60 + 1) * f64_unit" unfolding u by simp
    then show ?thesis using score_le [of 60 x] by simp
  qed
  show "confidence_level x = ''high'' \<Longrightarrow> 90 \<le> confidence_score x"
    "confidence_level x = ''borderline'' \<Longrightarrow> 60 \<le> confidence_score x \<and> confidence_score x \<le> 90"
    "confidence_level x = ''low'' \<Longrightarrow> confidence_score x \<le> 60"
    using hi mid hi2 mid2 by (auto simp: confidence_level_def split: if_splits)
qed

end
