(* ===== verification/Py_Json_Ascii_Roundtrip.thy ===== *)
theory Py_Json_Ascii_Roundtrip
  imports Py_Json_Ascii
begin

text \<open>
  \<^verbatim>\<open>json.loads\<close> of the ASCII text of a value gives the value back, its object keys sorted: the escapes of
  \<^verbatim>\<open>ensure_ascii\<close> are undone by the scanner, surrogate pairs included.
\<close>

section \<open>Values that survive\<close>

text \<open>
  A pair of surrogates written as two escapes is read as one character, so the texts must hold none; and \<^verbatim>\<open>NaN\<close>
  is read as the standard one, so the floats must be finite.
\<close>

primrec plain_val :: "pyval \<Rightarrow> bool" where
  "plain_val PNone = True"
| "plain_val (PBool b) = True"
| "plain_val (PInt n) = True"
| "plain_val (PFloat x) = f64_isfinite x"
| "plain_val (PStr s) = scalar_str s"
| "plain_val (PList vs) = list_all id (map plain_val vs)"
| "plain_val (PDict kvs) = list_all (\<lambda>(k, b). scalar_str (key_text k) \<and> b) (map (map_prod id plain_val) kvs)"
| "plain_val (POther t) = True"

lemma plain_val_PDict [simp]:
  "plain_val (PDict kvs) \<longleftrightarrow> (\<forall>kv \<in> set kvs. scalar_str (key_text (fst kv)) \<and> plain_val (snd kv))"
  by (auto simp: list_all_iff split: prod.splits)

lemma plain_val_PList [simp]: "plain_val (PList vs) \<longleftrightarrow> (\<forall>v \<in> set vs. plain_val v)"
  by (auto simp: list_all_iff)

declare plain_val.simps(6,7) [simp del]

text \<open>
  A high surrogate directly followed by a low one is what does not survive; a single surrogate does. \<open>val_all\<close> asks a property of
  every text of a value, keys included, and one of every float.
\<close>

definition is_high :: "nat \<Rightarrow> bool" where
  "is_high c \<longleftrightarrow> 0xD800 \<le> c \<and> c \<le> 0xDBFF"

definition is_low :: "nat \<Rightarrow> bool" where
  "is_low c \<longleftrightarrow> 0xDC00 \<le> c \<and> c \<le> 0xDFFF"

fun pairless :: "pystr \<Rightarrow> bool" where
  "pairless (c # d # s) \<longleftrightarrow> \<not> (is_high c \<and> is_low d) \<and> pairless (d # s)"
| "pairless s = True"

primrec val_all :: "(pystr \<Rightarrow> bool) \<Rightarrow> (f64 \<Rightarrow> bool) \<Rightarrow> pyval \<Rightarrow> bool" where
  "val_all P F PNone = True"
| "val_all P F (PBool b) = True"
| "val_all P F (PInt n) = True"
| "val_all P F (PFloat x) = F x"
| "val_all P F (PStr s) = P s"
| "val_all P F (PList vs) = list_all id (map (val_all P F) vs)"
| "val_all P F (PDict kvs) = list_all (\<lambda>(k, b). P (key_text k) \<and> b) (map (map_prod id (val_all P F)) kvs)"
| "val_all P F (POther t) = True"

lemma val_all_PDict [simp]:
  "val_all P F (PDict kvs) \<longleftrightarrow> (\<forall>kv \<in> set kvs. P (key_text (fst kv)) \<and> val_all P F (snd kv))"
  by (auto simp: list_all_iff split: prod.splits)

lemma val_all_PList [simp]: "val_all P F (PList vs) \<longleftrightarrow> (\<forall>v \<in> set vs. val_all P F v)"
  by (auto simp: list_all_iff)

declare val_all.simps(6,7) [simp del]

abbreviation readable_val :: "pyval \<Rightarrow> bool" where
  "readable_val v \<equiv> val_all pairless f64_isfinite v"

lemma pairless_Cons: "pairless (c # s) \<longleftrightarrow> (\<forall>d s'. s = d # s' \<longrightarrow> \<not> (is_high c \<and> is_low d)) \<and> pairless s"
  by (cases s) auto

lemma pairless_append: "pairless s \<Longrightarrow> pairless (c # t) \<Longrightarrow> \<not> is_low c \<Longrightarrow> pairless (s @ c # t)"
proof (induction s)
  case (Cons d s)
  then show ?case by (cases s) simp_all
qed simp

lemma scalar_pairless: "scalar_str s \<Longrightarrow> pairless s"
  by (induction s rule: pairless.induct) (auto simp: is_high_def is_surrogate_def)

lemma plain_readable: "plain_val v \<Longrightarrow> readable_val v"
  by (induction v rule: pyval_induct) (auto intro: scalar_pairless)

section \<open>Escapes\<close>

lemma hex4_hex4_text:
  assumes "u < 0x10000"
  shows "hex4 (drop 2 (hex4_text u) @ r) = Some (u, r)"
proof -
  have digits: "a * 16 + b = p \<Longrightarrow> p * 16 + c = q \<Longrightarrow> q * 16 + d = u \<Longrightarrow> a * 4096 + b * 256 + c * 16 + d = u"
    for a b c d p q :: nat by simp
  have "u div 16 div 16 = u div 256" "u div 256 div 16 = u div 4096" by (simp_all flip: div_mult2_eq)
  then have "u div 4096 * 4096 + u div 256 mod 16 * 256 + u div 16 mod 16 * 16 + u mod 16 = u"
    using digits [of "u div 4096" "u div 256 mod 16" "u div 256" "u div 16 mod 16" "u div 16" "u mod 16"]
      div_mult_mod_eq [of u 16] div_mult_mod_eq [of "u div 16" 16] div_mult_mod_eq [of "u div 256" 16] by metis
  moreover have "u div 4096 < 16" using assms by (simp add: div_less_iff_less_mult)
  ultimately show ?thesis by (simp add: hex4_text_def)
qed

lemma scan_string_unicode:
  "unicode_escape s = Some (u, r) \<Longrightarrow> scan_string (92 # 117 # s) = map_option (map_prod (Cons u) id) (scan_string r)"
  by simp

lemma escape_ascii_low:
  assumes "127 \<le> c" and "c < 0x10000"
  shows "escape_ascii c = 92 # 117 # drop 2 (hex4_text c)"
  using assms by (simp add: escape_ascii_def hex4_text_def)

lemma escape_ascii_pair:
  assumes "0x10000 \<le> c" and "c < 0x110000"
  obtains hi lo where "is_high hi" and "is_low lo" and "0x10000 + (hi - 0xD800) * 1024 + (lo - 0xDC00) = c"
    and "escape_ascii c = 92 # 117 # drop 2 (hex4_text hi) @ hex4_text lo"
proof -
  define hi where "hi = 0xD800 + (c - 0x10000) div 1024"
  define lo where "lo = 0xDC00 + (c - 0x10000) mod 1024"
  have "is_high hi" "is_low lo" "0x10000 + (hi - 0xD800) * 1024 + (lo - 0xDC00) = c"
    using assms by (simp_all add: hi_def lo_def is_high_def is_low_def)
  moreover have "escape_ascii c = 92 # 117 # drop 2 (hex4_text hi) @ hex4_text lo"
    using assms(1) by (simp add: escape_ascii_def hi_def lo_def) (simp add: hex4_text_def)
  ultimately show thesis by (rule that)
qed

text \<open>The text after a surrogate that stands alone does not start with the escape of a low one.\<close>

definition no_low_escape :: "pystr \<Rightarrow> bool" where
  "no_low_escape s \<longleftrightarrow> (case strip_prefix [92, 117] s of
     None \<Rightarrow> True | Some r \<Rightarrow> (case hex4 r of None \<Rightarrow> False | Some (u, r') \<Rightarrow> \<not> is_low u))"

lemma no_low_escapeI:
  "hex4 r = Some (u, r') \<Longrightarrow> \<not> is_low u \<Longrightarrow> no_low_escape (92 # 117 # r)"
  by (simp add: no_low_escape_def strip_prefix_def)

lemma hex4_zero:
  "d < 32 \<Longrightarrow> hex4 (48 # 48 # hex_digit (d div 16) # hex_digit (d mod 16) # r) = Some (d, r)"
  using hex4_hex4_text [of d r] by (simp add: hex4_text_def hex_digit_def)

lemma no_low_escape_ascii:
  assumes "d < 0x110000" and "\<not> is_low d"
  shows "no_low_escape (escape_ascii d @ s)"
proof -
  consider "d < 127" | "127 \<le> d" "d < 0x10000" | "0x10000 \<le> d" by linarith
  then show ?thesis
  proof cases
    case 1
    have "\<not> is_low d" using 1 by (simp add: is_low_def)
    then show ?thesis
      using 1 no_low_escapeI [OF hex4_zero]
      by (auto simp: escape_ascii_def escape_char_def no_low_escape_def strip_prefix_def hex4_zero)
  next
    case 2
    from no_low_escapeI [OF hex4_hex4_text [OF 2(2)] assms(2)] show ?thesis by (simp add: escape_ascii_low [OF 2])
  next
    case 3
    then obtain hi lo where h: "is_high hi" "escape_ascii d = 92 # 117 # drop 2 (hex4_text hi) @ hex4_text lo"
      using assms(1) by (rule escape_ascii_pair)
    then have "\<not> is_low hi" "hi < 0x10000" by (simp_all add: is_high_def is_low_def)
    from no_low_escapeI [OF hex4_hex4_text [OF this(2)] this(1)] show ?thesis by (simp add: h(2))
  qed
qed

lemma scan_string_ascii:
  assumes "c < 0x110000" and "is_high c \<Longrightarrow> no_low_escape s"
  shows "scan_string (escape_ascii c @ s) = map_option (map_prod (Cons c) id) (scan_string s)"
proof -
  consider "c < 127" | "127 \<le> c" "c < 0x10000" | "0x10000 \<le> c" by linarith
  then show ?thesis
  proof cases
    case 1
    then show ?thesis by (simp add: escape_ascii_def scan_string_escape)
  next
    case 2
    have "unicode_escape (drop 2 (hex4_text c) @ s) = Some (c, s)"
      using hex4_hex4_text [OF 2(2), of s] assms(2)
      by (auto simp: unicode_escape_def no_low_escape_def is_high_def is_low_def split: option.splits)
    then show ?thesis using scan_string_unicode by (simp add: escape_ascii_low [OF 2])
  next
    case 3
    then obtain hi lo where h: "is_high hi" "is_low lo" "0x10000 + (hi - 0xD800) * 1024 + (lo - 0xDC00) = c"
      "escape_ascii c = 92 # 117 # drop 2 (hex4_text hi) @ hex4_text lo"
      using assms(1) by (rule escape_ascii_pair)
    have b: "hi < 0x10000" "lo < 0x10000" using h by (simp_all add: is_high_def is_low_def)
    have "strip_prefix [92, 117] (hex4_text lo @ s) = Some (drop 2 (hex4_text lo) @ s)"
      by (simp add: strip_prefix_def hex4_text_def)
    then have "unicode_escape (drop 2 (hex4_text hi) @ hex4_text lo @ s) = Some (c, s)"
      using h(1-3) hex4_hex4_text [OF b(1), of "hex4_text lo @ s"] hex4_hex4_text [OF b(2), of s]
      by (simp add: unicode_escape_def is_high_def is_low_def)
    then show ?thesis using scan_string_unicode by (simp add: h(4))
  qed
qed

lemma scan_quote_ascii:
  "wf_str s \<Longrightarrow> pairless s \<Longrightarrow> scan_string (concat (map escape_ascii s) @ 34 # r) = Some (s, r)"
proof (induction s)
  case (Cons c s)
  have "no_low_escape (concat (map escape_ascii s) @ 34 # r)" if "is_high c"
  proof (cases s)
    case (Cons d s')
    with Cons.prems that have "d < 0x110000" "\<not> is_low d" by simp_all
    then show ?thesis using no_low_escape_ascii by (simp add: Cons)
  qed (simp add: no_low_escape_def strip_prefix_def)
  moreover have "c < 0x110000" "wf_str s" "pairless s" using Cons.prems by (simp_all add: pairless_Cons)
  ultimately show ?case using Cons.IH by (simp add: scan_string_ascii)
qed simp

lemma quotes_ascii: "wf_str s \<Longrightarrow> pairless s \<Longrightarrow> quotes (quote_ascii s) s"
  by (simp add: quotes_def quote_ascii_def scan_quote_ascii)

section \<open>Values\<close>

theorem reads_ascii: "ascii_text v = Some t \<Longrightarrow> wf_val v \<Longrightarrow> readable_val v \<Longrightarrow> reads t (norm_val v)"
proof (induction v arbitrary: t rule: pyval_induct)
  case (PFloat x)
  then show ?case by (auto simp: any_float_text_def intro!: reads_number float_text_read split: if_splits)
next
  case (PStr s)
  then show ?case by (auto simp: reads_def quote_ascii_def scan_once.simps scan_quote_ascii)
next
  case (PList vs)
  then obtain us where us: "t = 91 # join_comma us @ [93]"
    and "list_all2 (\<lambda>v u. ascii_text v = Some u) vs us"
    by (auto simp: array_text_def those_Some_iff list_all2_map1)
  then have "list_all2 reads us (map norm_val vs)"
    using PList by (auto simp: list_all2_conv_all_nth)
  then show ?case using reads_array us by simp
next
  case (PDict kvs)
  obtain kts where t: "t = 123 # join_comma (map ascii_member (sort_key fst kts)) @ [125]"
    and kts: "list_all2 (\<lambda>kv kt. fst kv = KStr (fst kt) \<and> ascii_text (snd kv) = Some (snd kt)) kvs kts"
    using PDict.prems(1) by (auto simp: ascii_object_def members_those simp del: map_map)
  have "quotes (quote_ascii (fst kt)) (fst kt)" if kt: "kt \<in> set kts" for kt
  proof -
    obtain kv where "kv \<in> set kvs" "fst kv = KStr (fst kt)" using list_all2_left [OF kts kt] by blast
    then have "wf_str (fst kt)" "pairless (fst kt)" using PDict.prems(2,3) by force+
    then show ?thesis by (rule quotes_ascii)
  qed
  then show ?case
    unfolding t norm_val.simps ascii_member_def using kts
    by (intro reads_sorted_object) (use PDict in auto)
qed (auto simp: reads_constants intro: reads_int split: if_splits)

lemma loads_ascii:
  assumes "ascii_text v = Some t" and "wf_val v" and "readable_val v"
  shows "loads_text t = Inr (norm_val v)"
proof -
  have rd: "reads t (norm_val v)" using assms by (rule reads_ascii)
  have "t \<noteq> []" using rd by (auto simp: reads_def)
  then have "hd t \<noteq> 0xFEFF" using ascii_text_line [OF assms(1,2)] by (cases t) auto
  moreover have "skip_ws t = t" using skip_ws_reads [OF rd, of "[]"] by simp
  moreover have "scan_once t = Inr (norm_val v, [])" using rd by (auto simp: reads_def dest: spec [of _ "[]"])
  ultimately show ?thesis by (simp add: loads_text_def) (simp add: skip_ws_def)
qed

section \<open>Well-formed JSON values\<close>

lemma wf_lit: "wf_str (lit s)"
  using scalar_lit by (auto simp: scalar_str_def wf_str_def list_all_iff)

lemma wf_json_simps [simp]:
  "wf_json PNone" "wf_json (PBool b)" "wf_json (PFloat x)" "wf_json (PStr s) \<longleftrightarrow> wf_str s"
  "wf_json (PList vs) \<longleftrightarrow> (\<forall>v \<in> set vs. wf_json v)"
  by (auto simp: wf_json_def)

lemma wf_json_int: "\<bar>n\<bar> < 2 ^ 64 \<Longrightarrow> wf_json (PInt n)"
  by (simp add: wf_json_def short_int)

lemma dget_wf: "wf_json (PDict d) \<Longrightarrow> dget d k = Some v \<Longrightarrow> wf_json v"
  by (auto simp: dget_def wf_json_PDict dest!: map_of_SomeD)

text \<open>Updating a dictionary with the items of another, as \<^verbatim>\<open>dict.update\<close> does.\<close>

definition dict_update :: "pydict \<Rightarrow> pydict \<Rightarrow> pydict" where
  "dict_update d e = fold (\<lambda>(k, v). AList.update k v) e d"

lemma map_of_dict_update:
  "distinct (map fst e) \<Longrightarrow> map_of (dict_update d e) k = (case map_of e k of Some v \<Rightarrow> Some v | None \<Rightarrow> map_of d k)"
proof (induction e arbitrary: d)
  case (Cons kv e)
  obtain a v where kv: "kv = (a, v)" by (cases kv)
  have new: "map_of e a = None" "distinct (map fst e)" using Cons.prems kv by (simp_all add: map_of_eq_None_iff)
  have "dict_update d (kv # e) = dict_update (AList.update a v d) e" by (simp add: dict_update_def kv)
  then show ?case using Cons.IH [OF new(2), of "AList.update a v d"] new(1)
    by (simp add: kv update_conv' split: option.split)
qed (simp add: dict_update_def)

lemma wf_dict_update:
  "wf_json (PDict d) \<Longrightarrow> wf_json (PDict e) \<Longrightarrow> wf_json (PDict (dict_update d e))"
proof (induction e arbitrary: d)
  case (Cons kv e)
  obtain a v where av: "kv = (a, v)" by (cases kv)
  then have "is_kstr a" using Cons.prems(2) by (simp add: wf_json_PDict)
  then obtain k where k: "a = KStr k" by (cases a) auto
  have "wf_json (PDict (AList.update a v d))"
    unfolding k using Cons.prems av k by (intro wf_json_update) (simp_all add: wf_json_PDict)
  moreover have "wf_json (PDict e)" using Cons.prems(2) by (simp add: wf_json_PDict)
  ultimately have "wf_json (PDict (dict_update (AList.update a v d) e))" by (rule Cons.IH)
  then show ?case by (simp add: dict_update_def av)
qed (simp add: dict_update_def)

lemma dict_update_all:
  assumes "val_all P F (PDict d)" and "val_all P F (PDict e)"
  shows "val_all P F (PDict (dict_update d e))"
proof -
  have u: "kv \<in> set (AList.update k v d) \<Longrightarrow> kv \<in> set d \<or> kv = (k, v)" for kv k v and d :: pydict
    by (induction d) (auto split: if_splits)
  show ?thesis using assms
  proof (induction e arbitrary: d)
    case (Cons kv e)
    obtain a v where av: "kv = (a, v)" by (cases kv)
    have "val_all P F (PDict (AList.update a v d))"
      unfolding val_all_PDict using Cons.prems av u [of _ a v d] by (metis list.set_intros(1) val_all_PDict)
    moreover have "val_all P F (PDict e)" using Cons.prems(2) by simp
    ultimately have "val_all P F (PDict (dict_update (AList.update a v d) e))" by (rule Cons.IH)
    then show ?case by (simp add: dict_update_def av)
  qed (simp add: dict_update_def)
qed

end
