(* ===== verification/Ocsf_Outputs.thy ===== *)
theory Ocsf_Outputs
  imports Ocsf_Alerts Ocsf_Score Py_Json_Ascii_Roundtrip
begin

text \<open>
  What the two output formats are made of on a valid alert: the fields the contract gives, the time in
  milliseconds, the lookups of the events and the leaves of the flat form.
\<close>

section \<open>The fields of a valid alert\<close>

lemma alert_ok_parts:
  assumes "alert_ok d"
  shows "\<forall>k \<in> {''event_id'', ''node_id'', ''site_id'', ''zone_id'', ''model_id''}. item_ok d k text_ok"
    and "item_ok d ''ts_utc'' alert_time_ok" and "item_ok d ''class'' (one_of CLASSES)"
    and "\<forall>k \<in> {''csi_window_sha256'', ''record_hash''}. given d k hash_ok"
    and "\<forall>k \<in> {''sequence_number'', ''seq''}. given d k natural_ok"
    and "dget d ''schema_version'' = Some (PStr (lit SOC_SCHEMA_VERSION))"
    and "dget d ''source'' = Some (PStr (lit ''vestrix''))"
    and "item_ok d ''pacs_event_status'' (\<lambda>s. item_ok d ''pacs_reader_id'' (\<lambda>r. item_ok d ''pacs_event_id'' (pacs_ok s r)))"
    and "item_ok d ''top_shap'' shap_ok"
    and "item_ok d ''confidence'' (\<lambda>v. finite_ok v \<and> in_unit_interval v \<and>
       dget d ''confidence_level'' = Some (PStr (lit (confidence_level (float_of v)))))"
    and "set (dkeys d) \<subseteq> named_keys (REQUIRED_FIELDS @ OPTIONAL_FIELDS)"
  using assms unfolding alert_ok_def by - (elim conjE, assumption)+

lemma alert_fields:
  assumes "alert_ok d"
  shows "\<exists>c. dget d ''confidence'' = Some c \<and> finite_ok c \<and> in_unit_interval c \<and>
      dget d ''confidence_level'' = Some (PStr (lit (confidence_level (float_of c))))"
    and "\<exists>t. dget d ''ts_utc'' = Some (PStr (str_item d ''ts_utc'')) \<and> fromisoformat_utc (str_item d ''ts_utc'') = Some t"
    and "\<exists>c \<in> set CLASSES. dget d ''class'' = Some (PStr (lit c))"
    and "\<exists>items. dget d ''top_shap'' = Some (PList items) \<and> (\<forall>item \<in> set items. shap_item_ok item)"
    and "k \<in> {''event_id'', ''node_id'', ''site_id'', ''zone_id'', ''model_id''} \<Longrightarrow> dget d k = Some (PStr (str_item d k))"
proof -
  have i: "\<exists>v. dget d k = Some v \<and> P v" if "item_ok d k P" for k P
    using that by (auto simp: item_ok_def split: option.splits)
  show "\<exists>c. dget d ''confidence'' = Some c \<and> finite_ok c \<and> in_unit_interval c \<and>
      dget d ''confidence_level'' = Some (PStr (lit (confidence_level (float_of c))))"
    using i [OF alert_ok_parts(10) [OF assms]] .
  from i [OF alert_ok_parts(2) [OF assms]] obtain v where v: "dget d ''ts_utc'' = Some v" "alert_time_ok v" by blast
  then show "\<exists>t. dget d ''ts_utc'' = Some (PStr (str_item d ''ts_utc'')) \<and> fromisoformat_utc (str_item d ''ts_utc'') = Some t"
    by (cases v) (auto simp: str_item_def)
  from i [OF alert_ok_parts(3) [OF assms]] obtain v where v: "dget d ''class'' = Some v" "one_of CLASSES v" by blast
  then show "\<exists>c \<in> set CLASSES. dget d ''class'' = Some (PStr (lit c))" by (cases v) auto
  from i [OF alert_ok_parts(9) [OF assms]] obtain v where v: "dget d ''top_shap'' = Some v" "shap_ok v" by blast
  then show "\<exists>items. dget d ''top_shap'' = Some (PList items) \<and> (\<forall>item \<in> set items. shap_item_ok item)"
    by (cases v) auto
  assume "k \<in> {''event_id'', ''node_id'', ''site_id'', ''zone_id'', ''model_id''}"
  then have "item_ok d k text_ok" by (rule bspec [OF alert_ok_parts(1) [OF assms]])
  from i [OF this] obtain v where v: "dget d k = Some v" "text_ok v" by blast
  then show "dget d k = Some (PStr (str_item d k))" by (cases v) (auto simp: str_item_def)
qed

lemma unit_float:
  assumes "finite_ok c" and "in_unit_interval c"
  shows "f64_le f64_zero (float_of c)" and "f64_le (float_of c) f64_one"
proof -
  have one: "int_mag 1 = 4607182418800017408" by (simp add: int_mag_def floorlog_def)
  have n: "n = 0 \<or> n = 1" if "0 \<le> n" "n \<le> 1" for n :: int using that by linarith
  have k: "float_of (PInt 0) = f64_zero" "float_of (PInt 1) = f64_one"
    using f64_of_int_exact [of 0] f64_of_int_exact [of 1] one int_mag_def [of 0]
    by (simp_all add: f64_zero_def f64_one_def)
  have le: "f64_le f64_zero f64_zero" "f64_le f64_zero f64_one" "f64_le f64_one f64_one"
    by (simp_all add: f64_le_def f64_isnan_def f64_key_def f64_zero_def f64_one_def inf_mag_def)
  show "f64_le f64_zero (float_of c)" "f64_le (float_of c) f64_one"
    using assms k le by (cases c; use n in force)+
qed

section \<open>The outputs\<close>

text \<open>A text or a number.\<close>

definition leaf :: "pyval \<Rightarrow> bool" where
  "leaf v = (case v of PStr s \<Rightarrow> True | PInt n \<Rightarrow> True | PFloat x \<Rightarrow> True | _ \<Rightarrow> False)"

text \<open>The two values of the first entry of \<^verbatim>\<open>top_shap\<close>, and those put in their place when there is none.\<close>

definition top_entry :: "pyval list \<Rightarrow> pyval \<Rightarrow> pyval \<Rightarrow> bool" where
  "top_entry items feature contribution =
     (case items of
        [] \<Rightarrow> feature = PStr (lit ''none'') \<and> contribution = PFloat f64_zero
      | item # _ \<Rightarrow>
          (\<exists>d. item = PDict d \<and> dget d ''feature'' = Some feature \<and> dget d ''value'' = Some contribution))"

lemma first_shap_ok:
  assumes "\<forall>item \<in> set items. shap_item_ok item"
  shows "\<exists>f c. first_shap (PList items) = Inr (f, c) \<and> leaf f \<and> leaf c \<and> top_entry items f c"
proof (cases items)
  case (Cons item rest)
  then have ok: "shap_item_ok item" using assms by simp
  then obtain d where d: "item = PDict d" by (cases item) auto
  obtain f c where "dget d ''feature'' = Some f" "text_ok f" "dget d ''value'' = Some c" "finite_ok c"
    using ok d by (auto simp: item_ok_def split: option.splits)
  moreover have "leaf f" "leaf c" using calculation by (cases f; cases c; simp add: leaf_def)+
  ultimately show ?thesis using Cons d by (simp add: first_shap_def alert_item_def top_entry_def)
qed (simp add: first_shap_def leaf_def top_entry_def)

lemma to_wazuh_parts:
  assumes "alert_ok d"
  obtains items f c where "to_wazuh (PDict d) = Inr (dset (dset (drop_none (filter (\<lambda>kv. fst kv \<noteq> KStr (lit ''top_shap'')) d))
      ''shap_top_feature'' f) ''shap_top_value'' c)" and "leaf f" and "leaf c"
    and "dget d ''top_shap'' = Some (PList items)" and "top_entry items f c"
proof -
  obtain items where i: "dget d ''top_shap'' = Some (PList items)" "\<forall>item \<in> set items. shap_item_ok item"
    using alert_fields(4) [OF assms] by blast
  obtain f c where "first_shap (PList items) = Inr (f, c)" "leaf f" "leaf c" "top_entry items f c"
    using first_shap_ok [OF i(2)] by blast
  moreover have "validate_alert (PDict d) = Inr d" using assms by (simp add: validate_alert_iff)
  ultimately show thesis using i(1) that [of f c items] by (simp add: to_wazuh_def alert_item_def)
qed

lemma to_wazuh_returns:
  assumes "alert_ok d"
  obtains w where "to_wazuh (PDict d) = Inr w"
  using to_wazuh_parts [OF assms] by metis

lemma level_text: "confidence_level x \<in> {''low'', ''borderline'', ''high''}"
  by (simp add: confidence_level_def)

lemma to_ocsf_returns:
  assumes "alert_ok d"
  obtains t n cid sev c where "fromisoformat_utc (str_item d ''ts_utc'') = Some t"
    and "to_epoch_millis (str_item d ''ts_utc'') = Inr n" and "severity d = Inr sev"
    and "f64_le f64_zero c" and "f64_le c f64_one" and "level_number (lit (confidence_level c)) = Inr cid"
    and "str_item d ''confidence_level'' = lit (confidence_level c)"
    and "to_ocsf (PDict d) = Inr (ocsf_event d n sev cid c)"
proof -
  obtain v where v: "dget d ''confidence'' = Some v" "finite_ok v" "in_unit_interval v"
    "dget d ''confidence_level'' = Some (PStr (lit (confidence_level (float_of v))))"
    using alert_fields(1) [OF assms] by blast
  obtain t where t: "fromisoformat_utc (str_item d ''ts_utc'') = Some t" using alert_fields(2) [OF assms] by blast
  then obtain n where n: "to_epoch_millis (str_item d ''ts_utc'') = Inr n" by (simp add: to_epoch_millis_def Let_def)
  have l: "str_item d ''confidence_level'' = lit (confidence_level (float_of v))" using v(4) by (simp add: str_item_def)
  obtain cid where cid: "level_number (lit (confidence_level (float_of v))) = Inr cid"
    using level_text [of "float_of v"] by (auto simp: level_number_def)
  have "severity d \<noteq> Inl e" for e
    using level_text [of "float_of v"] by (auto simp: severity_def l Let_def)
  then obtain sev where sev: "severity d = Inr sev" by (cases "severity d") auto
  have "validate_alert (PDict d) = Inr d" using assms by (simp add: validate_alert_iff)
  then have "to_ocsf (PDict d) = Inr (ocsf_event d n sev cid (float_of v))"
    using v(1,2) n cid sev l by (simp add: to_ocsf_def alert_item_def rbind_eq_Inr)
  with t n sev unit_float [OF v(2,3)] cid l that show thesis by blast
qed

section \<open>The time\<close>

lemma epoch_micros:
  "dt_micros \<lparr>dt_date = (1970, 1, 1), dt_hour = 0, dt_minute = 0, dt_second = 0, dt_micro = 0\<rparr> = 62135596800000000"
  by (simp add: dt_micros_def ymd2ord_def days_before_year_def days_before_month_def seconds_of_day_def)

lemma millis_of_parts:
  fixes u :: int
  shows "u div 86400000000 * 86400000 + u mod 86400000000 div 1000000 * 1000 + u mod 1000000 div 1000 = u div 1000"
proof -
  have th: "(a * 1000 + b) div 1000 = a + b div 1000" for a b :: int by simp
  define q where "q = u div 86400000000"
  define r where "r = u mod 86400000000"
  define m where "m = r mod 1000000"
  have u: "u = (q * 86400000) * 1000 + r" unfolding q_def r_def by presburger
  have r: "r = (r div 1000000 * 1000) * 1000 + m" unfolding m_def by presburger
  have "u mod 1000000 = m"
    unfolding m_def r_def using mod_mod_cancel [of 1000000 86400000000 u] by simp
  note m = this
  have u': "u div 1000 = q * 86400000 + r div 1000" by (rule trans [OF arg_cong [OF u, of "\<lambda>x. x div 1000"] th])
  have r': "r div 1000 = r div 1000000 * 1000 + m div 1000" by (rule trans [OF arg_cong [OF r, of "\<lambda>x. x div 1000"] th])
  show ?thesis unfolding q_def [symmetric] r_def [symmetric] m u' r' by (rule add.assoc)
qed

lemma epoch_millis_value:
  assumes "fromisoformat_utc s = Some t"
  shows "to_epoch_millis s = Inr ((int (dt_micros t) - 62135596800000000) div 1000)"
  using assms by (simp add: to_epoch_millis_def Let_def epoch_micros [simplified] millis_of_parts)

lemma dget_texts: "dget (map (\<lambda>(k, v). (KStr (lit k), v)) kvs) k = map_of kvs k"
  by (induction kvs) (auto simp: dget_def)

lemma ocsf_dget:
  "dget (ocsf_event d n sev cid c) ''time'' = Some (PInt n)"
  "dget (ocsf_event d n sev cid c) ''unmapped'' = Some (dict_of [(''vestrix'', PDict d)])"
  "dget (ocsf_event d n sev cid c) ''finding_info'' = Some (ocsf_finding d)"
  "dget (ocsf_event d n sev cid c) ''device'' = Some (ocsf_device d)"
  "dget (ocsf_event d n sev cid c) ''severity_id'' = Some (PInt (fst sev))"
  "dget (ocsf_event d n sev cid c) ''confidence_id'' = Some (PInt cid)"
  "dget (ocsf_event d n sev cid c) ''confidence_score'' = Some (PInt (confidence_score c))"
  "dget (ocsf_event d n sev cid c) ''is_alert'' = Some (PBool (str_item d ''class'' \<noteq> lit ''normal''))"
  unfolding ocsf_event_def dget_texts by simp_all

section \<open>The flat form\<close>

lemma dget_without: "dget (filter (\<lambda>kv. fst kv \<noteq> KStr (lit a)) d) k = (if k = a then None else dget d k)"
  by (induction d) (auto simp: dget_def)

lemma dget_drop_none:
  "distinct (map fst d) \<Longrightarrow> dget (drop_none d) k = (case dget d k of Some PNone \<Rightarrow> None | x \<Rightarrow> x)"
proof (induction d)
  case (Cons kv d)
  have "map_of d (fst kv) = None" using Cons.prems by (simp add: map_of_eq_None_iff)
  then have "map_of (drop_none d) (fst kv) = None" by (auto simp: drop_none_def map_of_eq_None_iff)
  with Cons \<open>map_of d (fst kv) = None\<close> show ?case
    by (cases kv) (auto simp: dget_def drop_none_def split: option.splits pyval.splits)
qed (simp add: dget_def drop_none_def)

lemma alert_leaf:
  assumes "alert_ok d" and "dget d k = Some v" and "k \<in> set (REQUIRED_FIELDS @ OPTIONAL_FIELDS)" and "k \<noteq> ''top_shap''"
  shows "leaf v \<or> v = PNone"
proof -
  have p: "text_ok v \<Longrightarrow> leaf v" "one_of ns v \<Longrightarrow> leaf v" "alert_time_ok v \<Longrightarrow> leaf v" "finite_ok v \<Longrightarrow> leaf v"
    "hash_ok v \<Longrightarrow> leaf v" "natural_ok v \<Longrightarrow> leaf v" "v = PStr s \<Longrightarrow> leaf v" for v ns s
    by (cases v; simp add: leaf_def)+
  have c: "k \<in> {''schema_version'', ''source'', ''confidence_level''} \<or>
      k \<in> {''event_id'', ''node_id'', ''site_id'', ''zone_id'', ''model_id''} \<or>
      k = ''ts_utc'' \<or> k = ''class'' \<or> k = ''confidence'' \<or> k \<in> {''pacs_event_status'', ''pacs_reader_id'', ''pacs_event_id''} \<or>
      k \<in> {''csi_window_sha256'', ''record_hash''} \<or> k \<in> {''sequence_number'', ''seq''}"
    using assms(3,4) by (auto simp: REQUIRED_FIELDS_def OPTIONAL_FIELDS_def)
  have i: "item_ok d k P \<Longrightarrow> P v" "given d k P \<Longrightarrow> P v" for P using assms(2) by (simp_all add: item_ok_def given_def)
  have a: "\<forall>k \<in> {''event_id'', ''node_id'', ''site_id'', ''zone_id'', ''model_id''}. item_ok d k text_ok"
    "item_ok d ''ts_utc'' alert_time_ok" "item_ok d ''class'' (one_of CLASSES)"
    "\<forall>k \<in> {''csi_window_sha256'', ''record_hash''}. given d k hash_ok"
    "\<forall>k \<in> {''sequence_number'', ''seq''}. given d k natural_ok"
    "dget d ''schema_version'' = Some (PStr (lit SOC_SCHEMA_VERSION))" "dget d ''source'' = Some (PStr (lit ''vestrix''))"
    "item_ok d ''pacs_event_status'' (\<lambda>s. item_ok d ''pacs_reader_id'' (\<lambda>r. item_ok d ''pacs_event_id'' (pacs_ok s r)))"
    using alert_ok_parts [OF assms(1)] by blast+
  obtain c where cf: "dget d ''confidence'' = Some c" "finite_ok c"
    "dget d ''confidence_level'' = Some (PStr (lit (confidence_level (float_of c))))"
    using alert_fields(1) [OF assms(1)] by blast
  obtain s r e where pacs: "dget d ''pacs_event_status'' = Some s" "dget d ''pacs_reader_id'' = Some r"
    "dget d ''pacs_event_id'' = Some e" "pacs_ok s r e"
    using a(8) by (auto simp: item_ok_def split: option.splits)
  show ?thesis
    using c
  proof (elim disjE)
    assume "k \<in> {''schema_version'', ''source'', ''confidence_level''}"
    then show ?thesis using assms(2) a(6,7) cf(3) p(7) by auto
  next
    assume "k = ''confidence''"
    then show ?thesis using assms(2) cf p(4) by simp
  next
    assume "k \<in> {''pacs_event_status'', ''pacs_reader_id'', ''pacs_event_id''}"
    then have "v = s \<or> v = r \<or> v = e" using assms(2) pacs(1-3) by force
    moreover have "leaf s" "leaf r \<or> r = PNone" "leaf e \<or> e = PNone"
      using pacs(4) p(1,2) unfolding pacs_ok_def by blast+
    ultimately show ?thesis by blast
  next
    assume "k \<in> {''event_id'', ''node_id'', ''site_id'', ''zone_id'', ''model_id''}"
    then show ?thesis using a(1) i(1) p(1) by metis
  next
    assume "k = ''ts_utc''"
    then show ?thesis using a(2) i(1) p(3) by metis
  next
    assume "k = ''class''"
    then show ?thesis using a(3) i(1) p(2) by metis
  next
    assume "k \<in> {''csi_window_sha256'', ''record_hash''}"
    then show ?thesis using a(4) i(2) p(5) by metis
  next
    assume "k \<in> {''sequence_number'', ''seq''}"
    then show ?thesis using a(5) i(2) p(6) by metis
  qed
qed

lemma set_dset: "kv \<in> set (dset d k v) \<Longrightarrow> kv \<in> set d \<or> kv = (KStr (lit k), v)"
  by (induction d) (auto simp: dset_def split: if_splits)

section \<open>Well-formed outputs\<close>

lemma wf_text_value [simp]: "wf_json (text_value t)"
  by (simp add: text_value_def wf_lit)

lemma wf_items: "wf_json (PDict (map (\<lambda>(k, v). (KStr (lit k), v)) kvs)) \<longleftrightarrow>
    distinct (map fst kvs) \<and> (\<forall>kv \<in> set kvs. wf_json (snd kv))"
proof -
  have "distinct (map fst (map (\<lambda>(k, v). (KStr (lit k), v)) kvs)) \<longleftrightarrow> distinct (map fst kvs)"
    by (induction kvs) force+
  then show ?thesis using wf_lit by (auto simp: case_prod_beta wf_json_PDict)
qed

lemma wf_dict_of [simp]: "wf_json (dict_of kvs) \<longleftrightarrow> distinct (map fst kvs) \<and> (\<forall>kv \<in> set kvs. wf_json (snd kv))"
  unfolding dict_of_def by (rule wf_items)

lemma str_item_wf: "wf_json (PDict d) \<Longrightarrow> wf_str (str_item d k)"
  using dget_wf [of d k] by (auto simp: str_item_def split: option.splits pyval.splits)

lemma ocsf_wf:
  assumes "wf_json (PDict d)" and "\<bar>n\<bar> < 2 ^ 64" and "\<bar>fst sev\<bar> < 2 ^ 64" and "\<bar>cid\<bar> < 2 ^ 64"
    and "\<bar>confidence_score c\<bar> < 2 ^ 64"
  shows "wf_json (PDict (ocsf_event d n sev cid c))"
proof -
  note i = str_item_wf [OF assms(1)] and k = wf_json_int [OF assms(2)] wf_json_int [OF assms(3)] wf_json_int [OF assms(4)]
    wf_json_int [OF assms(5)] wf_json_int [of 1] wf_json_int [of 2] wf_json_int [of 2004] wf_json_int [of 200401]
    wf_json_int [of 4] wf_json_int [of 99]
  have t: "wf_str (alert_title d)" by (simp add: alert_title_def Let_def i wf_lit)
  have "wf_json (ocsf_metadata d)" "wf_json (ocsf_finding d)" "wf_json (ocsf_device d)"
    by (simp_all add: ocsf_metadata_def ocsf_finding_def ocsf_device_def i t k wf_lit)
  then show ?thesis using assms(1) t k unfolding ocsf_event_def wf_items by simp
qed

lemma epoch_millis_short:
  assumes "fromisoformat_utc s = Some t"
  shows "\<bar>(int (dt_micros t) - 62135596800000000) div 1000\<bar> < 2 ^ 64"
proof -
  have "valid_dt t" using assms by (auto simp: fromisoformat_utc_def Let_def split: if_splits)
  from dt_micros_bound [OF this] have "int (dt_micros t) < 315537897600000000" by (simp add: max_micros_def)
  then have "int (dt_micros t) - 62135596800000000 \<le> 315537897600000000" "- 62135596800000000 \<le> int (dt_micros t) - 62135596800000000"
    by simp_all
  from this [THEN zdiv_mono1, of 1000] show ?thesis by simp
qed

lemma to_ocsf_wf:
  assumes "to_ocsf v = Inr e" and "wf_json v"
  shows "wf_json (PDict e)"
proof -
  obtain d where d: "v = PDict d" "alert_ok d"
    using assms(1) by (auto simp: to_ocsf_def rbind_eq_Inr validate_alert_iff)
  obtain t n sev cid c where o: "fromisoformat_utc (str_item d ''ts_utc'') = Some t"
    "to_epoch_millis (str_item d ''ts_utc'') = Inr n" "severity d = Inr sev"
    "f64_le f64_zero c" "f64_le c f64_one" "level_number (lit (confidence_level c)) = Inr cid"
    "to_ocsf v = Inr (ocsf_event d n sev cid c)"
    using to_ocsf_returns [OF d(2)] d(1) by metis
  have e: "e = ocsf_event d n sev cid c" using o(7) assms(1) by simp
  show ?thesis
    unfolding e
  proof (rule ocsf_wf)
    show "wf_json (PDict d)" using assms(2) d(1) by simp
    show "\<bar>n\<bar> < 2 ^ 64" using epoch_millis_short [OF o(1)] epoch_millis_value [OF o(1)] o(2) by simp
    show "\<bar>fst sev\<bar> < 2 ^ 64" using o(3) by (auto simp: severity_def Let_def split: if_splits)
    show "\<bar>cid\<bar> < 2 ^ 64" using o(6) by (auto simp: level_number_def split: if_splits)
    show "\<bar>confidence_score c\<bar> < 2 ^ 64" using score_bands(1,2) [OF o(4,5)] by simp
  qed
qed

lemma first_shap_wf: "first_shap v = Inr (f, c) \<Longrightarrow> wf_json v \<Longrightarrow> wf_json f \<and> wf_json c"
  by (auto simp: first_shap_def alert_item_def rbind_eq_Inr wf_lit dest: dget_wf
      split: pyval.splits list.splits option.splits)

lemma to_wazuh_wf:
  assumes "to_wazuh v = Inr w" and "wf_json v"
  shows "wf_json (PDict w)"
proof -
  obtain d shap f c where w: "v = PDict d" "dget d ''top_shap'' = Some shap" "first_shap shap = Inr (f, c)"
    "w = dset (dset (drop_none (filter (\<lambda>kv. fst kv \<noteq> KStr (lit ''top_shap'')) d)) ''shap_top_feature'' f) ''shap_top_value'' c"
    using assms(1) by (auto simp: to_wazuh_def rbind_eq_Inr validate_alert_iff alert_item_def split: option.splits)
  have fc: "wf_json f" "wf_json c" using first_shap_wf [OF w(3)] dget_wf w(1,2) assms(2) by blast+
  have "wf_json (PDict (filter P d))" for P using assms(2) w(1) by (auto simp: wf_json_PDict distinct_map_filter)
  then show ?thesis
    unfolding w(4) dset_def drop_none_def filter_filter by (intro wf_json_update wf_lit fc)
qed

lemma mapper_output_wf:
  "(if wazuh then to_wazuh else to_ocsf) v = Inr out \<Longrightarrow> wf_json v \<Longrightarrow> wf_json (PDict out)"
  using to_wazuh_wf to_ocsf_wf by (cases wazuh) auto

end
