(* ===== verification/Ocsf_Roundtrip.thy ===== *)
theory Ocsf_Roundtrip
  imports Ocsf_Outputs
begin

text \<open>
  A valid alert with sorted keys is a valid alert, and an alert without surrogates is mapped to an event without
  surrogates: what the command reads from canonical bytes and writes as ASCII is read back as it was.
\<close>

section \<open>Sorting the keys of an alert\<close>

lemma alert_scalars_norm [simp]:
  "text_ok (norm_val v) = text_ok v" "one_of names (norm_val v) = one_of names v"
  "finite_ok (norm_val v) = finite_ok v" "float_of (norm_val v) = float_of v"
  "natural_ok (norm_val v) = natural_ok v" "positive_ok (norm_val v) = positive_ok v"
  "alert_time_ok (norm_val v) = alert_time_ok v" "in_unit_interval (norm_val v) = in_unit_interval v"
  "norm_val v = PNone \<longleftrightarrow> v = PNone"
  by (cases v; simp)+

lemma given_norm:
  assumes "distinct (map fst d)" and "\<And>v. P (norm_val v) = P v"
  shows "given (norm_dict d) k P = given d k P"
  using assms by (simp add: given_def dget_norm_dict split: option.splits)

lemma shap_item_norm: "wf_val v \<Longrightarrow> shap_item_ok (norm_val v) = shap_item_ok v"
  by (cases v) (simp_all add: item_ok_norm given_norm norm_val_PDict del: norm_val.simps(7))

lemma shap_ok_norm: "wf_val v \<Longrightarrow> shap_ok (norm_val v) = shap_ok v"
  by (cases v) (auto simp: shap_item_norm)

lemma pacs_ok_norm: "pacs_ok (norm_val s) (norm_val r) (norm_val e) = pacs_ok s r e"
  by (simp add: pacs_ok_def)

lemma item_norm:
  assumes "distinct (map fst d)" and "\<And>v. dget d k = Some v \<Longrightarrow> P (norm_val v) = Q v"
  shows "item_ok (norm_dict d) k P = item_ok d k Q"
  using assms by (simp add: item_ok_def dget_norm_dict split: option.splits)

lemma dget_wf_val: "wf_val (PDict d) \<Longrightarrow> dget d k = Some v \<Longrightarrow> wf_val v"
  by (auto simp: dget_def dest!: map_of_SomeD)

lemma alert_ok_norm:
  assumes "wf_val (PDict d)"
  shows "alert_ok (norm_dict d) = alert_ok d"
proof -
  have dist: "distinct (map fst d)" using assms by simp
  have str: "dget (norm_dict d) k = Some (PStr s) \<longleftrightarrow> dget d k = Some (PStr s)" for k s
    by (simp add: dget_norm_dict [OF dist] split: option.splits)
  have shap: "item_ok (norm_dict d) ''top_shap'' shap_ok = item_ok d ''top_shap'' shap_ok"
    by (rule item_norm [OF dist]) (simp add: shap_ok_norm dget_wf_val [OF assms])
  have pacs: "item_ok (norm_dict d) ''pacs_event_status'' (\<lambda>s. item_ok (norm_dict d) ''pacs_reader_id'' (\<lambda>r.
        item_ok (norm_dict d) ''pacs_event_id'' (pacs_ok s r))) =
      item_ok d ''pacs_event_status'' (\<lambda>s. item_ok d ''pacs_reader_id'' (\<lambda>r. item_ok d ''pacs_event_id'' (pacs_ok s r)))"
    by (intro item_norm [OF dist] pacs_ok_norm)
  have conf: "item_ok (norm_dict d) ''confidence'' (\<lambda>v. finite_ok v \<and> in_unit_interval v \<and>
       dget d ''confidence_level'' = Some (PStr (lit (confidence_level (float_of v))))) =
      item_ok d ''confidence'' (\<lambda>v. finite_ok v \<and> in_unit_interval v \<and>
       dget d ''confidence_level'' = Some (PStr (lit (confidence_level (float_of v)))))"
    by (rule item_norm [OF dist]) simp
  show ?thesis
    unfolding alert_ok_def str conf shap pacs dkeys_norm_dict
    by (simp only: item_ok_norm [OF dist] given_norm [OF dist] alert_scalars_norm norm_scalar)
qed

section \<open>Events without surrogates\<close>

lemma dget_plain: "plain_val (PDict d) \<Longrightarrow> dget d k = Some v \<Longrightarrow> plain_val v"
  by (auto simp: dget_def dest!: map_of_SomeD)

lemma str_item_plain: "plain_val (PDict d) \<Longrightarrow> scalar_str (str_item d k)"
  using dget_plain [of d k] by (auto simp: str_item_def scalar_str_def split: option.splits pyval.splits)

lemma plain_items: "plain_val (PDict (map (\<lambda>(k, v). (KStr (lit k), v)) kvs)) \<longleftrightarrow> (\<forall>kv \<in> set kvs. plain_val (snd kv))"
  by (auto simp: case_prod_beta)

lemma plain_dict_of [simp]: "plain_val (dict_of kvs) \<longleftrightarrow> (\<forall>kv \<in> set kvs. plain_val (snd kv))"
  unfolding dict_of_def by (rule plain_items)

lemma plain_text_value [simp]: "plain_val (text_value t)"
  by (simp add: text_value_def)

lemma ocsf_plain:
  assumes "plain_val (PDict d)"
  shows "plain_val (PDict (ocsf_event d n sev cid c))"
proof -
  note i = str_item_plain [OF assms]
  have t: "scalar_str (alert_title d)" by (simp add: alert_title_def Let_def i)
  have "plain_val (ocsf_metadata d)" "plain_val (ocsf_finding d)" "plain_val (ocsf_device d)"
    by (simp_all add: ocsf_metadata_def ocsf_finding_def ocsf_device_def i t)
  then show ?thesis using assms t unfolding ocsf_event_def plain_items by simp
qed

section \<open>The command on canonical bytes\<close>

lemma main_on_canonical:
  assumes "canon_enc (PDict d) = Some file" and "wf_val (PDict d)"
  shows "mapper_main wazuh file =
    rbind (rmap_err MainMaps ((if wazuh then to_wazuh else to_ocsf) (PDict (norm_dict d)))) (\<lambda>out.
      case ascii_text (PDict out) of None \<Rightarrow> Inl MainNotEncodable | Some line \<Rightarrow> Inr line)"
proof -
  obtain t where t: "canon_text (PDict d) = Some t" "scalar_str t" "file = concat (map utf8_char t)"
    using assms by (rule canon_enc_textD)
  have "decode_utf8 False file = Some t" using t(2,3) by (simp add: decode_concat_utf8)
  moreover have "loads_text t = Inr (PDict (norm_dict d))"
    using loads_text_canon [OF t(1) assms(2)] by (simp add: norm_val_PDict del: norm_val.simps)
  ultimately show ?thesis by (simp add: mapper_main_def)
qed

lemma plain_norm: "plain_val v \<Longrightarrow> plain_val (norm_val v)"
  by (induction v rule: pyval_induct) auto

end
