(* ===== verification/Ocsf_Properties.thy ===== *)
theory Ocsf_Properties
  imports Ocsf_Roundtrip Samples
begin

text \<open>
  The properties of the alert mapper: what it accepts, what it raises, and how the two output formats relate
  to the alert.
\<close>

section \<open>A sample alert\<close>

definition sample_items :: "(string \<times> pyval) list" where
  "sample_items =
     [(''schema_version'', text_value ''1.0''), (''source'', text_value ''vestrix''), (''event_id'', text_value ''e1''),
      (''ts_utc'', text_value ''2026-01-31T23:59:59.250000Z''), (''node_id'', text_value ''n1''),
      (''site_id'', text_value ''s1''), (''zone_id'', text_value ''z1''), (''class'', text_value ''intrusion''),
      (''confidence'', PFloat f64_090), (''confidence_level'', text_value ''high''), (''model_id'', text_value ''m1''),
      (''top_shap'', PList [dict_of [(''feature'', text_value ''f1''), (''value'', PInt 1)]]),
      (''pacs_event_status'', text_value ''missing''), (''pacs_reader_id'', PNone), (''pacs_event_id'', PNone)]"

definition sample_alert :: pydict where
  "sample_alert = map (\<lambda>(k, v). (KStr (lit k), v)) sample_items"

lemma sample_keys: "dkeys sample_alert = map (\<lambda>k. KStr (lit k)) REQUIRED_FIELDS"
  by (simp add: dkeys_def sample_alert_def sample_items_def REQUIRED_FIELDS_def)

lemma sample_get: "dget sample_alert k = map_of sample_items k"
  unfolding sample_alert_def dget_texts ..

lemma sample_parts_ok:
  "alert_time_ok (text_value ''2026-01-31T23:59:59.250000Z'')"
  "text_ok (text_value ''e1'')" "text_ok (text_value ''n1'')" "text_ok (text_value ''s1'')"
  "text_ok (text_value ''z1'')" "text_ok (text_value ''m1'')" "text_ok (text_value ''f1'')"
  "f64_isfinite f64_090" "in_unit_interval (PFloat f64_090)" "confidence_level f64_090 = ''high''"
proof -
  have "utc_shape (Some 9) (lit ''2026-01-31T23:59:59.250000Z'')"
    by (simp add: utc_shape_def lit_Cons is_nd_def nd_zeros_def)
  then show "alert_time_ok (text_value ''2026-01-31T23:59:59.250000Z'')" using sample_time by (simp add: text_value_def)
  show "text_ok (text_value ''e1'')" "text_ok (text_value ''n1'')" "text_ok (text_value ''s1'')"
    "text_ok (text_value ''z1'')" "text_ok (text_value ''m1'')" "text_ok (text_value ''f1'')"
    by (simp_all add: text_value_def lit_Cons is_space_def)
  show "f64_isfinite f64_090" "in_unit_interval (PFloat f64_090)" "confidence_level f64_090 = ''high''"
    by (simp_all add: f64_090_def f64_of_dec_def bands_mag inf_mag_def f64_isfinite_def f64_le_def f64_isnan_def
        f64_key_def f64_zero_def f64_one_def confidence_level_def)
qed

lemmas sample_unit = sample_parts_ok(9) [unfolded in_unit_interval.simps]

lemma sample_shap_ok: "shap_ok (PList [dict_of [(''feature'', text_value ''f1''), (''value'', PInt 1)]])"
proof -
  have o: "f64_of_int 1 \<noteq> None" using f64_of_int_exact [of 1] by simp
  show ?thesis
    using o sample_parts_ok(7)
    by (simp add: dict_of_def dget_def dkeys_def item_ok_def given_def named_keys_def)
qed

lemma sample_alert_ok: "alert_ok sample_alert"
proof -
  have p: "pacs_ok (text_value ''missing'') PNone PNone"
    by (simp add: pacs_ok_def PACS_STATUSES_def text_value_def)
  have c: "one_of CLASSES (text_value ''intrusion'')" by (simp add: CLASSES_def text_value_def)
  have k: "set (dkeys sample_alert) = named_keys REQUIRED_FIELDS" unfolding sample_keys named_keys_def ..
  show ?thesis
    unfolding alert_ok_def k
  proof (intro conjI)
    show "named_keys REQUIRED_FIELDS \<subseteq> named_keys (REQUIRED_FIELDS @ OPTIONAL_FIELDS)" by (auto simp: named_keys_def)
  qed (simp_all del: shap_ok.simps add: sample_get sample_items_def item_ok_def given_def sample_parts_ok sample_unit sample_shap_ok p c
        SOC_SCHEMA_VERSION_def text_value_def [of "''1.0''"] text_value_def [of "''vestrix''"] text_value_def [of "''high''"])
qed

section \<open>Validation\<close>

text \<open>C26. The validator accepts exactly the alerts of the contract, and returns them unchanged.\<close>

theorem validate_alert_accepts_exactly: "validate_alert v = Inr d \<longleftrightarrow> v = PDict d \<and> alert_ok d"
  by (rule validate_alert_iff)

section \<open>Exceptions\<close>

lemma mapper_raises:
  "to_ocsf v = Inl e \<longleftrightarrow> validate_alert v = Inl e" "to_wazuh v = Inl e \<longleftrightarrow> validate_alert v = Inl e"
proof -
  have "(to_ocsf v = Inl e \<longleftrightarrow> validate_alert v = Inl e) \<and> (to_wazuh v = Inl e \<longleftrightarrow> validate_alert v = Inl e)"
  proof (cases "validate_alert v")
    case (Inl f)
    then show ?thesis by (simp add: to_ocsf_def to_wazuh_def)
  next
    case (Inr d)
    then have "v = PDict d" "alert_ok d" by (simp_all add: validate_alert_iff)
    with Inr show ?thesis by (auto elim: to_wazuh_returns to_ocsf_returns)
  qed
  then show "to_ocsf v = Inl e \<longleftrightarrow> validate_alert v = Inl e" "to_wazuh v = Inl e \<longleftrightarrow> validate_alert v = Inl e"
    by auto
qed

text \<open>
  The mapper raises exactly what the validator raises: no lookup of the output formats fails on a valid
  alert. The validator raises \<^verbatim>\<open>AlertValidationError\<close>, except for an \<^verbatim>\<open>OverflowError\<close> when a confidence or the
  value of a contribution is an integer too large for a float, and a \<^verbatim>\<open>TypeError\<close> when the class, the level or
  the PACS status is a list or an object. It never raises \<^verbatim>\<open>KeyError\<close>.
\<close>

theorem mapper_exceptions:
  "(to_ocsf v = Inl e \<longleftrightarrow> validate_alert v = Inl e) \<and> (to_wazuh v = Inl e \<longleftrightarrow> validate_alert v = Inl e) \<and>
   (validate_alert v = Inl e \<longrightarrow> (\<exists>r. e = AlertError r) \<or> (\<exists>d. v = PDict d \<and> alert_fails d e))"
  using mapper_raises validate_alert_errors by blast

theorem mapper_exceptions_witness:
  "validate_alert (PInt 1) = Inl (AlertError AlertNotObject) \<and> to_ocsf (PInt 1) = Inl (AlertError AlertNotObject) \<and>
   \<not> (\<exists>d. PInt 1 = PDict d)"
  using mapper_exceptions [of "PInt 1" "AlertError AlertNotObject"] by (simp add: validate_alert_def)

section \<open>OCSF\<close>

text \<open>
  The OCSF event loses nothing: it carries the whole alert under \<^verbatim>\<open>unmapped.vestrix\<close>, the identifiers of the
  alert and the node, and as its time the milliseconds from 1970 to the timestamp, rounded down.
\<close>

theorem ocsf_carries_alert:
  assumes "to_ocsf v = Inr e"
  shows "\<exists>d t uid node. v = PDict d \<and> validate_alert v = Inr d \<and>
    dget e ''unmapped'' = Some (dict_of [(''vestrix'', v)]) \<and>
    dget d ''event_id'' = Some uid \<and> (\<exists>f. dget e ''finding_info'' = Some (PDict f) \<and> dget f ''uid'' = Some uid) \<and>
    dget d ''node_id'' = Some node \<and> (\<exists>f. dget e ''device'' = Some (PDict f) \<and> dget f ''uid'' = Some node) \<and>
    fromisoformat_utc (str_item d ''ts_utc'') = Some t \<and>
    dget e ''time'' = Some (PInt ((int (dt_micros t) - 62135596800000000) div 1000))"
proof -
  obtain d where d: "v = PDict d" "alert_ok d" "validate_alert v = Inr d"
    using assms by (auto simp: to_ocsf_def rbind_eq_Inr validate_alert_iff)
  obtain t n sev cid c where o: "fromisoformat_utc (str_item d ''ts_utc'') = Some t"
    "to_epoch_millis (str_item d ''ts_utc'') = Inr n" "to_ocsf v = Inr (ocsf_event d n sev cid c)"
    using to_ocsf_returns [OF d(2)] d(1) by metis
  have e: "e = ocsf_event d n sev cid c" "n = (int (dt_micros t) - 62135596800000000) div 1000"
    using o assms epoch_millis_value [OF o(1)] by simp_all
  have "\<exists>f. ocsf_finding d = PDict f \<and> dget f ''uid'' = Some (PStr (str_item d ''event_id''))"
    "\<exists>f. ocsf_device d = PDict f \<and> dget f ''uid'' = Some (PStr (str_item d ''node_id''))"
    by (simp_all add: ocsf_finding_def ocsf_device_def dict_of_def dget_def)
  then show ?thesis
    using d o(1) alert_fields(5) [OF d(2)] unfolding e by (auto simp: ocsf_dget)
qed

theorem ocsf_carries_alert_witness:
  "\<exists>e. to_ocsf (PDict sample_alert) = Inr e \<and> dget e ''unmapped'' = Some (dict_of [(''vestrix'', PDict sample_alert)])"
proof -
  obtain e where e: "to_ocsf (PDict sample_alert) = Inr e" using to_ocsf_returns [OF sample_alert_ok] by metis
  from ocsf_carries_alert [OF e] e show ?thesis by blast
qed

text \<open>
  C27. The numbers of the OCSF event agree with the alert: the score is from 0 to 100 and in the band of the
  stated level, in spite of the rounding of the product; the severity is from 1 to 5, critical exactly for an
  intrusion without a PACS event, and the event is an alert exactly when it is not informational.
\<close>

theorem ocsf_scores_agree:
  assumes "to_ocsf v = Inr e"
  shows "\<exists>d level score cid sev. v = PDict d \<and> dget d ''confidence_level'' = Some (PStr (lit level)) \<and>
    dget e ''confidence_score'' = Some (PInt score) \<and> dget e ''confidence_id'' = Some (PInt cid) \<and>
    dget e ''severity_id'' = Some (PInt sev) \<and> dget e ''is_alert'' = Some (PBool (sev \<noteq> 1)) \<and>
    0 \<le> score \<and> score \<le> 100 \<and>
    (level = ''high'' \<and> cid = 3 \<and> 90 \<le> score \<or> level = ''borderline'' \<and> cid = 2 \<and> 60 \<le> score \<and> score \<le> 90 \<or>
     level = ''low'' \<and> cid = 1 \<and> score \<le> 60) \<and>
    1 \<le> sev \<and> sev \<le> 5 \<and>
    (sev = 5 \<longleftrightarrow> str_item d ''class'' = lit ''intrusion'' \<and> str_item d ''pacs_event_status'' = lit ''missing'')"
proof -
  obtain d where d: "v = PDict d" "alert_ok d"
    using assms by (auto simp: to_ocsf_def rbind_eq_Inr validate_alert_iff)
  obtain n cid sev c where o: "severity d = Inr sev" "f64_le f64_zero c" "f64_le c f64_one"
    "level_number (lit (confidence_level c)) = Inr cid" "str_item d ''confidence_level'' = lit (confidence_level c)"
    "to_ocsf v = Inr (ocsf_event d n sev cid c)"
    using to_ocsf_returns [OF d(2)] d(1) by metis
  have e: "e = ocsf_event d n sev cid c" using o(6) assms by simp
  obtain k where k: "k \<in> set CLASSES" "str_item d ''class'' = lit k"
    using alert_fields(3) [OF d(2)] by (auto simp: str_item_def)
  have l: "dget d ''confidence_level'' = Some (PStr (lit (confidence_level c)))"
    using alert_fields(1) [OF d(2)] o(5) by (auto simp: str_item_def)
  note b = score_bands [OF o(2,3)]
  have cid: "(confidence_level c = ''high'' \<and> cid = 3 \<and> 90 \<le> confidence_score c) \<or>
      (confidence_level c = ''borderline'' \<and> cid = 2 \<and> 60 \<le> confidence_score c \<and> confidence_score c \<le> 90) \<or>
      (confidence_level c = ''low'' \<and> cid = 1 \<and> confidence_score c \<le> 60)"
    using o(4) level_text [of c] b(3-5) by (auto simp: level_number_def)
  have sv: "1 \<le> fst sev \<and> fst sev \<le> 5 \<and> (fst sev = 1 \<longleftrightarrow> k = ''normal'') \<and>
      (fst sev = 5 \<longleftrightarrow> k = ''intrusion'' \<and> str_item d ''pacs_event_status'' = lit ''missing'')"
    using o(1) k by (auto simp: severity_def CLASSES_def Let_def split: if_splits)
  show ?thesis
    unfolding e d(1)
    by (intro exI [of _ d] exI [of _ "confidence_level c"] exI [of _ "confidence_score c"] exI [of _ cid]
        exI [of _ "fst sev"] conjI)
      (use b(1,2) cid sv k l in \<open>simp_all add: ocsf_dget\<close>)
qed

theorem ocsf_scores_agree_witness:
  "\<exists>e score. to_ocsf (PDict sample_alert) = Inr e \<and> dget e ''confidence_score'' = Some (PInt score) \<and> 90 \<le> score"
proof -
  obtain e where e: "to_ocsf (PDict sample_alert) = Inr e" using to_ocsf_returns [OF sample_alert_ok] by metis
  have "dget sample_alert ''confidence_level'' = Some (PStr (lit ''high''))"
    by (simp add: sample_get sample_items_def text_value_def)
  with ocsf_scores_agree [OF e] e show ?thesis by auto
qed

section \<open>Wazuh\<close>

text \<open>
  C28. The Wazuh event is flat and complete: every value is a text or a number, every field of the alert that is
  not null is there unchanged, and \<^verbatim>\<open>top_shap\<close> is replaced by the feature and the value of its first entry, the text
  \<^verbatim>\<open>none\<close> and 0.0 when it has no entry.
\<close>

theorem wazuh_is_flat:
  assumes "to_wazuh v = Inr w" and "wf_val v"
  shows "\<exists>d. v = PDict d \<and> (\<forall>kv \<in> set w. leaf (snd kv)) \<and> dget w ''top_shap'' = None \<and>
    (\<forall>k. k \<notin> {''top_shap'', ''shap_top_feature'', ''shap_top_value''} \<longrightarrow>
      dget w k = (case dget d k of Some PNone \<Rightarrow> None | x \<Rightarrow> x)) \<and>
    (\<exists>items f c. dget d ''top_shap'' = Some (PList items) \<and> top_entry items f c \<and>
      dget w ''shap_top_feature'' = Some f \<and> dget w ''shap_top_value'' = Some c)"
proof -
  obtain d where d: "v = PDict d" "alert_ok d"
    using assms(1) by (auto simp: to_wazuh_def rbind_eq_Inr validate_alert_iff)
  have dist: "distinct (map fst d)" using assms(2) d(1) by simp
  let ?d = "filter (\<lambda>kv. fst kv \<noteq> KStr (lit ''top_shap'')) d"
  have dist2: "distinct (map fst ?d)" using dist by (simp add: distinct_map_filter)
  obtain items f c where w: "w = dset (dset (drop_none ?d) ''shap_top_feature'' f) ''shap_top_value'' c" "leaf f" "leaf c"
    and top: "dget d ''top_shap'' = Some (PList items)" "top_entry items f c"
    using to_wazuh_parts [OF d(2)] assms(1) d(1) by (metis sum.inject(2))
  have lf: "leaf (snd kv)" if kv: "kv \<in> set (drop_none ?d)" for kv
  proof -
    have m: "kv \<in> set d" "fst kv \<noteq> KStr (lit ''top_shap'')" "snd kv \<noteq> PNone" using kv by (auto simp: drop_none_def)
    then have "fst kv \<in> named_keys (REQUIRED_FIELDS @ OPTIONAL_FIELDS)"
      using d(2) by (auto simp: alert_ok_def dkeys_def)
    then obtain k where k: "fst kv = KStr (lit k)" "k \<in> set (REQUIRED_FIELDS @ OPTIONAL_FIELDS)"
      by (auto simp: named_keys_def)
    have "dget d k = Some (snd kv)"
      unfolding dget_def using map_of_is_SomeI [OF dist, of "KStr (lit k)" "snd kv"] m(1) k(1) by (cases kv) auto
    from alert_leaf [OF d(2) this k(2)] m k(1) show ?thesis by auto
  qed
  have "\<forall>kv \<in> set w. leaf (snd kv)"
  proof
    fix kv assume "kv \<in> set w"
    then have "kv \<in> set (drop_none ?d) \<or> snd kv = f \<or> snd kv = c"
      unfolding w(1) by (auto dest!: set_dset)
    then show "leaf (snd kv)" using lf w(2,3) by metis
  qed
  moreover have "dget w ''shap_top_feature'' = Some f" "dget w ''shap_top_value'' = Some c" by (simp_all add: w(1))
  ultimately show ?thesis
    using top unfolding w(1) d(1) by (auto simp: dget_drop_none [OF dist2] dget_without)
qed

lemma sample_items_distinct: "distinct (map fst sample_items)"
  by (simp add: sample_items_def)

lemma sample_alert_wf: "wf_json (PDict sample_alert)"
proof -
  have "wf_json (PInt 1)" by (rule wf_json_int) simp
  then have "\<forall>kv \<in> set sample_items. wf_json (snd kv)" by (simp add: sample_items_def)
  then show ?thesis unfolding sample_alert_def wf_items using sample_items_distinct by simp
qed

theorem wazuh_is_flat_witness:
  "\<exists>w. to_wazuh (PDict sample_alert) = Inr w \<and> dget w ''top_shap'' = None \<and>
    dget w ''shap_top_feature'' = Some (text_value ''f1'') \<and> dget w ''shap_top_value'' = Some (PInt 1)"
proof -
  obtain w where w: "to_wazuh (PDict sample_alert) = Inr w" using to_wazuh_returns [OF sample_alert_ok] by metis
  have shap: "dget sample_alert ''top_shap'' = Some (PList [dict_of [(''feature'', text_value ''f1''), (''value'', PInt 1)]])"
    by (simp add: sample_get sample_items_def)
  obtain d items f c where d: "PDict sample_alert = PDict d" "dget w ''top_shap'' = None"
    and wz: "dget d ''top_shap'' = Some (PList items)" "top_entry items f c"
      "dget w ''shap_top_feature'' = Some f" "dget w ''shap_top_value'' = Some c"
    using wazuh_is_flat [OF w sample_alert_wf [unfolded wf_json_def, THEN conjunct1]] by (elim exE conjE) (rule that)
  have "items = [dict_of [(''feature'', text_value ''f1''), (''value'', PInt 1)]]" using wz(1) shap d(1) by simp
  then have fc: "f = text_value ''f1''" "c = PInt 1" using wz(2) by (simp_all add: top_entry_def dict_of_def dget_def)
  show ?thesis using w d(2) wz(3,4) unfolding fc by (intro exI [of _ w] conjI)
qed

section \<open>The command\<close>

text \<open>The file is UTF-8 text whose JSON is a valid alert.\<close>

definition holds_alert :: "bytestr \<Rightarrow> bool" where
  "holds_alert file \<longleftrightarrow>
     (\<exists>text d. decode_utf8 False file = Some text \<and> loads_text text = Inr (PDict d) \<and> alert_ok d)"

text \<open>
  The command prints a line for exactly the files that are UTF-8 and whose JSON is a valid alert, for the one
  format as for the other, and the line is printable ASCII without a line end: writing the result never fails.
\<close>

theorem mapper_main_prints:
  "case mapper_main wazuh file of
     Inr line \<Rightarrow> ascii_line line \<and> holds_alert file
   | Inl e \<Rightarrow> e \<noteq> MainNotEncodable \<and> \<not> holds_alert file"
proof (cases "\<exists>text v. decode_utf8 False file = Some text \<and> loads_text text = Inr v")
  case True
  then obtain u v where tv: "decode_utf8 False file = Some u" "loads_text u = Inr v" by blast
  then have wf: "wf_json v" using loads_text_wf decode_utf8_wf by blast
  define m where "m = (if wazuh then to_wazuh else to_ocsf) v"
  have main: "mapper_main wazuh file = rbind (rmap_err MainMaps m) (\<lambda>out.
      case ascii_text (PDict out) of None \<Rightarrow> Inl MainNotEncodable | Some line \<Rightarrow> Inr line)"
    using tv by (simp add: mapper_main_def m_def)
  have h: "holds_alert file \<longleftrightarrow> (\<exists>d. v = PDict d \<and> alert_ok d)" using tv by (auto simp: holds_alert_def)
  show ?thesis
  proof (cases m)
    case (Inl e)
    then have "validate_alert v = Inl e" using mapper_raises by (auto simp: m_def split: if_splits)
    then have "\<not> (\<exists>d. v = PDict d \<and> alert_ok d)" by (metis validate_alert_iff Inl_Inr_False)
    with Inl main h show ?thesis by simp
  next
    case (Inr out)
    then have "wf_json (PDict out)" using wf mapper_output_wf by (simp add: m_def)
    then obtain line where line: "ascii_text (PDict out) = Some line" "ascii_line line"
      using json_ascii_text ascii_text_line unfolding wf_json_def by blast
    have "\<exists>d. validate_alert v = Inr d" using Inr by (auto simp: m_def to_wazuh_def to_ocsf_def rbind_eq_Inr split: if_splits)
    then have "\<exists>d. v = PDict d \<and> alert_ok d" by (simp add: validate_alert_iff)
    with Inr main h line show ?thesis by simp
  qed
next
  case False
  then have "\<not> holds_alert file" by (auto simp: holds_alert_def)
  with False show ?thesis
    by (cases "decode_utf8 False file"; cases "loads_text (the (decode_utf8 False file))")
      (auto simp: mapper_main_def)
qed

text \<open>
  C29. The alert comes back out of the printed OCSF event: for a valid alert without surrogates, stored as canonical
  JSON, the command prints a line, and the line reads back as an object with the alert, its keys sorted, under
  \<^verbatim>\<open>unmapped.vestrix\<close>.
\<close>

theorem printed_event_reads_back:
  assumes "alert_ok d" and "wf_json (PDict d)" and "plain_val (PDict d)" and "canon_enc (PDict d) = Some file"
  shows "\<exists>line e. mapper_main False file = Inr line \<and> loads_text line = Inr (PDict e) \<and>
    dget e ''unmapped'' = Some (dict_of [(''vestrix'', PDict (norm_dict d))])"
proof -
  let ?d = "norm_dict d"
  have wf: "wf_val (PDict d)" using assms(2) by (simp add: wf_json_def)
  have json: "wf_json (PDict ?d)"
    using assms(4) wf loads_canon loads_bytes_wf by (metis norm_val_PDict)
  have plain: "plain_val (PDict ?d)" using plain_norm [OF assms(3)] by (simp only: norm_val_PDict)
  have ok: "alert_ok ?d" using assms(1) wf by (simp add: alert_ok_norm)
  obtain n sev cid c where o: "to_ocsf (PDict ?d) = Inr (ocsf_event ?d n sev cid c)"
    using to_ocsf_returns [OF ok] by metis
  let ?out = "ocsf_event ?d n sev cid c"
  have out: "wf_json (PDict ?out)" using o json by (rule to_ocsf_wf)
  then have out_wf: "wf_val (PDict ?out)" "json_typed (PDict ?out)" by (simp_all only: wf_json_def)
  obtain line where line: "ascii_text (PDict ?out) = Some line" using json_ascii_text [OF out_wf(2)] by blast
  have "loads_text line = Inr (PDict (norm_dict ?out))"
    using loads_ascii [OF line out_wf(1) plain_readable [OF ocsf_plain [OF plain]]] by (simp only: norm_val_PDict)
  moreover have "mapper_main False file = Inr line"
    using main_on_canonical [OF assms(4) wf, of False] o line by (simp del: ascii_text.simps)
  moreover have "distinct (map fst ?out)" using out_wf(1) by simp
  then have "dget (norm_dict ?out) ''unmapped'' = Some (norm_val (dict_of [(''vestrix'', PDict ?d)]))"
    by (simp add: dget_norm_dict ocsf_dget)
  moreover have "norm_val (dict_of [(''vestrix'', PDict ?d)]) = dict_of [(''vestrix'', PDict ?d)]"
    using norm_dict_idem [of d] by (simp add: dict_of_def norm_dict_def)
  ultimately show ?thesis by auto
qed

lemma sample_alert_plain: "plain_val (PDict sample_alert)"
  unfolding sample_alert_def plain_items by (simp add: sample_items_def sample_parts_ok(8))

lemma sample_alert_enc: "\<exists>file. canon_enc (PDict sample_alert) = Some file"
proof -
  have l: "\<not> list_ex is_surrogate (lit s)" for s
    using scalar_lit by (auto simp: scalar_str_def list_all_iff list_ex_iff)
  have t: "json_ok (text_value s)" for s by (simp add: text_value_def l)
  have "\<forall>kv \<in> set sample_items. json_ok (snd kv)"
    using t l by (simp add: sample_items_def dict_of_def sample_parts_ok(8))
  then have "json_ok (PDict sample_alert)" using l by (auto simp: sample_alert_def)
  then show ?thesis using sample_alert_wf by (intro json_ok_enc) (simp_all only: wf_json_def)
qed

theorem printed_event_reads_back_witness:
  "\<exists>file line e. mapper_main False file = Inr line \<and> loads_text line = Inr (PDict e) \<and>
    dget e ''unmapped'' = Some (dict_of [(''vestrix'', PDict (norm_dict sample_alert))])"
  using sample_alert_enc printed_event_reads_back [OF sample_alert_ok sample_alert_wf sample_alert_plain] by blast

end
