(* ===== verification/Collector_Config.thy ===== *)
theory Collector_Config
  imports Collector_Models Py_Float_Arith
begin

text \<open>
  The configuration of the collector, \<^verbatim>\<open>src/collector/vestrix_collector/config.py\<close>. The file is its bytes, the
  parser of PyYAML and \<^verbatim>\<open>Path.resolve\<close> are arguments; a path is its text.
\<close>

section \<open>Data\<close>

record tls_config =
  tc_ca_cert :: pystr
  tc_crl_path :: pystr
  tc_server_cert :: pystr
  tc_server_key :: pystr

record server_config =
  sc_host :: pystr
  sc_port :: int
  sc_handshake_timeout_seconds :: f64
  sc_read_timeout_seconds :: f64
  sc_max_payload_bytes :: int

record collector_config =
  cc_tls :: tls_config
  cc_allowlist_path :: pystr
  cc_server :: server_config

datatype config_reason =
    ConfigUnreadable
  | NotMapping string
  | UnknownKeys string "pystr list"
  | MissingKeys string "pystr list"
  | BadPath string
  | BadHost
  | BadPort
  | NotPositiveNumber string
  | NotPositiveInteger string

text \<open>
  What can leave \<^verbatim>\<open>load_config\<close>: \<^verbatim>\<open>ConfigError\<close>, the \<^verbatim>\<open>UnicodeDecodeError\<close> of \<^verbatim>\<open>read_text\<close>, a \<^verbatim>\<open>ValueError\<close> of
  PyYAML (a date that does not exist), the \<^verbatim>\<open>OverflowError\<close> of \<^verbatim>\<open>float\<close>, what \<^verbatim>\<open>Path.resolve\<close> raises, and
  the \<^verbatim>\<open>KeyError\<close> of a subscript.
\<close>

datatype config_exn =
    ConfigError config_reason
  | ConfigNotUtf8
  | ConfigYamlValue
  | ConfigOverflow
  | ConfigResolve
  | ConfigKeyError string

text \<open>What \<^verbatim>\<open>yaml.safe_load\<close> answers.\<close>

datatype yaml_answer = YamlValue pyval | YamlError | YamlValueError

section \<open>Fields\<close>

definition config_mapping :: "pyval \<Rightarrow> string \<Rightarrow> config_exn + pydict" where
  "config_mapping v name =
     (case v of
        PDict d \<Rightarrow> rbind (raise_if (\<not> list_all is_kstr (dkeys d)) (ConfigError (NotMapping name))) (\<lambda>_. Inr d)
      | _ \<Rightarrow> Inl (ConfigError (NotMapping name)))"

definition config_keys :: "pydict \<Rightarrow> string list \<Rightarrow> string list \<Rightarrow> string \<Rightarrow> config_exn + unit" where
  "config_keys d required optional name =
     rbind (raise_if (unknown_fields (required @ optional) d \<noteq> [])
       (ConfigError (UnknownKeys name (unknown_fields (required @ optional) d)))) (\<lambda>_.
       raise_if (missing_fields required d \<noteq> []) (ConfigError (MissingKeys name (missing_fields required d))))"

definition exact_keys :: "pydict \<Rightarrow> string list \<Rightarrow> string \<Rightarrow> config_exn + unit" where
  "exact_keys d expected name = config_keys d expected [] name"

definition config_item :: "pydict \<Rightarrow> string \<Rightarrow> config_exn + pyval" where
  "config_item d k = (case dget d k of None \<Rightarrow> Inl (ConfigKeyError k) | Some v \<Rightarrow> Inr v)"

definition is_absolute :: "pystr \<Rightarrow> bool" where
  "is_absolute s \<longleftrightarrow> s \<noteq> [] \<and> hd s = 47"

definition resolve_path :: "(pystr \<Rightarrow> pystr option) \<Rightarrow> pyval \<Rightarrow> string \<Rightarrow> config_exn + pystr" where
  "resolve_path resolve v name =
     (case v of
        PStr s \<Rightarrow>
          if list_all is_space s then Inl (ConfigError (BadPath name))
          else if is_absolute s then Inr s
          else (case resolve s of None \<Rightarrow> Inl ConfigResolve | Some p \<Rightarrow> Inr p)
      | _ \<Rightarrow> Inl (ConfigError (BadPath name)))"

definition positive_float :: "pyval \<Rightarrow> string \<Rightarrow> config_exn + f64" where
  "positive_float v name =
     (case v of
        PInt n \<Rightarrow>
          if n \<le> 0 then Inl (ConfigError (NotPositiveNumber name))
          else (case f64_of_int n of None \<Rightarrow> Inl ConfigOverflow | Some x \<Rightarrow> Inr x)
      | PFloat x \<Rightarrow> if f64_le x f64_zero then Inl (ConfigError (NotPositiveNumber name)) else Inr x
      | _ \<Rightarrow> Inl (ConfigError (NotPositiveNumber name)))"

definition positive_int :: "pyval \<Rightarrow> string \<Rightarrow> config_exn + int" where
  "positive_int v name =
     (case v of
        PInt n \<Rightarrow> if n \<le> 0 then Inl (ConfigError (NotPositiveInteger name)) else Inr n
      | _ \<Rightarrow> Inl (ConfigError (NotPositiveInteger name)))"

definition config_host :: "pyval \<Rightarrow> config_exn + pystr" where
  "config_host v =
     (case v of
        PStr s \<Rightarrow> if list_all is_space s then Inl (ConfigError BadHost) else Inr s
      | _ \<Rightarrow> Inl (ConfigError BadHost))"

definition config_port :: "pyval \<Rightarrow> config_exn + int" where
  "config_port v =
     (case v of
        PInt n \<Rightarrow> if 1 \<le> n \<and> n \<le> 65535 then Inr n else Inl (ConfigError BadPort)
      | _ \<Rightarrow> Inl (ConfigError BadPort))"

text \<open>\<^verbatim>\<open>server.get(key, default)\<close>, with the default \<^verbatim>\<open>10.0\<close> of the two timeouts.\<close>

definition default_timeout :: f64 where
  "default_timeout = f64_of_dec False 100 1"

definition config_get :: "pydict \<Rightarrow> string \<Rightarrow> pyval \<Rightarrow> pyval" where
  "config_get d k fallback = (case dget d k of None \<Rightarrow> fallback | Some v \<Rightarrow> v)"

section \<open>Loading\<close>

definition ROOT_KEYS :: "string list" where
  "ROOT_KEYS = [''tls'', ''allowlist_path'', ''server'']"

definition TLS_KEYS :: "string list" where
  "TLS_KEYS = [''ca_cert'', ''crl_path'', ''server_cert'', ''server_key'']"

definition SERVER_KEYS :: "string list" where
  "SERVER_KEYS = [''host'', ''port'']"

definition SERVER_OPTIONAL_KEYS :: "string list" where
  "SERVER_OPTIONAL_KEYS = [''handshake_timeout_seconds'', ''read_timeout_seconds'', ''max_payload_bytes'']"

text \<open>The file is \<open>None\<close> when reading it raises \<^verbatim>\<open>OSError\<close>.\<close>

definition read_yaml :: "(pystr \<Rightarrow> yaml_answer) \<Rightarrow> bytestr option \<Rightarrow> config_exn + pyval" where
  "read_yaml yaml file =
     (case file of
        None \<Rightarrow> Inl (ConfigError ConfigUnreadable)
      | Some bs \<Rightarrow>
          (case decode_utf8 False bs of
             None \<Rightarrow> Inl ConfigNotUtf8
           | Some s \<Rightarrow>
               (case yaml s of
                  YamlError \<Rightarrow> Inl (ConfigError ConfigUnreadable)
                | YamlValueError \<Rightarrow> Inl ConfigYamlValue
                | YamlValue v \<Rightarrow> Inr v)))"

definition config_tls :: "(pystr \<Rightarrow> pystr option) \<Rightarrow> pydict \<Rightarrow> config_exn + tls_config" where
  "config_tls resolve tls =
     rbind (rbind (config_item tls ''ca_cert'') (\<lambda>v. resolve_path resolve v ''tls.ca_cert'')) (\<lambda>ca_cert.
     rbind (rbind (config_item tls ''crl_path'') (\<lambda>v. resolve_path resolve v ''tls.crl_path'')) (\<lambda>crl_path.
     rbind (rbind (config_item tls ''server_cert'') (\<lambda>v. resolve_path resolve v ''tls.server_cert'')) (\<lambda>server_cert.
     rbind (rbind (config_item tls ''server_key'') (\<lambda>v. resolve_path resolve v ''tls.server_key'')) (\<lambda>server_key.
       Inr \<lparr>tc_ca_cert = ca_cert, tc_crl_path = crl_path, tc_server_cert = server_cert,
            tc_server_key = server_key\<rparr>))))"

definition config_server :: "pystr \<Rightarrow> int \<Rightarrow> pydict \<Rightarrow> config_exn + server_config" where
  "config_server host port server =
     rbind (positive_float (config_get server ''handshake_timeout_seconds'' (PFloat default_timeout))
       ''server.handshake_timeout_seconds'') (\<lambda>handshake.
     rbind (positive_float (config_get server ''read_timeout_seconds'' (PFloat default_timeout))
       ''server.read_timeout_seconds'') (\<lambda>read_timeout.
     rbind (positive_int (config_get server ''max_payload_bytes'' (PInt 65536)) ''server.max_payload_bytes'') (\<lambda>limit.
       Inr \<lparr>sc_host = host, sc_port = port, sc_handshake_timeout_seconds = handshake,
            sc_read_timeout_seconds = read_timeout, sc_max_payload_bytes = limit\<rparr>)))"

definition load_config ::
    "(pystr \<Rightarrow> pystr option) \<Rightarrow> (pystr \<Rightarrow> yaml_answer) \<Rightarrow> bytestr option \<Rightarrow> config_exn + collector_config" where
  "load_config resolve yaml file =
     rbind (read_yaml yaml file) (\<lambda>raw.
     rbind (config_mapping raw ''config'') (\<lambda>root.
     rbind (exact_keys root ROOT_KEYS ''config'') (\<lambda>_.
     rbind (rbind (config_item root ''tls'') (\<lambda>v. config_mapping v ''tls'')) (\<lambda>tls.
     rbind (exact_keys tls TLS_KEYS ''tls'') (\<lambda>_.
     rbind (rbind (config_item root ''server'') (\<lambda>v. config_mapping v ''server'')) (\<lambda>server.
     rbind (config_keys server SERVER_KEYS SERVER_OPTIONAL_KEYS ''server'') (\<lambda>_.
     rbind (config_item server ''host'') (\<lambda>host_value.
     rbind (config_item server ''port'') (\<lambda>port_value.
     rbind (config_host host_value) (\<lambda>host.
     rbind (config_port port_value) (\<lambda>port.
     rbind (config_tls resolve tls) (\<lambda>tls_paths.
     rbind (rbind (config_item root ''allowlist_path'') (\<lambda>v. resolve_path resolve v ''allowlist_path'')) (\<lambda>allowlist.
     rbind (config_server host port server) (\<lambda>server_values.
       Inr \<lparr>cc_tls = tls_paths, cc_allowlist_path = allowlist, cc_server = server_values\<rparr>))))))))))))))"

section \<open>What is accepted\<close>

text \<open>The contract of the document, value by value.\<close>

definition path_of :: "(pystr \<Rightarrow> pystr option) \<Rightarrow> pyval \<Rightarrow> pystr option" where
  "path_of resolve v =
     (case v of PStr s \<Rightarrow> if list_all is_space s then None else if is_absolute s then Some s else resolve s | _ \<Rightarrow> None)"

definition path_item :: "(pystr \<Rightarrow> pystr option) \<Rightarrow> pydict \<Rightarrow> string \<Rightarrow> pystr \<Rightarrow> bool" where
  "path_item resolve d k p \<longleftrightarrow> (\<exists>v. dget d k = Some v \<and> path_of resolve v = Some p)"

definition timeout_of :: "pyval \<Rightarrow> f64 option" where
  "timeout_of v =
     (case v of
        PInt n \<Rightarrow> if n \<le> 0 then None else f64_of_int n
      | PFloat x \<Rightarrow> if f64_le x f64_zero then None else Some x
      | _ \<Rightarrow> None)"

definition tls_doc :: "(pystr \<Rightarrow> pystr option) \<Rightarrow> pydict \<Rightarrow> tls_config \<Rightarrow> bool" where
  "tls_doc resolve d cfg \<longleftrightarrow>
     set (dkeys d) = named_keys TLS_KEYS \<and>
     path_item resolve d ''ca_cert'' (tc_ca_cert cfg) \<and> path_item resolve d ''crl_path'' (tc_crl_path cfg) \<and>
     path_item resolve d ''server_cert'' (tc_server_cert cfg) \<and> path_item resolve d ''server_key'' (tc_server_key cfg)"

definition server_doc :: "pydict \<Rightarrow> server_config \<Rightarrow> bool" where
  "server_doc d cfg \<longleftrightarrow>
     named_keys SERVER_KEYS \<subseteq> set (dkeys d) \<and> set (dkeys d) \<subseteq> named_keys (SERVER_KEYS @ SERVER_OPTIONAL_KEYS) \<and>
     dget d ''host'' = Some (PStr (sc_host cfg)) \<and> (\<exists>c \<in> set (sc_host cfg). \<not> is_space c) \<and>
     dget d ''port'' = Some (PInt (sc_port cfg)) \<and> 1 \<le> sc_port cfg \<and> sc_port cfg \<le> 65535 \<and>
     timeout_of (config_get d ''handshake_timeout_seconds'' (PFloat default_timeout)) = Some (sc_handshake_timeout_seconds cfg) \<and>
     timeout_of (config_get d ''read_timeout_seconds'' (PFloat default_timeout)) = Some (sc_read_timeout_seconds cfg) \<and>
     config_get d ''max_payload_bytes'' (PInt 65536) = PInt (sc_max_payload_bytes cfg) \<and> 0 < sc_max_payload_bytes cfg"

definition config_doc :: "(pystr \<Rightarrow> pystr option) \<Rightarrow> pyval \<Rightarrow> collector_config \<Rightarrow> bool" where
  "config_doc resolve v cfg \<longleftrightarrow>
     (\<exists>root tls server. v = PDict root \<and> set (dkeys root) = named_keys ROOT_KEYS \<and>
        dget root ''tls'' = Some (PDict tls) \<and> tls_doc resolve tls (cc_tls cfg) \<and>
        dget root ''server'' = Some (PDict server) \<and> server_doc server (cc_server cfg) \<and>
        path_item resolve root ''allowlist_path'' (cc_allowlist_path cfg))"

lemma config_checks [simp]:
  "resolve_path resolve v name = Inr p \<longleftrightarrow> path_of resolve v = Some p"
  "positive_float v name = Inr x \<longleftrightarrow> timeout_of v = Some x"
  "positive_int v name = Inr n \<longleftrightarrow> v = PInt n \<and> 0 < n"
  "config_host v = Inr s \<longleftrightarrow> v = PStr s \<and> (\<exists>c \<in> set s. \<not> is_space c)"
  "config_port v = Inr n \<longleftrightarrow> v = PInt n \<and> 1 \<le> n \<and> n \<le> 65535"
  by (cases v; force simp: resolve_path_def path_of_def positive_float_def timeout_of_def positive_int_def
      config_host_def config_port_def list_all_iff split: option.splits)+

lemma config_item_iff: "rbind (config_item d k) f = Inr u \<longleftrightarrow> (\<exists>v. dget d k = Some v \<and> f v = Inr u)"
  by (simp add: config_item_def split: option.splits)

lemma config_mapping_iff: "config_mapping v name = Inr d \<longleftrightarrow> v = PDict d \<and> list_all is_kstr (dkeys d)"
  by (cases v) (auto simp: config_mapping_def res_simps)

lemma config_keys_iff:
  assumes "list_all is_kstr (dkeys d)"
  shows "config_keys d required optional name = Inr u \<longleftrightarrow>
    named_keys required \<subseteq> set (dkeys d) \<and> set (dkeys d) \<subseteq> named_keys (required @ optional)"
  using assms unknown_fields_Nil [of d] by (auto simp: config_keys_def res_simps)

lemma config_tls_iff:
  "config_tls resolve tls = Inr cfg \<longleftrightarrow>
     path_item resolve tls ''ca_cert'' (tc_ca_cert cfg) \<and> path_item resolve tls ''crl_path'' (tc_crl_path cfg) \<and>
     path_item resolve tls ''server_cert'' (tc_server_cert cfg) \<and> path_item resolve tls ''server_key'' (tc_server_key cfg)"
  by (cases cfg) (auto simp: config_tls_def rbind_eq_Inr [of "rbind _ _"] config_item_iff path_item_def)

lemma config_server_iff:
  "config_server host port d = Inr cfg \<longleftrightarrow>
     sc_host cfg = host \<and> sc_port cfg = port \<and>
     timeout_of (config_get d ''handshake_timeout_seconds'' (PFloat default_timeout)) = Some (sc_handshake_timeout_seconds cfg) \<and>
     timeout_of (config_get d ''read_timeout_seconds'' (PFloat default_timeout)) = Some (sc_read_timeout_seconds cfg) \<and>
     config_get d ''max_payload_bytes'' (PInt 65536) = PInt (sc_max_payload_bytes cfg) \<and> 0 < sc_max_payload_bytes cfg"
  by (cases cfg) (auto simp: config_server_def rbind_eq_Inr)

lemma read_yaml_iff:
  "read_yaml yaml file = Inr v \<longleftrightarrow>
     (\<exists>bs s. file = Some bs \<and> decode_utf8 False bs = Some s \<and> yaml s = YamlValue v)"
  by (auto simp: read_yaml_def split: option.splits yaml_answer.splits)

lemma exact_keys_iff:
  "list_all is_kstr (dkeys d) \<Longrightarrow> exact_keys d expected name = Inr u \<longleftrightarrow> set (dkeys d) = named_keys expected"
  by (auto simp: exact_keys_def config_keys_iff)

lemma load_config_iff:
  "load_config resolve yaml file = Inr cfg \<longleftrightarrow> (\<exists>v. read_yaml yaml file = Inr v \<and> config_doc resolve v cfg)"
proof -
  have k: "set (dkeys d) \<subseteq> named_keys ns \<Longrightarrow> list_all is_kstr (dkeys d)" for d ns by (rule named_keys_kstr)
  have keys: "list_all is_kstr (dkeys d) \<and> set (dkeys d) = named_keys ns \<longleftrightarrow> set (dkeys d) = named_keys ns"
    "list_all is_kstr (dkeys d) \<and> named_keys ms \<subseteq> set (dkeys d) \<and> set (dkeys d) \<subseteq> named_keys ns \<longleftrightarrow>
       named_keys ms \<subseteq> set (dkeys d) \<and> set (dkeys d) \<subseteq> named_keys ns" for d ms ns
    using k by blast+
  have steps: "load_config resolve yaml file = Inr cfg \<longleftrightarrow>
      (\<exists>root tls server. read_yaml yaml file = Inr (PDict root) \<and>
        (list_all is_kstr (dkeys root) \<and> set (dkeys root) = named_keys ROOT_KEYS) \<and>
        dget root ''tls'' = Some (PDict tls) \<and> (list_all is_kstr (dkeys tls) \<and> set (dkeys tls) = named_keys TLS_KEYS) \<and>
        dget root ''server'' = Some (PDict server) \<and>
        (list_all is_kstr (dkeys server) \<and> named_keys SERVER_KEYS \<subseteq> set (dkeys server) \<and>
          set (dkeys server) \<subseteq> named_keys (SERVER_KEYS @ SERVER_OPTIONAL_KEYS)) \<and>
        config_tls resolve tls = Inr (cc_tls cfg) \<and>
        path_item resolve root ''allowlist_path'' (cc_allowlist_path cfg) \<and>
        dget server ''host'' = Some (PStr (sc_host (cc_server cfg))) \<and> (\<exists>c \<in> set (sc_host (cc_server cfg)). \<not> is_space c) \<and>
        dget server ''port'' = Some (PInt (sc_port (cc_server cfg))) \<and>
        1 \<le> sc_port (cc_server cfg) \<and> sc_port (cc_server cfg) \<le> 65535 \<and>
        config_server (sc_host (cc_server cfg)) (sc_port (cc_server cfg)) server = Inr (cc_server cfg))"
    unfolding load_config_def
    by (cases cfg) (auto simp: rbind_eq_Inr [of "read_yaml _ _"] rbind_eq_Inr [of "config_mapping _ _"]
        rbind_eq_Inr [of "exact_keys _ _ _"] rbind_eq_Inr [of "config_keys _ _ _ _"] rbind_eq_Inr [of "config_host _"]
        rbind_eq_Inr [of "config_port _"] rbind_eq_Inr [of "config_tls _ _"] rbind_eq_Inr [of "rbind _ _"]
        rbind_eq_Inr [of "config_server _ _ _"] config_item_iff config_mapping_iff exact_keys_iff config_keys_iff
        path_item_def config_server_iff)
  show ?thesis
    unfolding steps keys config_tls_iff config_server_iff config_doc_def tls_doc_def server_doc_def by blast
qed

end
