(* ===== verification/Collector_Reload.thy ===== *)
theory Collector_Reload
  imports Collector_Server
begin

text \<open>
  The security state of the collector, the allow-list and the TLS context, and its reload:
  \<^verbatim>\<open>_load_security_state\<close> and \<^verbatim>\<open>reload_security_state\<close> of \<^verbatim>\<open>src/collector/vestrix_collector/server.py\<close> with the signal
  handler of \<^verbatim>\<open>__main__.py\<close>. The reload runs in a thread of its own, so its reads of the two files are separate
  steps, between which the files can change and signals can arrive. Building the TLS context is an argument: the
  content \<open>'c\<close> it gives, or the name of the exception.
\<close>

section \<open>State\<close>

datatype load_exn = LoadAllowlist allowlist_error | LoadContext string

definition load_security_state ::
    "yaml_file \<Rightarrow> string + 'c \<Rightarrow> load_exn + pystr list \<times> 'c" where
  "load_security_state allowlist context_file =
     rbind (rmap_err LoadAllowlist (load_enrolled_nodes allowlist)) (\<lambda>nodes.
     rbind (rmap_err LoadContext context_file) (\<lambda>tls. Inr (nodes, tls)))"

definition load_exn_name :: "load_exn \<Rightarrow> string" where
  "load_exn_name e = 
     (case e of
        LoadAllowlist (AllowlistEscapes name) \<Rightarrow> name
      | LoadAllowlist _ \<Rightarrow> ''AllowlistError''
      | LoadContext name \<Rightarrow> name)"

text \<open>The reload task: none or done; created; after the allow-list was read; after the context was built.\<close>

datatype 'c reload_task = NoReload | Started | HasNodes "pystr list" | HasBoth "pystr list" 'c

datatype lifecycle = SecurityStateReloaded nat | SecurityStateReloadFailed string

text \<open>
  \<open>sy_allowlist\<close> and \<open>sy_context_file\<close> are what loading the files would give now; \<open>sy_snapshot\<close> is what the
  thread of a connection took under the lock; \<open>sy_published\<close> is the history of the states.
\<close>

record 'c security =
  sy_allowlist :: yaml_file
  sy_context_file :: "string + 'c"
  sy_enrolled_nodes :: "pystr list"
  sy_tls_context :: 'c
  sy_task :: "'c reload_task"
  sy_snapshot :: "nat \<Rightarrow> (pystr list \<times> 'c) option"
  sy_log :: "lifecycle list"
  sy_published :: "(pystr list \<times> 'c) list"

section \<open>Operations\<close>

text \<open>The constructor: it raises when the first load does.\<close>

definition open_server :: "yaml_file \<Rightarrow> string + 'c \<Rightarrow> load_exn + 'c security" where
  "open_server allowlist context_file =
     rbind (load_security_state allowlist context_file) (\<lambda>(nodes, tls).
       Inr \<lparr>sy_allowlist = allowlist, sy_context_file = context_file, sy_enrolled_nodes = nodes,
            sy_tls_context = tls, sy_task = NoReload, sy_snapshot = (\<lambda>_. None), sy_log = [],
            sy_published = [(nodes, tls)]\<rparr>)"

definition request_reload :: "'c security \<Rightarrow> 'c security" where
  "request_reload s = (case sy_task s of NoReload \<Rightarrow> s\<lparr>sy_task := Started\<rparr> | _ \<Rightarrow> s)"

text \<open>The handler of \<^verbatim>\<open>reload_security_state\<close> in \<^verbatim>\<open>__main__.py\<close>.\<close>

definition reload_failed :: "load_exn \<Rightarrow> 'c security \<Rightarrow> 'c security" where
  "reload_failed e s = s\<lparr>sy_task := NoReload, sy_log := sy_log s @ [SecurityStateReloadFailed (load_exn_name e)]\<rparr>"

definition publish :: "pystr list \<Rightarrow> 'c \<Rightarrow> 'c security \<Rightarrow> 'c security" where
  "publish nodes tls s =
     s\<lparr>sy_enrolled_nodes := nodes, sy_tls_context := tls, sy_task := NoReload,
       sy_log := sy_log s @ [SecurityStateReloaded (length nodes)],
       sy_published := sy_published s @ [(nodes, tls)]\<rparr>"

text \<open>The next step of the reload; \<open>None\<close> when there is none to take.\<close>

definition reload_step :: "'c security \<Rightarrow> 'c security option" where
  "reload_step s =
     (case sy_task s of
        NoReload \<Rightarrow> None
      | Started \<Rightarrow>
          (case load_enrolled_nodes (sy_allowlist s) of
             Inl e \<Rightarrow> Some (reload_failed (LoadAllowlist e) s)
           | Inr nodes \<Rightarrow> Some (s\<lparr>sy_task := HasNodes nodes\<rparr>))
      | HasNodes nodes \<Rightarrow>
          (case sy_context_file s of
             Inl name \<Rightarrow> Some (reload_failed (LoadContext name) s)
           | Inr tls \<Rightarrow> Some (s\<lparr>sy_task := HasBoth nodes tls\<rparr>))
      | HasBoth nodes tls \<Rightarrow> Some (publish nodes tls s))"

text \<open>A connection takes both parts under the lock.\<close>

definition take_snapshot :: "nat \<Rightarrow> 'c security \<Rightarrow> 'c security option" where
  "take_snapshot t s =
     (case sy_snapshot s t of
        Some _ \<Rightarrow> None
      | None \<Rightarrow> Some (s\<lparr>sy_snapshot := (sy_snapshot s)(t \<mapsto> (sy_enrolled_nodes s, sy_tls_context s))\<rparr>))"

datatype 'c sec_event =
    EditAllowlist yaml_file
  | EditContext "string + 'c"
  | Sighup
  | ReloadStep
  | OpenConnection nat

fun sec_step :: "'c sec_event \<Rightarrow> 'c security \<Rightarrow> 'c security option" where
  "sec_step (EditAllowlist a) s = Some (s\<lparr>sy_allowlist := a\<rparr>)"
| "sec_step (EditContext c) s = Some (s\<lparr>sy_context_file := c\<rparr>)"
| "sec_step Sighup s = Some (request_reload s)"
| "sec_step ReloadStep s = reload_step s"
| "sec_step (OpenConnection t) s = take_snapshot t s"

fun sec_run :: "'c sec_event list \<Rightarrow> 'c security \<Rightarrow> 'c security option" where
  "sec_run [] s = Some s"
| "sec_run (e # es) s = Option.bind (sec_step e s) (sec_run es)"

text \<open>The interface of a process driven by events: what every step keeps, every run keeps.\<close>

locale event_process =
  fixes step :: "'e \<Rightarrow> 's \<Rightarrow> 's option" and run :: "'e list \<Rightarrow> 's \<Rightarrow> 's option"
  assumes run_Nil: "run [] s = Some s"
    and run_Cons: "run (e # es) s = Option.bind (step e s) (run es)"
begin

lemma run_invariant:
  assumes "run es s = Some s'" and "P s"
    and "\<And>e s s'. e \<in> set es \<Longrightarrow> step e s = Some s' \<Longrightarrow> P s \<Longrightarrow> P s'"
  shows "P s'"
  using assms
proof (induction es arbitrary: s)
  case (Cons e es)
  then obtain t where "step e s = Some t" "run es t = Some s'" by (auto simp: run_Cons bind_eq_Some_conv)
  with Cons show ?case by auto
qed (simp add: run_Nil)

end

interpretation sec: event_process sec_step sec_run
  by unfold_locales simp_all

section \<open>The invariant\<close>

definition enrolled_ok :: "pystr list \<Rightarrow> bool" where
  "enrolled_ok nodes \<longleftrightarrow> nodes \<noteq> [] \<and> [] \<notin> set nodes \<and> distinct nodes"

lemma load_enrolled_ok: "load_enrolled_nodes yaml = Inr nodes \<Longrightarrow> enrolled_ok nodes"
proof -
  assume a: "load_enrolled_nodes yaml = Inr nodes"
  then obtain vs where vs: "vs \<noteq> []" "list_all nonempty_text vs" "length vs = card (set vs)" "nodes = map text_of vs"
    by (auto simp: load_enrolled_nodes_def res_simps split: yaml_file.splits option.splits pyval.splits if_splits)
  then have "distinct vs" by (simp add: card_distinct)
  moreover have "x = y" if "nonempty_text x" "nonempty_text y" "text_of x = text_of y" for x y
    using that by (cases x; cases y) auto
  then have "inj_on text_of (set vs)" using vs(2) by (auto simp: list_all_iff intro!: inj_onI)
  moreover have "[] \<notin> text_of ` set vs"
    using vs(2) by (auto simp: list_all_iff elim!: nonempty_text.elims(2))
  ultimately show ?thesis using vs(1,4) by (simp add: enrolled_ok_def distinct_map)
qed

fun task_ok :: "'c reload_task \<Rightarrow> bool" where
  "task_ok (HasNodes nodes) = enrolled_ok nodes"
| "task_ok (HasBoth nodes tls) = enrolled_ok nodes"
| "task_ok _ = True"

fun reload_counts :: "lifecycle \<Rightarrow> bool" where
  "reload_counts (SecurityStateReloaded n) = True"
| "reload_counts _ = False"

definition security_inv :: "'c security \<Rightarrow> bool" where
  "security_inv s \<longleftrightarrow>
     sy_published s \<noteq> [] \<and> last (sy_published s) = (sy_enrolled_nodes s, sy_tls_context s) \<and>
     (\<forall>p \<in> set (sy_published s). enrolled_ok (fst p)) \<and> task_ok (sy_task s) \<and>
     (\<forall>t p. sy_snapshot s t = Some p \<longrightarrow> p \<in> set (sy_published s)) \<and>
     map (\<lambda>p. SecurityStateReloaded (length (fst p))) (tl (sy_published s)) = filter reload_counts (sy_log s)"

lemma open_server_inv: "open_server a c = Inr s \<Longrightarrow> security_inv s"
  by (auto simp: open_server_def load_security_state_def security_inv_def res_simps dest: load_enrolled_ok)

lemma reload_failed_inv: "security_inv s \<Longrightarrow> security_inv (reload_failed e s)"
  by (simp add: security_inv_def reload_failed_def)

lemma publish_inv: "security_inv s \<Longrightarrow> enrolled_ok nodes \<Longrightarrow> security_inv (publish nodes tls s)"
  by (auto simp: security_inv_def publish_def)

lemma task_inv: "security_inv s \<Longrightarrow> task_ok t \<Longrightarrow> security_inv (s\<lparr>sy_task := t\<rparr>)"
  by (simp add: security_inv_def)

lemma load_task_ok: "load_enrolled_nodes yaml = Inr nodes \<Longrightarrow> task_ok (HasNodes nodes)"
  by (simp add: load_enrolled_ok)

lemma inv_task: "security_inv s \<Longrightarrow> task_ok (sy_task s)"
  by (simp add: security_inv_def)

lemma sec_step_inv:
  assumes "sec_step e s = Some s'" and "security_inv s"
  shows "security_inv s'"
proof (cases e)
  case ReloadStep
  with assms inv_task [OF assms(2)] show ?thesis
    by (auto simp: reload_step_def split: reload_task.splits sum.splits
        intro: reload_failed_inv publish_inv task_inv load_task_ok)
next
  case (OpenConnection t)
  have "sy_published s \<noteq> []" "last (sy_published s) = (sy_enrolled_nodes s, sy_tls_context s)"
    using assms(2) by (simp_all add: security_inv_def)
  then have "(sy_enrolled_nodes s, sy_tls_context s) \<in> set (sy_published s)" by (metis last_in_set)
  with OpenConnection assms show ?thesis
    by (auto simp: take_snapshot_def security_inv_def split: option.splits if_splits)
qed (use assms in \<open>auto simp: security_inv_def request_reload_def split: reload_task.splits\<close>)

lemma sec_run_inv: "sec_run es s = Some s' \<Longrightarrow> security_inv s \<Longrightarrow> security_inv s'"
  by (rule sec.run_invariant) (auto dest: sec_step_inv)

section \<open>A whole reload\<close>

text \<open>The signal and the reload with no other event between them.\<close>

definition whole_reload :: "'c security \<Rightarrow> 'c security" where
  "whole_reload s =
     (case load_security_state (sy_allowlist s) (sy_context_file s) of
        Inl e \<Rightarrow> reload_failed e s
      | Inr (nodes, tls) \<Rightarrow> publish nodes tls s)"

definition reload_events :: "'c security \<Rightarrow> 'c sec_event list" where
  "reload_events s =
     Sighup # replicate (case load_enrolled_nodes (sy_allowlist s) of Inl _ \<Rightarrow> 1 | Inr _ \<Rightarrow>
       (case sy_context_file s of Inl _ \<Rightarrow> 2 | Inr _ \<Rightarrow> 3)) ReloadStep"

lemma whole_reload_runs:
  assumes "sy_task s = NoReload"
  shows "sec_run (reload_events s) s = Some (whole_reload s)"
  using assms
  by (auto simp: reload_events_def whole_reload_def load_security_state_def request_reload_def reload_step_def
      reload_failed_def publish_def numeral_2_eq_2 numeral_3_eq_3 split: sum.splits)

end
