(* ===== verification/Py_Json_Surrogates.thy ===== *)
theory Py_Json_Surrogates
  imports Py_Json_Ascii_Roundtrip
begin

text \<open>
  What \<^verbatim>\<open>json.loads\<close> reads from a text decoded from UTF-8 can hold surrogates, from the escapes \<^verbatim>\<open>\uD800\<close> to
  \<^verbatim>\<open>\uDFFF\<close>, but never a high one directly followed by a low one: the scanner joins such a pair. So whatever is read can be
  written with \<^verbatim>\<open>ensure_ascii\<close> and read back unchanged.
\<close>

section \<open>Decoded text\<close>

lemma decode_utf8_scalar: "decode_utf8 False bs = Some s \<Longrightarrow> scalar_str s"
  by (drule decode_utf8_all) (simp add: scalar_str_def)

section \<open>Scanned strings\<close>

lemma hex4_scalar: "hex4 r = Some (u, r') \<Longrightarrow> scalar_str r \<Longrightarrow> scalar_str r'"
  by (cases r rule: hex4.cases) (auto split: option.splits)

lemma strip_prefix_scalar: "strip_prefix p s = Some r \<Longrightarrow> scalar_str s \<Longrightarrow> scalar_str r"
  by (auto simp: strip_prefix_def scalar_str_def list_all_iff split: if_splits dest: in_set_dropD)

lemma unicode_escape_scalar: "unicode_escape r = Some (u, r') \<Longrightarrow> scalar_str r \<Longrightarrow> scalar_str r'"
  by (auto simp: unicode_escape_def split: option.splits if_splits) (blast intro: hex4_scalar strip_prefix_scalar)+

text \<open>A high surrogate that the scanner leaves alone is not followed by the escape of a low one.\<close>

lemma unicode_escape_alone:
  assumes "unicode_escape r = Some (u, r')" and "is_high u"
  shows "strip_prefix [92, 117] r' = None \<or> no_low_escape r'"
  using assms
  by (auto simp: unicode_escape_def no_low_escape_def is_high_def is_low_def split: option.splits if_splits)

lemma unicode_escape_low:
  assumes "unicode_escape r = Some (u, r')" and "is_low u"
  shows "hex4 r = Some (u, r')"
  using assms by (auto simp: unicode_escape_def is_low_def split: option.splits if_splits)

text \<open>A scanned string starts with a low surrogate only where the text starts with its escape.\<close>

lemma scan_string_low:
  assumes "scan_string s = Some (c # t, r)" and "scalar_str s" and "is_low c"
  shows "\<not> no_low_escape s"
proof (cases s)
  case (Cons d s')
  have sc: "simple_escape e = Some u \<Longrightarrow> \<not> is_low u" for e u
    by (auto simp: simple_escape_def is_low_def split: if_splits)
  have d: "d = 92" "d \<noteq> 34"
    using assms Cons by (auto simp: is_low_def is_surrogate_def split: if_splits)
  then obtain e s2 where s': "s' = e # s2" using assms(1) Cons by (cases s') auto
  have e: "e = 117" using assms(1,3) Cons d s' sc by (auto split: if_splits option.splits)
  obtain u s3 where u: "unicode_escape s2 = Some (u, s3)" using assms(1) Cons d s' e by (auto split: option.splits)
  then have "u = c" using assms(1) Cons d s' e by auto
  then have "hex4 s2 = Some (c, s3)" using unicode_escape_low u assms(3) by blast
  then show ?thesis using Cons d s' e assms(3) by (simp add: no_low_escape_def strip_prefix_def)
qed (use assms(1) in simp)

lemma scan_string_pairless:
  "scan_string s = Some (t, r) \<Longrightarrow> scalar_str s \<Longrightarrow> pairless t \<and> scalar_str r"
proof (induction s arbitrary: t r rule: scan_string.induct)
  case (2 c s)
  have esc: "simple_escape e = Some u \<Longrightarrow> \<not> is_high u" for e u
    by (auto simp: simple_escape_def is_high_def split: if_splits)
  have step: "pairless (u # t')"
    if "scan_string q = Some (t', r)" "scalar_str q" "pairless t'" "is_high u \<Longrightarrow> no_low_escape q" for u t' q
    using that scan_string_low [of q] by (auto simp: pairless_Cons)
  consider "c = 34" | "c = 92" | "c \<noteq> 34" "c \<noteq> 92" "32 \<le> c"
    using "2.prems"(1) by (auto split: if_splits)
  then show ?case
  proof cases
    case 1
    with "2.prems" show ?thesis by simp
  next
    case 2
    obtain e s1 where s: "s = e # s1" using "2.prems"(1) 2 by (cases s) auto
    show ?thesis
    proof (cases "e = 117")
      case True
      obtain u s2 t' where u: "unicode_escape s1 = Some (u, s2)" "scan_string s2 = Some (t', r)" "t = u # t'"
        using "2.prems"(1) 2 s True by (auto split: option.splits)
      have s2: "scalar_str s2" using unicode_escape_scalar u(1) "2.prems"(2) s by simp
      have IH: "pairless t' \<and> scalar_str r" using "2.IH" s2 u 2 s True by auto
      have "no_low_escape s2" if "is_high u"
        using unicode_escape_alone [OF u(1) that] by (auto simp: no_low_escape_def)
      with IH step [OF u(2) s2] u(3) show ?thesis by simp
    next
      case False
      obtain u t' where u: "simple_escape e = Some u" "scan_string s1 = Some (t', r)" "t = u # t'"
        using "2.prems"(1) 2 s False by (auto split: option.splits)
      have s1: "scalar_str s1" using "2.prems"(2) s by simp
      have IH: "pairless t' \<and> scalar_str r" using "2.IH" s1 u 2 s False by auto
      with esc [OF u(1)] step [OF u(2) s1, of u] u(3) show ?thesis by simp
    qed
  next
    case 3
    obtain t' where u: "scan_string s = Some (t', r)" "t = c # t'"
      using "2.prems"(1) 3 by auto
    have s1: "scalar_str s" "\<not> is_high c" using "2.prems"(2) by (auto simp: is_high_def is_surrogate_def)
    have IH: "pairless t' \<and> scalar_str r" using "2.IH" s1 u 3 by auto
    with s1 step [OF u(1), of c] u(2) show ?thesis by simp
  qed
qed simp

section \<open>Read values\<close>

abbreviation pairless_val :: "pyval \<Rightarrow> bool" where
  "pairless_val v \<equiv> val_all pairless (\<lambda>x. True) v"

lemma scan_number_scalar: "scan_number s = Inr (v, r) \<Longrightarrow> scalar_str s \<Longrightarrow> pairless_val v \<and> scalar_str r"
  using scan_number_all [of s v r] unfolding scalar_str_def
  by (auto simp: scan_number_def Let_def split: option.splits prod.splits if_splits)

lemma scan_constant_scalar: "scan_constant s = Some (v, r) \<Longrightarrow> scalar_str s \<Longrightarrow> pairless_val v \<and> scalar_str r"
  using scan_constant_all [of s v r] unfolding scalar_str_def
  by (auto simp: scan_constant_def split: option.splits)

lemma update_all:
  "val_all P F (PDict d) \<Longrightarrow> P k \<Longrightarrow> val_all P F v \<Longrightarrow> val_all P F (PDict (AList.update (KStr k) v d))"
  by (induction d) auto

interpretation json_pairless: scanned_values scalar_str pairless pairless_val
proof (unfold_locales, goal_cases)
  case (9 d k v)
  then show ?case by (rule update_all)
qed (auto dest: scan_string_pairless scan_number_scalar scan_constant_scalar)

end
