(* ===== verification/Collector_Log.thy ===== *)
theory Collector_Log
  imports Collector_Server Collector_Reload Py_Json_Surrogates
begin

text \<open>
  The log of the collector: the formatter of \<^verbatim>\<open>src/collector/vestrix_collector/logging.py\<close> and the records that
  \<^verbatim>\<open>server.py\<close> and \<^verbatim>\<open>__main__.py\<close> give it. The lemmas show that whatever a peer sends, the entry of its connection
  is a well-formed dictionary with the keys the formatter expects, whose texts read back as they were written.
\<close>

section \<open>The formatter\<close>

record log_record =
  lr_created :: dt
  lr_levelname :: string
  lr_message :: pystr
  lr_event :: "string option"
  lr_decision_fields :: "pydict option"

text \<open>\<^verbatim>\<open>isoformat(timespec="milliseconds")\<close> of an aware UTC \<^verbatim>\<open>datetime\<close>.\<close>

definition iso_millis :: "dt \<Rightarrow> pystr" where
  "iso_millis t = (case dt_date t of (y, m, d) \<Rightarrow>
     pad_dec 4 y @ [45] @ pad_dec 2 m @ [45] @ pad_dec 2 d @ [84] @
     pad_dec 2 (dt_hour t) @ [58] @ pad_dec 2 (dt_minute t) @ [58] @ pad_dec 2 (dt_second t) @
     [46] @ pad_dec 3 (dt_micro t div 1000) @ lit ''+00:00'')"

definition format_output :: "log_record \<Rightarrow> pydict" where
  "format_output r =
     (let output =
        [(KStr (lit ''timestamp_utc''), PStr (iso_millis (lr_created r))),
         (KStr (lit ''level''), PStr (lit (lr_levelname r))),
         (KStr (lit ''event''), PStr (lit (case lr_event r of None \<Rightarrow> ''collector_log'' | Some e \<Rightarrow> e))),
         (KStr (lit ''message''), PStr (lr_message r))]
      in case lr_decision_fields r of None \<Rightarrow> output | Some flds \<Rightarrow> dict_update output flds)"

text \<open>\<open>None\<close> when \<^verbatim>\<open>json.dumps\<close> raises.\<close>

definition format_record :: "log_record \<Rightarrow> pystr option" where
  "format_record r = ascii_text (PDict (format_output r))"

section \<open>The records\<close>

definition named_items :: "(string \<times> pyval) list \<Rightarrow> pydict" where
  "named_items kvs = map (\<lambda>(k, v). (KStr (lit k), v)) kvs"

definition decision_record :: "dt \<Rightarrow> entry \<Rightarrow> log_record" where
  "decision_record now en =
     \<lparr>lr_created = now, lr_levelname = ''INFO'', lr_message = lit ''ingest '' @ lit (en_decision en),
      lr_event = Some ''ingest_decision'',
      lr_decision_fields = Some (named_items
        ((''decision'', PStr (lit (en_decision en))) # (''reason'', PStr (en_reason en)) # en_fields en))\<rparr>"

definition lifecycle_record :: "dt \<Rightarrow> lifecycle \<Rightarrow> log_record" where
  "lifecycle_record now l =
     (case l of
        SecurityStateReloaded n \<Rightarrow>
          \<lparr>lr_created = now, lr_levelname = ''INFO'', lr_message = lit ''collector security state reloaded'',
           lr_event = Some ''collector_lifecycle'',
           lr_decision_fields = Some (named_items
             [(''state'', PStr (lit ''security_state_reloaded'')), (''enrolled_node_count'', PInt (int n))])\<rparr>
      | SecurityStateReloadFailed name \<Rightarrow>
          \<lparr>lr_created = now, lr_levelname = ''ERROR'', lr_message = lit ''collector security-state reload failed'',
           lr_event = Some ''collector_lifecycle'',
           lr_decision_fields = Some (named_items
             [(''state'', PStr (lit ''security_state_reload_failed'')), (''error_type'', PStr (lit name))])\<rparr>)"

definition started_record :: "dt \<Rightarrow> pystr \<Rightarrow> int \<Rightarrow> log_record" where
  "started_record now host port =
     \<lparr>lr_created = now, lr_levelname = ''INFO'', lr_message = lit ''collector listening'',
      lr_event = Some ''collector_lifecycle'',
      lr_decision_fields = Some (named_items
        [(''host'', PStr host), (''port'', PInt port), (''state'', PStr (lit ''started''))])\<rparr>"

definition stopped_record :: "dt \<Rightarrow> log_record" where
  "stopped_record now =
     \<lparr>lr_created = now, lr_levelname = ''INFO'', lr_message = lit ''collector stopped'',
      lr_event = Some ''collector_lifecycle'',
      lr_decision_fields = Some (named_items [(''state'', PStr (lit ''stopped''))])\<rparr>"

text \<open>The root logger, and \<^verbatim>\<open>configure_logging\<close>: one handler, with the formatter above.\<close>

datatype log_formatter = PlainFormatter | JSONFormatter

record root_logger =
  rl_handlers :: "log_formatter list"
  rl_level :: int

definition configure_logging :: "int \<Rightarrow> root_logger \<Rightarrow> root_logger" where
  "configure_logging level logger = logger\<lparr>rl_handlers := [JSONFormatter], rl_level := level\<rparr>"

section \<open>Well-formed entries\<close>

definition RECORD_KEYS :: "string list" where
  "RECORD_KEYS = [''timestamp_utc'', ''level'', ''event'', ''message'', ''decision'', ''reason'']"

text \<open>Texts and values that the formatter writes and a JSON reader reads back.\<close>

definition good_text :: "pystr \<Rightarrow> bool" where
  "good_text s \<longleftrightarrow> wf_str s \<and> pairless s"

definition good_value :: "pyval \<Rightarrow> bool" where
  "good_value v \<longleftrightarrow> wf_json v \<and> readable_val v"

definition entry_ok :: "entry \<Rightarrow> bool" where
  "entry_ok en \<longleftrightarrow>
     good_text (en_reason en) \<and> distinct (map fst (en_fields en)) \<and>
     set (map fst (en_fields en)) \<inter> set RECORD_KEYS = {} \<and> (\<forall>kv \<in> set (en_fields en). good_value (snd kv))"

lemma good_text_scalar: "scalar_str s \<Longrightarrow> good_text s"
  by (auto simp: good_text_def wf_str_def scalar_str_def list_all_iff intro: scalar_pairless [unfolded scalar_str_def])

lemma good_lit [simp]: "good_text (lit s)"
  by (rule good_text_scalar) (rule scalar_lit)

lemma good_text_join:
  assumes "good_text s" and "good_text (c # t)" and "\<not> is_low c"
  shows "good_text (s @ c # t)"
  using assms pairless_append by (auto simp: good_text_def)

lemma good_value_simps [simp]:
  "good_value PNone" "good_value (PStr s) \<longleftrightarrow> good_text s" "good_value (PInt n) \<longleftrightarrow> wf_json (PInt n)"
  by (simp_all add: good_value_def good_text_def)

lemma pad_dec_bound: "c \<in> set (pad_dec w n) \<Longrightarrow> 48 \<le> c \<and> c < 58"
  by (induction w n rule: pad_dec.induct) auto

lemma iso_millis_bound: "c \<in> set (iso_millis t) \<Longrightarrow> c < 128"
  by (cases "dt_date t") (auto simp: iso_millis_def lit_def dest!: pad_dec_bound)

lemma map_named_items: "map_of (named_items kvs) (KStr (lit k)) = map_of kvs k"
  by (induction kvs) (auto simp: named_items_def)

lemma wf_named_items:
  "wf_json (PDict (named_items kvs)) \<longleftrightarrow> distinct (map fst kvs) \<and> (\<forall>kv \<in> set kvs. wf_json (snd kv))"
proof -
  have "distinct (map fst (named_items kvs)) \<longleftrightarrow> distinct (map fst kvs)"
    by (induction kvs) (force simp: named_items_def)+
  then show ?thesis using wf_lit by (auto simp: named_items_def case_prod_beta wf_json_PDict)
qed

definition base_items :: "log_record \<Rightarrow> (string \<times> pyval) list" where
  "base_items r =
     [(''timestamp_utc'', PStr (iso_millis (lr_created r))), (''level'', PStr (lit (lr_levelname r))),
      (''event'', PStr (lit (case lr_event r of None \<Rightarrow> ''collector_log'' | Some e \<Rightarrow> e))), (''message'', PStr (lr_message r))]"

lemma format_output_items:
  "lr_decision_fields r = Some flds \<Longrightarrow> format_output r = dict_update (named_items (base_items r)) flds"
  by (simp add: format_output_def Let_def named_items_def base_items_def)

lemma ascii_wf: "(\<And>c. c \<in> set s \<Longrightarrow> c < 128) \<Longrightarrow> wf_str s \<and> scalar_str s"
  by (force simp: wf_str_def scalar_str_def list_all_iff is_surrogate_def)

lemma iso_millis_wf: "wf_str (iso_millis t)" "scalar_str (iso_millis t)"
  using ascii_wf iso_millis_bound by blast+

lemma base_items_wf: "wf_str (lr_message r) \<Longrightarrow> wf_json (PDict (named_items (base_items r)))"
  unfolding wf_named_items by (simp add: base_items_def iso_millis_wf wf_lit)

text \<open>Every record with well-formed fields is written as one line of ASCII.\<close>

lemma format_record_line:
  assumes "wf_str (lr_message r)" and "\<And>flds. lr_decision_fields r = Some flds \<Longrightarrow> wf_json (PDict flds)"
  obtains line where "format_record r = Some line" and "ascii_line line"
proof -
  have "wf_json (PDict (format_output r))"
  proof (cases "lr_decision_fields r")
    case None
    then show ?thesis using base_items_wf [OF assms(1)]
      by (simp add: format_output_def Let_def named_items_def base_items_def)
  next
    case (Some flds)
    with assms show ?thesis
      unfolding format_output_items [OF Some] by (intro wf_dict_update base_items_wf)
  qed
  then have "json_typed (PDict (format_output r))" "wf_val (PDict (format_output r))" by (simp_all only: wf_json_def)
  then show thesis using that json_ascii_text ascii_text_line unfolding format_record_def by blast
qed

section \<open>The entries of a connection\<close>

lemma good_text_comma: "good_text s \<Longrightarrow> good_text (44 # s)"
  by (auto simp: good_text_def pairless_Cons is_high_def)

lemma good_names: "(\<forall>s \<in> set ns. good_text s) \<Longrightarrow> good_text (join_names ns)"
  unfolding join_names_def
proof (induction ns rule: join_comma.induct)
  case (3 t u ts)
  then have "good_text (44 # join_comma (u # ts))" by (intro good_text_comma) simp
  with 3 show ?case by (simp add: good_text_join is_low_def)
qed (auto simp: good_text_def)

lemma good_missing: "s \<in> set (missing_fields names d) \<Longrightarrow> good_text s"
  by (auto simp: missing_fields_def)

lemma good_unknown:
  assumes "wf_json (PDict d)" and "pairless_val (PDict d)" and "s \<in> set (unknown_fields names d)"
  shows "good_text s"
proof -
  obtain kv where "kv \<in> set d" "s = key_text (fst kv)" using assms(3) by (auto simp: unknown_fields_def dkeys_def)
  with assms(1,2) show ?thesis by (cases "fst kv") (auto simp: good_text_def wf_json_PDict)
qed

text \<open>A text that ends in a colon, and the names after it.\<close>

lemma good_colon: "good_text s \<Longrightarrow> good_text (lit (t @ '':'') @ s)"
proof -
  assume s: "good_text s"
  then have "good_text (58 # s)" by (auto simp: good_text_def pairless_Cons is_high_def)
  then have "good_text (lit t @ 58 # s)" by (intro good_text_join) (simp_all add: is_low_def)
  then show ?thesis by (simp add: lit_def)
qed

lemma payload_reason_good:
  assumes "validate_payload v = Inl e" and "wf_json v" and "pairless_val v"
  shows "good_text (payload_reason e)"
proof -
  have m: "good_text (payload_reason (MissingFields (missing_fields names d)))" for names d
    using good_colon [of _ "''missing_fields''"] good_names good_missing by simp
  have u: "good_text (payload_reason (UnknownFields (unknown_fields names d)))" if "v = PDict d" for names d
    using good_colon [of _ "''unknown_fields''"] good_names good_unknown assms(2,3) that by auto
  show ?thesis
    using assms(1) by (auto simp: validate_payload_def res_simps split: pyval.splits
        simp del: payload_reason.simps(2,3) missing_fields_Nil intro: m u)
qed

lemma read_json_line_scalar: "read_json_line evs limit = Inr raw \<Longrightarrow> scalar_str raw"
  by (auto simp: read_json_line_def res_simps split: option.splits dest: decode_utf8_scalar)

lemma read_value_good:
  assumes "read_json_line evs limit = Inr raw" and "loads_text raw = Inr v"
  shows "wf_json v" and "pairless_val v"
proof -
  have raw: "scalar_str raw" using assms(1) by (rule read_json_line_scalar)
  show "pairless_val v" using assms(2) raw by (rule json_pairless.loads_text_V)
  have "wf_str raw" using good_text_scalar [OF raw] by (simp add: good_text_def)
  with assms(2) show "wf_json v" by (rule loads_text_wf)
qed

lemma read_event_json:
  "read_event limit evs = Inr event \<Longrightarrow> wf_json (PDict event) \<and> payload_ok event"
  by (auto simp: read_event_def res_simps validate_payload_iff dest: read_value_good)

lemma ingest_reason_good:
  assumes "read_event limit evs = Inl e" and "ingest_reason e = Some reason"
  shows "good_text reason"
proof (cases e)
  case (PayloadInvalid p)
  then obtain raw v where "read_json_line evs limit = Inr raw" "loads_text raw = Inr v" "validate_payload v = Inl p"
    using assms(1) by (auto simp: read_event_def res_simps)
  then have "good_text (payload_reason p)" using read_value_good payload_reason_good by blast
  then show ?thesis using assms(2) PayloadInvalid by simp
next
  case (ReadFailed r)
  then show ?thesis using assms(2) by (cases r) auto
next
  case (JsonFailed j)
  then show ?thesis using assms(2) by (cases j) auto
qed

text \<open>The fields of an accepted payload are numbers and texts of plain characters.\<close>

lemma plain_fields:
  "payload_node_ok v \<Longrightarrow> readable_val v" "payload_sequence_ok v \<Longrightarrow> readable_val v" "hash_ok v \<Longrightarrow> readable_val v"
proof -
  have "pairless s" if "is_node_id s" for s
    using node_id_chars [OF that] by (intro scalar_pairless scalar_str_ascii) force
  then show "payload_node_ok v \<Longrightarrow> readable_val v" by (auto simp: payload_node_ok_def split: pyval.splits)
  have "pairless s" if "is_hash_text s" for s
    using that by (intro scalar_pairless scalar_str_ascii) (auto simp: is_hash_text_def list_all_iff is_hex_def)
  then show "hash_ok v \<Longrightarrow> readable_val v" by (cases v) auto
qed (auto simp: payload_sequence_ok_def split: pyval.splits)

lemma good_field:
  assumes "wf_json (PDict d) \<and> payload_ok d" and "k \<in> {''node_id'', ''sequence_number'', ''csi_window_sha256''}"
  shows "good_value (ditem_or_none d k)"
proof -
  have "readable_val (ditem_or_none d k)"
    using assms plain_fields by (auto simp: payload_ok_def item_ok_def ditem_or_none_def split: option.splits)
  moreover have "wf_json (ditem_or_none d k)" using assms(1) dget_wf by (auto simp: ditem_or_none_def split: option.splits)
  ultimately show ?thesis by (simp add: good_value_def)
qed

text \<open>The numbers in the register come from accepted payloads, so they are short.\<close>

definition short_register :: "(pystr \<Rightarrow> int option) \<Rightarrow> bool" where
  "short_register reg \<longleftrightarrow> (\<forall>k n. reg k = Some n \<longrightarrow> \<bar>n\<bar> < 2 ^ 64)"

definition good_outcome :: "collector \<Rightarrow> outcome \<Rightarrow> bool" where
  "good_outcome st out \<longleftrightarrow>
     short_register (co_last (snd out)) \<and>
     (case fst out of
        Inl e \<Rightarrow> co_log (snd out) = co_log st
      | Inr resp \<Rightarrow> (\<exists>en. co_log (snd out) = co_log st @ [en] \<and> entry_ok en))"

lemma good_reject:
  assumes "entry_ok \<lparr>en_decision = ''reject'', en_reason = reason, en_fields = flds\<rparr>"
    and "short_register (co_last st')" and "co_log st' = co_log st"
  shows "good_outcome st (reject_tls_socket reason flds st')"
  using assms by (simp add: good_outcome_def reject_tls_socket_def decision_def)

lemma entry_okI:
  assumes "good_text reason" and "distinct (map fst flds)" and "set (map fst flds) \<inter> set RECORD_KEYS = {}"
    and "\<forall>kv \<in> set flds. good_value (snd kv)"
  shows "entry_ok \<lparr>en_decision = w, en_reason = reason, en_fields = flds\<rparr>"
  using assms by (simp add: entry_ok_def)

lemma payload_short: "payload_ok d \<Longrightarrow> \<bar>int_item d ''sequence_number''\<bar> < 2 ^ 64"
  by (auto simp: payload_ok_def item_ok_def payload_sequence_ok_def int_item_def MAX_SEQUENCE_NUMBER_def
      split: option.splits pyval.splits)

lemma good_hand_off:
  assumes "good_text peer" and "good_text cn" and "wf_json (PDict event) \<and> payload_ok event" and "short_register (co_last st)"
  shows "good_outcome st (hand_off env peer cn event st)"
proof (cases "collector_log_event env event (co_chain st)")
  case (Pair res f')
  have "entry_ok \<lparr>en_decision = ''accept'', en_reason = lit ''authenticated_event_handed_off'',
      en_fields = [(''peer'', PStr peer), (''node_id'', PStr cn),
        (''sequence_number'', ditem_or_none event ''sequence_number''),
        (''csi_window_sha256'', ditem_or_none event ''csi_window_sha256'')]\<rparr>"
    by (rule entry_okI) (simp_all add: RECORD_KEYS_def assms good_field)
  moreover have "entry_ok \<lparr>en_decision = ''reject'', en_reason = lit ''forensics_handoff_failed'',
      en_fields = [(''peer'', PStr peer), (''node_id'', PStr cn),
        (''sequence_number'', ditem_or_none event ''sequence_number''), (''error_type'', PStr (lit name))]\<rparr>" for name
    by (rule entry_okI) (simp_all add: RECORD_KEYS_def assms good_field)
  ultimately show ?thesis
    using Pair assms(4)
    by (cases res) (auto simp: hand_off_def good_outcome_def decision_def reject_tls_socket_def)
qed

text \<open>
  What the program is given: the text of a socket address, and common names that \<^verbatim>\<open>getpeercert\<close> decoded from UTF-8, so both
  without surrogates.
\<close>

definition wf_connection :: "pystr \<Rightarrow> certificate \<Rightarrow> bool" where
  "wf_connection peer cert \<longleftrightarrow> scalar_str peer \<and> (\<forall>cn \<in> set (certificate_common_names cert). scalar_str cn)"

lemma good_refused:
  assumes "wf_connection peer cert" and "short_register (co_last st)"
    and "admit limit peer enrolled cert evs st = Inl out"
  shows "good_outcome st out"
proof (cases "\<exists>cn. certificate_common_names cert = [cn] \<and> cn \<in> set enrolled")
  case False
  have p: "good_text peer" "\<And>cn. cn \<in> set (certificate_common_names cert) \<Longrightarrow> good_text cn"
    using assms(1) by (auto simp: wf_connection_def intro: good_text_scalar)
  have e: "entry_ok \<lparr>en_decision = ''reject'', en_reason = lit ''invalid_certificate_cn'', en_fields = [(''peer'', PStr peer)]\<rparr>"
    by (rule entry_okI) (simp_all add: RECORD_KEYS_def p(1))
  have u: "good_text cn \<Longrightarrow> entry_ok \<lparr>en_decision = ''reject'', en_reason = lit ''unenrolled_certificate_cn'',
      en_fields = [(''peer'', PStr peer), (''certificate_node_id'', PStr cn)]\<rparr>" for cn
    by (rule entry_okI) (simp_all add: RECORD_KEYS_def p(1))
  show ?thesis
    using False assms(3) p(2) good_reject [OF e assms(2) refl] good_reject [OF u assms(2) refl]
    by (auto simp: admit_def split: list.splits if_splits)
next
  case True
  then obtain cn where cn: "certificate_common_names cert = [cn]" "cn \<in> set enrolled" by blast
  then have p: "good_text peer" "good_text cn"
    using assms(1) by (auto simp: wf_connection_def intro: good_text_scalar)
  show ?thesis
  proof (cases "read_event limit evs")
    case (Inl e)
    show ?thesis
    proof (cases "ingest_reason e")
      case None
      then show ?thesis using cn Inl assms(2,3) by (auto simp: admit_def good_outcome_def)
    next
      case (Some reason)
      have "entry_ok \<lparr>en_decision = ''reject'', en_reason = reason,
          en_fields = [(''peer'', PStr peer), (''certificate_node_id'', PStr cn)]\<rparr>"
        by (rule entry_okI) (simp_all add: RECORD_KEYS_def p ingest_reason_good [OF Inl Some])
      from good_reject [OF this assms(2) refl] show ?thesis
        using cn Inl Some assms(3) by (auto simp: admit_def)
    qed
  next
    case (Inr event)
    note ev = good_field [OF read_event_json [OF Inr]]
    have m: "entry_ok \<lparr>en_decision = ''reject'', en_reason = lit ''node_id_certificate_cn_mismatch'',
        en_fields = [(''peer'', PStr peer), (''certificate_node_id'', PStr cn),
          (''payload_node_id'', ditem_or_none event ''node_id''),
          (''sequence_number'', ditem_or_none event ''sequence_number'')]\<rparr>"
      by (rule entry_okI) (simp_all add: RECORD_KEYS_def p ev)
    have last: "good_value (case co_last st cn of None \<Rightarrow> PNone | Some n \<Rightarrow> PInt n)"
      using assms(2) by (auto simp: short_register_def wf_json_int split: option.splits)
    have r: "entry_ok \<lparr>en_decision = ''reject'', en_reason = lit ''replayed_or_out_of_order_sequence'',
        en_fields = [(''peer'', PStr peer), (''node_id'', PStr cn),
          (''sequence_number'', ditem_or_none event ''sequence_number''),
          (''last_sequence_number'', case co_last st cn of None \<Rightarrow> PNone | Some n \<Rightarrow> PInt n)]\<rparr>"
      by (rule entry_okI) (simp_all add: RECORD_KEYS_def p ev last)
    show ?thesis
      using cn Inr assms(2,3) good_reject [OF m assms(2) refl] good_reject [OF r assms(2) refl]
      by (auto simp: admit_def good_outcome_def split: sum.splits if_splits prod.splits)
  qed
qed

lemma good_admitted:
  assumes "wf_connection peer cert" and "short_register (co_last st)"
    and "admit limit peer enrolled cert evs st = Inr (cn, event, st')"
  shows "good_text cn" and "wf_json (PDict event) \<and> payload_ok event" and "co_log st' = co_log st" and "short_register (co_last st')"
proof -
  note a = admit_Inr [OF assms(3)]
  show "good_text cn" using assms(1) a(1) by (auto simp: wf_connection_def intro: good_text_scalar)
  show "wf_json (PDict event) \<and> payload_ok event" using a(3) by (rule read_event_json)
  show "co_log st' = co_log st" using a(6) by auto
  show "short_register (co_last st')"
    using a(6) assms(2) payload_short [OF a(4)]
    by (auto simp: short_register_def reserve_sequence_def split: option.splits if_splits)
qed

lemma good_handled:
  assumes "wf_connection peer cert" and "short_register (co_last st)"
  shows "good_outcome st (handle_tls_socket limit env peer enrolled cert evs st)"
proof (cases "admit limit peer enrolled cert evs st")
  case (Inl out)
  with good_refused [OF assms Inl] show ?thesis by (simp add: handle_tls_socket_def)
next
  case (Inr x)
  obtain cn event st' where x: "x = (cn, event, st')" by (cases x)
  note a = good_admitted [OF assms Inr [unfolded x]]
  have "good_text peer" using assms(1) by (simp add: wf_connection_def good_text_scalar)
  then have "good_outcome st (hand_off env peer cn event st')"
    using good_hand_off [OF _ a(1,2,4), of peer env] unfolding good_outcome_def a(3) by blast
  moreover have "handle_tls_socket limit env peer enrolled cert evs st = hand_off env peer cn event st'"
    using Inr x by (simp add: handle_tls_socket_def)
  ultimately show ?thesis by metis
qed

lemma socket_entry:
  assumes "handle_socket limit env peer enrolled handshake evs st = (answer, st')"
    and "scalar_str peer" and "\<And>cert. handshake = Inr cert \<Longrightarrow> wf_connection peer cert" and "short_register (co_last st)"
  shows "\<exists>en. co_log st' = co_log st @ [en] \<and> entry_ok en \<and> short_register (co_last st')"
proof (cases handshake)
  case (Inl name)
  have "entry_ok \<lparr>en_decision = ''reject'', en_reason = lit ''tls_handshake_failed'',
      en_fields = [(''peer'', PStr peer), (''error_type'', PStr (lit name))]\<rparr>"
    by (rule entry_okI) (simp_all add: RECORD_KEYS_def good_text_scalar [OF assms(2)])
  then show ?thesis using assms(1,4) Inl by (auto simp: handle_socket_def decision_def)
next
  case (Inr cert)
  obtain r s where out: "handle_tls_socket limit env peer enrolled cert evs st = (r, s)" by fastforce
  have good: "good_outcome st (r, s)" using good_handled [OF assms(3) [OF Inr] assms(4)] out by metis
  have "entry_ok \<lparr>en_decision = ''reject'', en_reason = lit ''internal_server_error'',
      en_fields = [(''peer'', PStr peer), (''error_type'', PStr (lit name))]\<rparr>" for name
    by (rule entry_okI) (simp_all add: RECORD_KEYS_def good_text_scalar [OF assms(2)])
  then show ?thesis
    using good assms(1) Inr out
    by (cases r) (auto simp: handle_socket_def good_outcome_def decision_def)
qed

section \<open>Reading an entry back\<close>

lemma decision_fields_wf: "entry_ok en \<Longrightarrow> lr_decision_fields (decision_record now en) = Some flds \<Longrightarrow> wf_json (PDict flds)"
  by (auto simp: decision_record_def entry_ok_def good_text_def good_value_def wf_named_items wf_lit RECORD_KEYS_def simp del: wf_json_simps(5))

lemma decision_output_get:
  assumes "entry_ok en"
  shows "dget (format_output (decision_record now en)) k =
    map_of ((''decision'', PStr (lit (en_decision en))) # (''reason'', PStr (en_reason en)) # en_fields en @
      base_items (decision_record now en)) k"
proof -
  let ?flds = "(''decision'', PStr (lit (en_decision en))) # (''reason'', PStr (en_reason en)) # en_fields en"
  have f: "lr_decision_fields (decision_record now en) = Some (named_items ?flds)" by (simp add: decision_record_def)
  have "distinct (map fst (named_items ?flds))"
    using decision_fields_wf [OF assms f] by (simp only: wf_json_PDict)
  then show ?thesis
    unfolding format_output_items [OF f] dget_def
    by (subst map_of_dict_update) (auto simp: map_named_items map_add_def split: option.splits)
qed

lemma decision_output_wf:
  assumes "entry_ok en"
  shows "wf_json (PDict (format_output (decision_record now en)))"
proof -
  obtain flds where f: "lr_decision_fields (decision_record now en) = Some flds" by (simp add: decision_record_def)
  have "wf_str (lr_message (decision_record now en))" by (simp add: decision_record_def wf_lit)
  then show ?thesis
    unfolding format_output_items [OF f] by (intro wf_dict_update base_items_wf decision_fields_wf [OF assms f])
qed

lemma readable_named_items: "(\<forall>kv \<in> set kvs. readable_val (snd kv)) \<Longrightarrow> readable_val (PDict (named_items kvs))"
  by (auto simp: named_items_def intro: scalar_pairless)

lemma decision_output_readable:
  assumes "entry_ok en"
  shows "readable_val (PDict (format_output (decision_record now en)))"
proof -
  let ?flds = "(''decision'', PStr (lit (en_decision en))) # (''reason'', PStr (en_reason en)) # en_fields en"
  have f: "lr_decision_fields (decision_record now en) = Some (named_items ?flds)" by (simp add: decision_record_def)
  have texts: "pairless (lit t)" "pairless (iso_millis now)" "pairless (lit t @ lit u)" for t u
    using iso_millis_wf by (auto intro!: scalar_pairless)
  show ?thesis
    unfolding format_output_items [OF f] using assms
    by (intro dict_update_all readable_named_items)
      (simp_all add: base_items_def texts decision_record_def entry_ok_def good_text_def good_value_def)
qed

text \<open>The line of an entry reads back as its fields.\<close>

lemma decision_line_reads:
  assumes "entry_ok en" and "format_record (decision_record now en) = Some line"
  obtains d where "loads_text line = Inr (PDict d)"
    and "\<And>k. dget d k = map_option norm_val (map_of ((''decision'', PStr (lit (en_decision en))) #
      (''reason'', PStr (en_reason en)) # en_fields en @ base_items (decision_record now en)) k)"
proof -
  let ?out = "format_output (decision_record now en)"
  have wf: "wf_val (PDict ?out)" using decision_output_wf [OF assms(1)] by (simp only: wf_json_def)
  have "loads_text line = Inr (norm_val (PDict ?out))"
    using assms(2) wf decision_output_readable [OF assms(1)] unfolding format_record_def by (rule loads_ascii)
  moreover have "distinct (map fst ?out)" using wf by simp
  ultimately show thesis
    using that [of "norm_dict ?out"] decision_output_get [OF assms(1)]
    by (simp add: norm_val_PDict dget_norm_dict del: norm_val.simps)
qed

end
