(* ===== verification/Collector_Setup_Properties.thy ===== *)
theory Collector_Setup_Properties
  imports Collector_Config Collector_Log Collector_Properties
begin

text \<open>
  The properties of the configuration of the collector, of the reload of its security state and of its log lines.
\<close>

section \<open>A sample configuration\<close>

definition sample_tls :: pydict where
  "sample_tls =
     [(KStr (lit ''ca_cert''), PStr (lit ''ca.crt'')), (KStr (lit ''crl_path''), PStr (lit ''ca.crl'')),
      (KStr (lit ''server_cert''), PStr (lit ''server.crt'')), (KStr (lit ''server_key''), PStr (lit ''/k.key''))]"

definition sample_server :: pydict where
  "sample_server = [(KStr (lit ''host''), PStr (lit ''0.0.0.0'')), (KStr (lit ''port''), PInt 8443),
     (KStr (lit ''read_timeout_seconds''), PInt 5)]"

definition sample_root :: pydict where
  "sample_root = [(KStr (lit ''tls''), PDict sample_tls), (KStr (lit ''allowlist_path''), PStr (lit ''nodes.yaml'')),
     (KStr (lit ''server''), PDict sample_server)]"

definition sample_resolve :: "pystr \<Rightarrow> pystr option" where
  "sample_resolve s = Some (lit ''/etc/'' @ s)"

definition sample_config :: collector_config where
  "sample_config =
     \<lparr>cc_tls = \<lparr>tc_ca_cert = lit ''/etc/ca.crt'', tc_crl_path = lit ''/etc/ca.crl'',
        tc_server_cert = lit ''/etc/server.crt'', tc_server_key = lit ''/k.key''\<rparr>,
      cc_allowlist_path = lit ''/etc/nodes.yaml'',
      cc_server = \<lparr>sc_host = lit ''0.0.0.0'', sc_port = 8443, sc_handshake_timeout_seconds = default_timeout,
        sc_read_timeout_seconds = the (f64_of_int 5), sc_max_payload_bytes = 65536\<rparr>\<rparr>"

lemma default_timeout_positive: "\<not> f64_le default_timeout f64_zero"
proof -
  have "dec_mag 100 1 = int_mag 10"
    using round_units_exact [of 10 "int_mag 10"] mag_val_int_mag(1) [of 10] by (simp add: dec_mag_def)
  moreover have "int_mag 10 < inf_mag" "0 < int_mag 10"
    using mag_val_int_mag(2) [of 10] by (simp_all add: int_mag_def)
  ultimately show ?thesis
    by (simp add: default_timeout_def f64_of_dec_def f64_le_def f64_key_def f64_zero_def inf_mag_def)
qed

lemma sample_config_doc: "config_doc sample_resolve (PDict sample_root) sample_config"
proof -
  have p: "path_of sample_resolve (PStr (lit ''ca.crt'')) = Some (lit ''/etc/ca.crt'')"
    "path_of sample_resolve (PStr (lit ''ca.crl'')) = Some (lit ''/etc/ca.crl'')"
    "path_of sample_resolve (PStr (lit ''server.crt'')) = Some (lit ''/etc/server.crt'')"
    "path_of sample_resolve (PStr (lit ''/k.key'')) = Some (lit ''/k.key'')"
    "path_of sample_resolve (PStr (lit ''nodes.yaml'')) = Some (lit ''/etc/nodes.yaml'')"
    by (simp_all add: path_of_def sample_resolve_def is_absolute_def is_space_def lit_def)
  have t: "tls_doc sample_resolve sample_tls (cc_tls sample_config)"
    by (simp add: tls_doc_def dkeys_def named_keys_def TLS_KEYS_def sample_tls_def path_item_def dget_def sample_config_def p)
  have s: "server_doc sample_server (cc_server sample_config)"
    using f64_of_int_exact [of 5] default_timeout_positive
    by (simp add: server_doc_def dkeys_def named_keys_def SERVER_KEYS_def SERVER_OPTIONAL_KEYS_def sample_server_def
        dget_def sample_config_def timeout_of_def config_get_def) (simp add: is_space_def lit_def)
  have "path_item sample_resolve sample_root ''allowlist_path'' (cc_allowlist_path sample_config)"
    by (simp add: path_item_def sample_root_def dget_def p sample_config_def)
  moreover have "set (dkeys sample_root) = named_keys ROOT_KEYS" "dget sample_root ''tls'' = Some (PDict sample_tls)"
    "dget sample_root ''server'' = Some (PDict sample_server)"
    by (simp_all add: sample_root_def dkeys_def named_keys_def ROOT_KEYS_def dget_def)
  ultimately show ?thesis using t s unfolding config_doc_def by blast
qed

section \<open>The configuration\<close>

text \<open>
  C30. The loader accepts exactly the documents of the contract: UTF-8 text that PyYAML reads as a mapping with
  exactly the three keys, the four paths of \<^verbatim>\<open>tls\<close>, and a server with a host, a port and values or defaults for
  the rest; the configuration holds these values, relative paths resolved.
\<close>

theorem load_config_accepts_exactly:
  "load_config resolve yaml file = Inr cfg \<longleftrightarrow>
     (\<exists>bs s v. file = Some bs \<and> decode_utf8 False bs = Some s \<and> yaml s = YamlValue v \<and> config_doc resolve v cfg)"
  unfolding load_config_iff read_yaml_iff by blast

lemma config_doc_parts:
  assumes "config_doc resolve v cfg" and "\<And>s p. resolve s = Some p \<Longrightarrow> is_absolute p"
  shows "list_all is_absolute [tc_ca_cert (cc_tls cfg), tc_crl_path (cc_tls cfg), tc_server_cert (cc_tls cfg),
      tc_server_key (cc_tls cfg), cc_allowlist_path cfg]"
proof -
  have "is_absolute p" if item: "path_item resolve d k p" for d k p
  proof -
    obtain x where "path_of resolve x = Some p" using item by (auto simp: path_item_def)
    then show ?thesis using assms(2) by (cases x) (auto simp: path_of_def split: if_splits)
  qed
  with assms(1) show ?thesis unfolding config_doc_def tls_doc_def by auto
qed

lemma int_timeout:
  assumes "f64_of_int n = Some x" and "0 < n"
  shows "f64_le f64_one x"
proof -
  define m where "m = dec_mag (nat n) 0"
  have x: "x = mk_f64 False m" "m < inf_mag"
    using assms by (auto simp: f64_of_int_def Let_def m_def split: if_splits)
  have "mag_val 4607182418800017408 = f64_unit"
    using mag_val_int_mag(1) [of 1] by (simp add: int_mag_def floorlog_def)
  moreover have "1 \<le> nat n" using assms(2) by simp
  ultimately have "mag_val 4607182418800017408 * 1 \<le> nat n * f64_unit" using f64_unit_pos by simp
  then have "4607182418800017408 \<le> m"
    unfolding m_def dec_mag_def using round_units_ge [of 1 4607182418800017408 "nat n * f64_unit"] by simp
  then show ?thesis
    using x by (simp add: f64_le_def f64_isnan_def f64_key_def f64_one_def inf_mag_def)
qed

lemma timeout_positive:
  assumes "timeout_of v = Some x"
  shows "f64_isnan x \<or> 0 < f64_key x"
proof (cases v)
  case (PInt n)
  then have "0 < n" "f64_of_int n = Some x" using assms by (auto simp: timeout_of_def split: if_splits)
  then have "f64_le f64_one x" by (rule int_timeout [rotated])
  then show ?thesis by (simp add: f64_le_def f64_key_def f64_one_def inf_mag_def)
next
  case (PFloat y)
  then have "\<not> f64_le x f64_zero" using assms by (auto simp: timeout_of_def split: if_splits)
  then show ?thesis by (auto simp: f64_le_def f64_isnan_def f64_key_def f64_zero_def inf_mag_def)
qed (use assms in \<open>simp_all add: timeout_of_def\<close>)

text \<open>
  C31. The values of a loaded configuration are in range: the five paths are absolute when \<^verbatim>\<open>Path.resolve\<close> gives
  absolute paths, the host is not blank, the port is from 1 to 65535, the payload limit is at least 1, and each
  timeout is a positive number, possibly infinite, or NaN.
\<close>

theorem loaded_config_in_range:
  assumes "load_config resolve yaml file = Inr cfg" and "\<And>s p. resolve s = Some p \<Longrightarrow> is_absolute p"
  shows "list_all is_absolute [tc_ca_cert (cc_tls cfg), tc_crl_path (cc_tls cfg), tc_server_cert (cc_tls cfg),
      tc_server_key (cc_tls cfg), cc_allowlist_path cfg] \<and>
    (\<exists>c \<in> set (sc_host (cc_server cfg)). \<not> is_space c) \<and>
    1 \<le> sc_port (cc_server cfg) \<and> sc_port (cc_server cfg) \<le> 65535 \<and> 1 \<le> sc_max_payload_bytes (cc_server cfg) \<and>
    list_all (\<lambda>x. f64_isnan x \<or> 0 < f64_key x)
      [sc_handshake_timeout_seconds (cc_server cfg), sc_read_timeout_seconds (cc_server cfg)]"
proof -
  obtain v where v: "config_doc resolve v cfg" using assms(1) by (auto simp: load_config_iff)
  then obtain server where s: "server_doc server (cc_server cfg)" by (auto simp: config_doc_def)
  note paths = config_doc_parts [OF v assms(2)]
  obtain a b where t: "timeout_of a = Some (sc_handshake_timeout_seconds (cc_server cfg))"
    "timeout_of b = Some (sc_read_timeout_seconds (cc_server cfg))"
    using s unfolding server_doc_def by blast
  have "list_all (\<lambda>x. f64_isnan x \<or> 0 < f64_key x)
      [sc_handshake_timeout_seconds (cc_server cfg), sc_read_timeout_seconds (cc_server cfg)]"
    using timeout_positive [OF t(1)] timeout_positive [OF t(2)] by simp
  with paths s show ?thesis unfolding server_doc_def by auto
qed

lemma sample_load: "load_config sample_resolve (\<lambda>_. YamlValue (PDict sample_root)) (Some []) = Inr sample_config"
  using sample_config_doc unfolding load_config_iff read_yaml_iff by auto

theorem loaded_config_in_range_witness:
  "1 \<le> sc_port (cc_server sample_config) \<and> 1 \<le> sc_max_payload_bytes (cc_server sample_config)"
proof -
  have "is_absolute p" if "sample_resolve s = Some p" for s p
    using that by (auto simp: sample_resolve_def is_absolute_def lit_def)
  with loaded_config_in_range [OF sample_load] show ?thesis by blast
qed

text \<open>What the document must hold for an exception other than \<^verbatim>\<open>ConfigError\<close>.\<close>

definition config_fails :: "(pystr \<Rightarrow> pystr option) \<Rightarrow> (pystr \<Rightarrow> yaml_answer) \<Rightarrow> bytestr option \<Rightarrow> config_exn \<Rightarrow> bool" where
  "config_fails resolve yaml file e \<longleftrightarrow>
     (case e of
        ConfigError r \<Rightarrow> True
      | ConfigNotUtf8 \<Rightarrow> (\<exists>bs. file = Some bs \<and> decode_utf8 False bs = None)
      | ConfigYamlValue \<Rightarrow> (\<exists>bs s. file = Some bs \<and> decode_utf8 False bs = Some s \<and> yaml s = YamlValueError)
      | ConfigOverflow \<Rightarrow> (\<exists>root server k n. read_yaml yaml file = Inr (PDict root) \<and> dget root ''server'' = Some (PDict server) \<and>
          k \<in> {''handshake_timeout_seconds'', ''read_timeout_seconds''} \<and> dget server k = Some (PInt n) \<and> f64_of_int n = None)
      | ConfigResolve \<Rightarrow> (\<exists>s. resolve s = None)
      | ConfigKeyError k \<Rightarrow> False)"

lemma raises_config:
  "raises (config_fails resolve yaml file) (read_yaml yaml file)"
  "raises (config_fails resolve yaml file) (config_mapping v name)"
  "raises (config_fails resolve yaml file) (config_keys d required optional name)"
  "raises (config_fails resolve yaml file) (exact_keys d expected name)"
  "raises (config_fails resolve yaml file) (config_host v)"
  "raises (config_fails resolve yaml file) (config_port v)"
  "raises (config_fails resolve yaml file) (positive_int v name)"
  "raises (config_fails resolve yaml file) (resolve_path resolve v name)"
  by (auto simp: raises_def config_fails_def read_yaml_def config_mapping_def config_keys_def exact_keys_def
      config_host_def config_port_def positive_int_def resolve_path_def res_simps
      split: option.splits yaml_answer.splits pyval.splits if_splits)

lemma raises_config_item:
  "KStr (lit k) \<in> set (dkeys d) \<Longrightarrow> raises P (config_item d k)"
  using dget_None_iff [of d k] by (auto simp: config_item_def split: option.splits)

lemma raises_timeout:
  assumes "read_yaml yaml file = Inr (PDict r)" and "dget r ''server'' = Some (PDict server)"
    and "k \<in> {''handshake_timeout_seconds'', ''read_timeout_seconds''}"
  shows "raises (config_fails resolve yaml file) (positive_float (config_get server k (PFloat x)) name)"
  using assms
  by (auto simp: raises_def config_fails_def positive_float_def config_get_def
      split: option.splits pyval.splits if_splits)

lemma mapped:
  "config_mapping v name = Inr d \<Longrightarrow> list_all is_kstr (dkeys d)"
  "rbind (config_item a k) (\<lambda>v. config_mapping v name) = Inr d \<Longrightarrow> list_all is_kstr (dkeys d)"
  by (auto simp: config_item_iff config_mapping_iff)

lemma key_in:
  "list_all is_kstr (dkeys d) \<Longrightarrow> exact_keys d expected name = Inr u \<Longrightarrow> k \<in> set expected \<Longrightarrow> KStr (lit k) \<in> set (dkeys d)"
  "list_all is_kstr (dkeys d) \<Longrightarrow> config_keys d expected optional name = Inr u \<Longrightarrow> k \<in> set expected \<Longrightarrow>
    KStr (lit k) \<in> set (dkeys d)"
  by (auto simp: exact_keys_iff config_keys_iff named_keys_def)

lemma raises_tls:
  assumes "list_all is_kstr (dkeys d)" and "exact_keys d TLS_KEYS name = Inr u"
  shows "raises (config_fails resolve yaml file) (config_tls resolve d)"
  unfolding config_tls_def
  by (intro raises_rbind raises_config raises_config_item key_in(1) [OF assms] raises_Inr) (simp_all add: TLS_KEYS_def)

lemma raises_server:
  assumes "read_yaml yaml file = Inr (PDict r)" and "dget r ''server'' = Some (PDict server)"
  shows "raises (config_fails resolve yaml file) (config_server host port server)"
  unfolding config_server_def
  by (intro raises_rbind raises_config raises_timeout [OF assms] raises_Inr) simp_all

text \<open>
  Besides \<^verbatim>\<open>ConfigError\<close> only four exceptions leave the loader: \<^verbatim>\<open>UnicodeDecodeError\<close> for a file that is not
  UTF-8, a \<^verbatim>\<open>ValueError\<close> PyYAML raises itself, \<^verbatim>\<open>OverflowError\<close> for a timeout that is an integer too large for a
  float, and what \<^verbatim>\<open>Path.resolve\<close> raises. No subscript raises \<^verbatim>\<open>KeyError\<close>.
\<close>

theorem config_exceptions:
  assumes "load_config resolve yaml file = Inl e"
  shows "config_fails resolve yaml file e"
proof -
  have "raises (config_fails resolve yaml file) (load_config resolve yaml file)"
    unfolding load_config_def
    by (intro raises_rbind raises_config raises_config_item raises_tls raises_server raises_Inr;
        (erule mapped, assumption)?;
        (simp add: config_item_iff config_mapping_iff exact_keys_iff config_keys_iff named_keys_def ROOT_KEYS_def SERVER_KEYS_def; fail)?;
        auto simp: config_item_iff config_mapping_iff)
  with assms show ?thesis by (simp add: raises_def)
qed

lemma sample_not_utf8: "load_config sample_resolve (\<lambda>_. YamlError) (Some [255]) = Inl ConfigNotUtf8"
  by (simp add: load_config_def read_yaml_def Let_def)

theorem config_exceptions_witness:
  "config_fails sample_resolve (\<lambda>_. YamlError) (Some [255]) ConfigNotUtf8"
  by (rule config_exceptions [OF sample_not_utf8])

section \<open>The security state\<close>

text \<open>
  C32. Whatever signals arrive, files change and reloads fail, the allow-list and the TLS context in force are a pair
  one load has published, every connection works with such a pair, every published allow-list is non-empty and
  without duplicates, and the log has one success entry for each reload published, with its number of nodes.
\<close>

theorem security_state_published:
  assumes "open_server a c = Inr s0" and "sec_run es s0 = Some s"
  shows "last (sy_published s) = (sy_enrolled_nodes s, sy_tls_context s) \<and>
    (\<forall>t p. sy_snapshot s t = Some p \<longrightarrow> p \<in> set (sy_published s)) \<and>
    (\<forall>p \<in> set (sy_published s). enrolled_ok (fst p)) \<and>
    map (\<lambda>p. SecurityStateReloaded (length (fst p))) (tl (sy_published s)) = filter reload_counts (sy_log s)"
  using sec_run_inv [OF assms(2) open_server_inv [OF assms(1)]] unfolding security_inv_def by blast

definition sample_nodes :: "string \<Rightarrow> pyval" where
  "sample_nodes n = PDict [(KStr (lit ''nodes''), PList [PStr (lit n)])]"

definition sample_security :: "nat security" where
  "sample_security =
     \<lparr>sy_allowlist = LoadedYaml (sample_nodes ''node-1''), sy_context_file = Inr 0, sy_enrolled_nodes = [lit ''node-1''],
      sy_tls_context = 0, sy_task = NoReload, sy_snapshot = (\<lambda>_. None), sy_log = [],
      sy_published = [([lit ''node-1''], 0)]\<rparr>"

lemma sample_nodes_load: "n \<noteq> [] \<Longrightarrow> load_enrolled_nodes (LoadedYaml (sample_nodes n)) = Inr [lit n]"
  by (simp add: load_enrolled_nodes_def sample_nodes_def dkeys_def dget_def)

lemma sample_open: "open_server (LoadedYaml (sample_nodes ''node-1'')) (Inr 0) = Inr sample_security"
  by (simp add: open_server_def load_security_state_def sample_nodes_load sample_security_def)

theorem security_state_published_witness:
  "\<exists>s. sec_run [OpenConnection 0, Sighup, ReloadStep] sample_security = Some s \<and>
    last (sy_published s) = (sy_enrolled_nodes s, sy_tls_context s) \<and> sy_snapshot s 0 \<noteq> None"
proof -
  obtain s where s: "sec_run [OpenConnection 0, Sighup, ReloadStep] sample_security = Some s" "sy_snapshot s 0 \<noteq> None"
    by (simp add: take_snapshot_def request_reload_def reload_step_def sample_security_def sample_nodes_load)
  from security_state_published [OF sample_open s(1)] s show ?thesis by blast
qed

text \<open>
  A reload that nothing interrupts ends after at most three steps, and does what loading the files does: it
  publishes their allow-list and context and logs the number of nodes, or changes neither and logs the failure.
\<close>

theorem reload_loads_the_files:
  assumes "sy_task s = NoReload"
  shows "\<exists>es s'. sec_run (Sighup # es) s = Some s' \<and> set es = {ReloadStep} \<and> length es \<le> 3 \<and> sy_task s' = NoReload \<and>
    (case load_security_state (sy_allowlist s) (sy_context_file s) of
       Inr (nodes, tls) \<Rightarrow> sy_enrolled_nodes s' = nodes \<and> sy_tls_context s' = tls \<and>
         sy_log s' = sy_log s @ [SecurityStateReloaded (length nodes)]
     | Inl e \<Rightarrow> sy_enrolled_nodes s' = sy_enrolled_nodes s \<and> sy_tls_context s' = sy_tls_context s \<and>
         sy_log s' = sy_log s @ [SecurityStateReloadFailed (load_exn_name e)])"
proof (intro exI conjI)
  show "sec_run (Sighup # tl (reload_events s)) s = Some (whole_reload s)"
    using whole_reload_runs [OF assms] by (simp add: reload_events_def)
qed (auto simp: reload_events_def whole_reload_def reload_failed_def publish_def split: sum.splits)

theorem reload_loads_the_files_witness:
  "\<exists>es s'. sec_run (Sighup # es) sample_security = Some s' \<and> sy_task s' = NoReload \<and>
    sy_log s' = [SecurityStateReloaded 1]"
proof -
  have "sy_task sample_security = NoReload" by (simp add: sample_security_def)
  from reload_loads_the_files [OF this] show ?thesis
    by (auto simp: load_security_state_def sample_security_def sample_nodes_load)
qed

text \<open>
  A signal that arrives while a reload is running is lost. The allow-list can change after the running reload
  has read it and be followed by a signal, and still the old allow-list stays in force, with no reload left to run;
  and a context that changes at the same time is published beside the old allow-list.
\<close>

theorem reload_signal_lost:
  assumes "open_server a (Inr c) = Inr s0"
  shows "\<exists>s. sec_run [Sighup, ReloadStep, EditAllowlist a', EditContext (Inr c'), Sighup, ReloadStep, ReloadStep] s0 = Some s \<and>
    sy_task s = NoReload \<and> reload_step s = None \<and>
    sy_allowlist s = a' \<and> sy_enrolled_nodes s = sy_enrolled_nodes s0 \<and> sy_tls_context s = c'"
  using assms
  by (auto simp: open_server_def load_security_state_def request_reload_def reload_step_def publish_def res_simps)

theorem reload_signal_lost_witness:
  "\<exists>s. sec_run [Sighup, ReloadStep, EditAllowlist (LoadedYaml (sample_nodes ''node-2'')), EditContext (Inr 1), Sighup, ReloadStep, ReloadStep]
      sample_security = Some s \<and>
    sy_enrolled_nodes s = [lit ''node-1''] \<and> load_enrolled_nodes (sy_allowlist s) = Inr [lit ''node-2'']"
  using reload_signal_lost [OF sample_open, of "LoadedYaml (sample_nodes ''node-2'')" 1]
  by - (elim exE conjE, intro exI conjI, assumption, simp_all add: sample_nodes_load sample_security_def)

section \<open>The log\<close>

lemma entry_lookups:
  assumes "entry_ok en"
  shows "k \<in> set RECORD_KEYS - {''decision'', ''reason''} \<Longrightarrow>
      map_of ((''decision'', x) # (''reason'', y) # en_fields en @ bs) k = map_of bs k"
    and "(k, v) \<in> set (en_fields en) \<Longrightarrow>
      map_of ((''decision'', x) # (''reason'', y) # en_fields en @ bs) k = Some v"
proof -
  have n: "map_of (en_fields en) k = None" if "k \<in> set RECORD_KEYS" for k
    using assms that by (auto simp: entry_ok_def map_of_eq_None_iff)
  show "k \<in> set RECORD_KEYS - {''decision'', ''reason''} \<Longrightarrow>
      map_of ((''decision'', x) # (''reason'', y) # en_fields en @ bs) k = map_of bs k"
    using n by (simp add: map_add_def)
  assume kv: "(k, v) \<in> set (en_fields en)"
  then have "k \<notin> set RECORD_KEYS" using assms by (force simp: entry_ok_def)
  then have "k \<noteq> ''decision''" "k \<noteq> ''reason''" by (auto simp: RECORD_KEYS_def)
  moreover have "map_of (en_fields en) k = Some v" using kv assms by (simp add: entry_ok_def)
  ultimately show "map_of ((''decision'', x) # (''reason'', y) # en_fields en @ bs) k = Some v"
    by (simp add: map_add_def)
qed

text \<open>
  C33. Every decision is one line. Whatever a peer sends, the entry its connection adds to the log is written by the
  formatter, as one line of printable ASCII, so no peer can break a line or forge another; and the line reads back as a JSON object
  with the decision, the reason, every field of the entry, the message, the level and the time, none of them overwritten by another,
  also when the peer put lone surrogates, quotes or line feeds into the names that the reason lists. The address and the
  common names are text without surrogates, as the socket and \<^verbatim>\<open>getpeercert\<close> give them, and the numbers of the register are those of
  accepted payloads.
\<close>

theorem decision_lines:
  assumes "handle_socket limit env peer enrolled handshake evs st = (answer, st')"
    and "scalar_str peer" and "\<And>cert. handshake = Inr cert \<Longrightarrow> wf_connection peer cert" and "short_register (co_last st)"
  shows "\<exists>en line d. co_log st' = co_log st @ [en] \<and> short_register (co_last st') \<and>
    format_record (decision_record now en) = Some line \<and> ascii_line line \<and> loads_text line = Inr (PDict d) \<and>
    dget d ''decision'' = Some (PStr (lit (en_decision en))) \<and> dget d ''reason'' = Some (PStr (en_reason en)) \<and>
    dget d ''timestamp_utc'' = Some (PStr (iso_millis now)) \<and> dget d ''level'' = Some (PStr (lit ''INFO'')) \<and>
    dget d ''event'' = Some (PStr (lit ''ingest_decision'')) \<and>
    dget d ''message'' = Some (PStr (lit ''ingest '' @ lit (en_decision en))) \<and>
    (\<forall>k v. (k, v) \<in> set (en_fields en) \<longrightarrow> dget d k = Some (norm_val v))"
proof -
  obtain en where en: "co_log st' = co_log st @ [en]" "entry_ok en" "short_register (co_last st')"
    using socket_entry [OF assms] by blast
  have "wf_str (lr_message (decision_record now en))" by (simp add: decision_record_def wf_lit)
  then obtain line where line: "format_record (decision_record now en) = Some line" "ascii_line line"
    using format_record_line decision_fields_wf [OF en(2)] by metis
  obtain d where d: "loads_text line = Inr (PDict d)"
    "\<And>k. dget d k = map_option norm_val (map_of ((''decision'', PStr (lit (en_decision en))) #
      (''reason'', PStr (en_reason en)) # en_fields en @ base_items (decision_record now en)) k)"
    by (rule decision_line_reads [OF en(2) line(1)]) blast
  have base: "dget d k = map_option norm_val (map_of (base_items (decision_record now en)) k)"
    if "k \<in> {''timestamp_utc'', ''level'', ''event'', ''message''}" for k
    unfolding d(2) using that by (subst entry_lookups(1) [OF en(2)]) (auto simp: RECORD_KEYS_def)
  have "dget d ''decision'' = Some (PStr (lit (en_decision en)))" "dget d ''reason'' = Some (PStr (en_reason en))"
    by (simp_all add: d(2))
  moreover have "dget d ''timestamp_utc'' = Some (PStr (iso_millis now))" "dget d ''level'' = Some (PStr (lit ''INFO''))"
    "dget d ''event'' = Some (PStr (lit ''ingest_decision''))"
    "dget d ''message'' = Some (PStr (lit ''ingest '' @ lit (en_decision en)))"
    by (simp_all add: base) (simp_all add: base_items_def decision_record_def)
  moreover have "\<forall>k v. (k, v) \<in> set (en_fields en) \<longrightarrow> dget d k = Some (norm_val v)"
    using entry_lookups(2) [OF en(2)] unfolding d(2) by (metis option.simps(9))
  ultimately show ?thesis using en line d(1) by blast
qed

definition sample_created :: dt where
  "sample_created = \<lparr>dt_date = (2026, 1, 31), dt_hour = 12, dt_minute = 0, dt_second = 0, dt_micro = 0\<rparr>"

text \<open>
  A payload with one field more, whose name is a lone surrogate, a line feed and a quotation mark.
\<close>

definition hostile_name :: pystr where
  "hostile_name = [0xD800, 10, 34]"

definition hostile_payload :: pydict where
  "hostile_payload = sample_payload @ [(KStr hostile_name, PInt 1)]"

lemma hostile_wf: "wf_json (PDict hostile_payload)" "readable_val (PDict hostile_payload)"
proof -
  have "wf_json (PInt 1)" "wf_json (PInt 7)" by (simp_all add: wf_json_int)
  then show "wf_json (PDict hostile_payload)"
    by (simp add: wf_json_PDict hostile_payload_def sample_payload_def hostile_name_def wf_lit) (simp add: lit_def wf_str_def list_all_iff)
  have "pairless (replicate 64 97)" by (intro scalar_pairless scalar_str_ascii) simp
  then show "readable_val (PDict hostile_payload)"
    by (simp add: hostile_payload_def sample_payload_def hostile_name_def is_low_def scalar_pairless)
qed

lemma unknown_fields_norm:
  assumes "wf_json (PDict d)"
  shows "unknown_fields names (norm_dict d) = unknown_fields names d"
proof -
  have inj: "inj_on key_text (set (dkeys d))"
  proof (rule inj_onI)
    fix x y assume xy: "x \<in> set (dkeys d)" "y \<in> set (dkeys d)" "key_text x = key_text y"
    then have "is_kstr x" "is_kstr y" using assms by (auto simp: dkeys_def wf_json_PDict)
    with xy(3) show "x = y" by (cases x; cases y) auto
  qed
  have "distinct (dkeys d)" "distinct (dkeys (norm_dict d))"
    using assms by (simp_all add: dkeys_def wf_json_PDict)
  with inj have "distinct (map key_text (dkeys d))" "distinct (map key_text (dkeys (norm_dict d)))"
    by (simp_all add: distinct_map)
  then show ?thesis
    unfolding unknown_fields_def by (intro sorted_distinct_set_unique) simp_all
qed

lemma hostile_refused: "validate_payload (PDict (norm_dict hostile_payload)) = Inl (UnknownFields [hostile_name])"
proof -
  have "unknown_fields PAYLOAD_FIELDS hostile_payload = [hostile_name]"
    by (simp add: unknown_fields_def hostile_payload_def sample_payload_def dkeys_def PAYLOAD_FIELDS_def hostile_name_def)
      (simp add: lit_def)
  moreover have "set (dkeys (norm_dict hostile_payload)) = set (dkeys hostile_payload)" by simp
  then have "list_all is_kstr (dkeys (norm_dict hostile_payload))" "named_keys PAYLOAD_FIELDS \<subseteq> set (dkeys (norm_dict hostile_payload))"
    unfolding list_all_iff by (simp_all add: hostile_payload_def sample_payload_def dkeys_def named_keys_def PAYLOAD_FIELDS_def)
  ultimately show ?thesis using hostile_wf(1) by (simp add: validate_payload_def unknown_fields_norm)
qed

lemma ascii_stream:
  assumes "ascii_line t" and "t \<noteq> []"
  shows "read_json_line [Chunk (map byte_of t @ [LF])] (length t) = Inr t"
proof -
  have c: "c < 128 \<and> 32 \<le> c" if "c \<in> set t" for c using assms(1) that by (simp add: printable_def)
  have enc: "map byte_of t = concat (map utf8_char t)"
    using c by (induction t) (simp_all add: utf8_char_def)
  have "LF \<notin> set (map byte_of t)"
  proof
    assume "LF \<in> set (map byte_of t)"
    then obtain x where x: "x \<in> set t" "byte_of x = LF" by auto
    from x(2) have "unat (byte_of x) = unat LF" by simp
    then show False using c [OF x(1)] by (simp add: LF_def)
  qed
  moreover have "decode_utf8 False (map byte_of t) = Some t"
    unfolding enc using c by (intro decode_concat_utf8 scalar_str_ascii) force
  ultimately show ?thesis
    using read_json_line_spec [of "[Chunk (map byte_of t @ [LF])]" "length t"] assms(2) takeWhile_no_LF [of "map byte_of t" "[LF]"]
    by (simp add: line_spec_def stream_bytes_def plain_stream_def)
qed

lemma hostile_stream:
  obtains limit evs where "read_event limit evs = Inl (PayloadInvalid (UnknownFields [hostile_name]))"
proof -
  note wf = hostile_wf(1) [unfolded wf_json_def]
  obtain t where t: "ascii_text (PDict hostile_payload) = Some t" using json_ascii_text wf by blast
  have loads: "loads_text t = Inr (PDict (norm_dict hostile_payload))"
    using loads_ascii [OF t _ hostile_wf(2)] wf by (simp add: norm_val_PDict del: norm_val.simps)
  then have "t \<noteq> []" by (auto simp: loads_text_def skip_ws_def scan_once.simps)
  with ascii_text_line [OF t] wf have "read_json_line [Chunk (map byte_of t @ [LF])] (length t) = Inr t"
    by (intro ascii_stream) blast+
  with loads hostile_refused show thesis
    by (intro that [of "length t" "[Chunk (map byte_of t @ [LF])]"]) (simp add: read_event_def)
qed

theorem decision_lines_witness:
  "\<exists>limit evs en line d. co_log (snd (handle_socket limit sample_handoff (lit ''10.0.0.7'') [lit ''node-1''] (Inr sample_cert) evs
      sample_collector)) = [en] \<and>
    en_reason en = lit ''unknown_fields:'' @ hostile_name \<and>
    format_record (decision_record sample_created en) = Some line \<and> ascii_line line \<and> loads_text line = Inr (PDict d) \<and>
    dget d ''reason'' = Some (PStr (en_reason en))"
proof -
  obtain limit evs where read: "read_event limit evs = Inl (PayloadInvalid (UnknownFields [hostile_name]))"
    by (rule hostile_stream)
  let ?out = "handle_socket limit sample_handoff (lit ''10.0.0.7'') [lit ''node-1''] (Inr sample_cert) evs sample_collector"
  have cn: "certificate_common_names sample_cert = [lit ''node-1'']"
    by (simp add: certificate_common_names_def sample_cert_def)
  then have "\<exists>flds. co_log (snd ?out) =
      [\<lparr>en_decision = ''reject'', en_reason = lit ''unknown_fields:'' @ hostile_name, en_fields = flds\<rparr>]"
    using read by (simp add: handle_socket_def handle_tls_socket_def admit_def reject_tls_socket_def decision_def
        sample_collector_def join_names_def)
  then obtain en where en: "co_log (snd ?out) = [en]" "en_reason en = lit ''unknown_fields:'' @ hostile_name" by auto
  have out: "?out = (fst ?out, snd ?out)" by simp
  have conn: "wf_connection (lit ''10.0.0.7'') sample_cert" by (simp add: wf_connection_def cn)
  have "short_register (co_last sample_collector)" by (simp add: sample_collector_def short_register_def)
  from decision_lines [OF out _ _ this, where now = sample_created] conn obtain en' line d where
    "co_log (snd ?out) = [en']" "format_record (decision_record sample_created en') = Some line" "ascii_line line"
    "loads_text line = Inr (PDict d)" "dget d ''reason'' = Some (PStr (en_reason en'))"
    by (auto simp: sample_collector_def)
  moreover from this(1) en(1) have "en' = en" by simp
  ultimately show ?thesis using en by blast
qed

end
