(* ===== verification/Collector_Service.thy ===== *)
theory Collector_Service
  imports Collector_Config Collector_Reload
begin

unbundle bit_operations_syntax

text \<open>
  The life of the collector: the TLS context, \<^verbatim>\<open>start\<close>, \<^verbatim>\<open>close\<close> and the accept loop of
  \<^verbatim>\<open>src/collector/vestrix_collector/server.py\<close>, and \<^verbatim>\<open>_run\<close> of \<^verbatim>\<open>__main__.py\<close>. The process is a state and a function of events:
  what clients, signals and the operating system do, and the points at which the coroutines go on. The OpenSSL
  loaders and the listening socket are arguments.
\<close>

section \<open>The TLS context\<close>

datatype verify_mode = CERT_NONE | CERT_OPTIONAL | CERT_REQUIRED

datatype tls_version = TLSv1 | TLSv1_1 | TLSv1_2 | TLSv1_3

record ('a, 'k) tls_context =
  tx_minimum_version :: tls_version
  tx_verify_mode :: verify_mode
  tx_verify_flags :: "32 word"
  tx_locations :: "'a list"
  tx_cert_chain :: "'k option"

definition VERIFY_CRL_CHECK_LEAF :: "32 word" where
  "VERIFY_CRL_CHECK_LEAF = 4"

text \<open>\<^verbatim>\<open>load_ca\<close> and \<^verbatim>\<open>load_chain\<close> are what the loaders make of files, or the name of the exception; \<open>fresh\<close> is a new server context.\<close>

definition build_server_tls_context ::
    "('a, 'k) tls_context \<Rightarrow> (pystr \<Rightarrow> string + 'a) \<Rightarrow> (pystr \<Rightarrow> pystr \<Rightarrow> string + 'k) \<Rightarrow> collector_config \<Rightarrow>
      string + ('a, 'k) tls_context" where
  "build_server_tls_context fresh load_ca load_chain config =
     (let context = fresh\<lparr>tx_minimum_version := TLSv1_2\<rparr>;
          context = context\<lparr>tx_verify_mode := CERT_REQUIRED\<rparr> in
      rbind (load_ca (tc_ca_cert (cc_tls config))) (\<lambda>ca.
        (let context = context\<lparr>tx_locations := tx_locations context @ [ca]\<rparr> in
         rbind (load_ca (tc_crl_path (cc_tls config))) (\<lambda>crl.
           (let context = context\<lparr>tx_locations := tx_locations context @ [crl]\<rparr>;
                context = context\<lparr>tx_verify_flags := tx_verify_flags context OR VERIFY_CRL_CHECK_LEAF\<rparr> in
            rbind (load_chain (tc_server_cert (cc_tls config)) (tc_server_key (cc_tls config))) (\<lambda>chain.
              Inr (context\<lparr>tx_cert_chain := Some chain\<rparr>)))))))"

text \<open>A context that asks every client for a certificate and checks it against the revocation list.\<close>

definition context_strict :: "('a, 'k) tls_context \<Rightarrow> bool" where
  "context_strict context \<longleftrightarrow>
     tx_verify_mode context = CERT_REQUIRED \<and> tx_minimum_version context = TLSv1_2 \<and>
     tx_verify_flags context AND VERIFY_CRL_CHECK_LEAF = VERIFY_CRL_CHECK_LEAF \<and>
     2 \<le> length (tx_locations context) \<and> tx_cert_chain context \<noteq> None"

lemma built_context:
  assumes "build_server_tls_context fresh load_ca load_chain config = Inr context"
  shows "context_strict context \<and>
    (\<exists>ca crl. load_ca (tc_ca_cert (cc_tls config)) = Inr ca \<and> load_ca (tc_crl_path (cc_tls config)) = Inr crl \<and>
       tx_locations context = tx_locations fresh @ [ca, crl])"
  using assms
  by (auto simp: build_server_tls_context_def context_strict_def Let_def res_simps bit.conj_disj_distrib2 ac_simps)

section \<open>State of the process\<close>

datatype accept_task = NoAccept | Accepting | AcceptFailed string

datatype signal_state = Installed | Unsupported | Removed

text \<open>
  \<open>Draining\<close>: the wait for the event ended and the reload is awaited. \<open>Closing\<close>: \<^verbatim>\<open>close\<close> awaits the connections. \<open>Killed\<close>: the
  default action of \<^verbatim>\<open>SIGHUP\<close> after the handler was removed.
\<close>

datatype phase = Running | Draining | Closing | Exited | Killed

datatype service_log = ServiceStarted pystr int | ServiceStopped

text \<open>
  \<open>sv_listener\<close> is the port of the listening socket; \<open>sv_connections\<close> are the running connection tasks, numbered in the
  order of their acceptance, \<open>sv_finished\<close> those that ended.
\<close>

record 'c service =
  sv_security :: "'c security"
  sv_listener :: "int option"
  sv_accept_task :: accept_task
  sv_connections :: "nat list"
  sv_finished :: "nat list"
  sv_accepted :: nat
  sv_signal :: signal_state
  sv_phase :: phase
  sv_lifecycle :: "service_log list"

section \<open>Starting\<close>

datatype family = AF_INET | AF_INET6

datatype service_exn =
    AlreadyRunning
  | NotStarted
  | SocketError string
  | BootConfig config_exn
  | BootLoad load_exn

definition address_family :: "pystr \<Rightarrow> family" where
  "address_family host = (if 58 \<in> set host then AF_INET6 else AF_INET)"

definition service_port :: "'c service \<Rightarrow> service_exn + int" where
  "service_port s = (case sv_listener s of None \<Rightarrow> Inl NotStarted | Some port \<Rightarrow> Inr port)"

text \<open>\<open>listen\<close> creates, binds and opens the socket: the port it got, or the name of the exception.\<close>

definition start_service ::
    "(family \<Rightarrow> pystr \<Rightarrow> int \<Rightarrow> string + int) \<Rightarrow> server_config \<Rightarrow> 'c service \<Rightarrow> service_exn + 'c service" where
  "start_service listen config s =
     rbind (raise_if (sv_listener s \<noteq> None) AlreadyRunning) (\<lambda>_.
     rbind (rmap_err SocketError (listen (address_family (sc_host config)) (sc_host config) (sc_port config))) (\<lambda>port.
       (let s = s\<lparr>sv_listener := Some port, sv_accept_task := Accepting\<rparr> in
        rbind (service_port s) (\<lambda>port.
          Inr (s\<lparr>sv_lifecycle := sv_lifecycle s @ [ServiceStarted (sc_host config) port]\<rparr>)))))"

definition new_service :: "'c security \<Rightarrow> 'c service" where
  "new_service security =
     \<lparr>sv_security = security, sv_listener = None, sv_accept_task = NoAccept, sv_connections = [], sv_finished = [],
      sv_accepted = 0, sv_signal = Unsupported, sv_phase = Running, sv_lifecycle = []\<rparr>"

text \<open>\<^verbatim>\<open>_run\<close> up to the wait: \<open>signals\<close> says that the loop can install a signal handler.\<close>

definition boot ::
    "(family \<Rightarrow> pystr \<Rightarrow> int \<Rightarrow> string + int) \<Rightarrow> bool \<Rightarrow> config_exn + collector_config \<Rightarrow> yaml_file \<Rightarrow> string + 'c \<Rightarrow>
      service_exn + 'c service" where
  "boot listen signals loaded allowlist context_file =
     rbind (rmap_err BootConfig loaded) (\<lambda>config.
     rbind (rmap_err BootLoad (open_server allowlist context_file)) (\<lambda>security.
     rbind (start_service listen (cc_server config) (new_service security)) (\<lambda>s.
       Inr (s\<lparr>sv_signal := if signals then Installed else Unsupported\<rparr>))))"

section \<open>Events\<close>

text \<open>
  \<open>Arrive\<close>: \<^verbatim>\<open>sock_accept\<close> returns a client; \<open>AcceptError\<close>: it raises \<^verbatim>\<open>OSError\<close>. \<open>Snapshot\<close> and \<open>Finish\<close>: the thread of a connection takes
  the security state, and ends. \<open>Files\<close>: what loading the files would give changes. \<open>Hangup\<close>: \<^verbatim>\<open>SIGHUP\<close>. \<open>Reload\<close>: the reload task
  goes on. \<open>Interrupt\<close>: the wait is cancelled. \<open>BeginClose\<close>, \<open>EndClose\<close>: \<^verbatim>\<open>close\<close> up to the wait for the connections, and after it.
\<close>

datatype 'c service_event =
    Arrive
  | AcceptError string
  | Snapshot nat
  | Finish nat
  | Files yaml_file "string + 'c"
  | Hangup
  | Reload
  | Interrupt
  | BeginClose
  | EndClose

definition enabled :: "bool \<Rightarrow> 'a \<Rightarrow> 'a option" where
  "enabled b x = (if b then Some x else None)"

text \<open>The body of the accept loop; its \<^verbatim>\<open>OSError\<close> is re-raised while there is a listener, which ends the task.\<close>

definition accept_client :: "'c service \<Rightarrow> 'c service option" where
  "accept_client s =
     enabled (sv_accept_task s = Accepting \<and> sv_listener s \<noteq> None)
       (s\<lparr>sv_connections := sv_connections s @ [sv_accepted s], sv_accepted := sv_accepted s + 1\<rparr>)"

definition accept_error :: "string \<Rightarrow> 'c service \<Rightarrow> 'c service option" where
  "accept_error name s =
     enabled (sv_accept_task s = Accepting)
       (if sv_listener s = None then s\<lparr>sv_accept_task := NoAccept\<rparr> else s\<lparr>sv_accept_task := AcceptFailed name\<rparr>)"

definition finish_connection :: "nat \<Rightarrow> 'c service \<Rightarrow> 'c service option" where
  "finish_connection t s =
     enabled (t \<in> set (sv_connections s))
       (s\<lparr>sv_connections := remove1 t (sv_connections s), sv_finished := sv_finished s @ [t]\<rparr>)"

definition hangup :: "'c service \<Rightarrow> 'c service option" where
  "hangup s =
     (case sv_signal s of
        Installed \<Rightarrow> Some (s\<lparr>sv_security := request_reload (sv_security s)\<rparr>)
      | Removed \<Rightarrow> Some (s\<lparr>sv_phase := Killed\<rparr>)
      | Unsupported \<Rightarrow> None)"

definition interrupt :: "'c service \<Rightarrow> 'c service option" where
  "interrupt s =
     enabled (sv_phase s = Running)
       (s\<lparr>sv_phase := Draining, sv_signal := if sv_signal s = Installed then Removed else sv_signal s\<rparr>)"

text \<open>The reload task has ended; the listener is closed, the accept task is cancelled and its outcome dropped.\<close>

definition begin_close :: "'c service \<Rightarrow> 'c service option" where
  "begin_close s =
     enabled (sv_phase s = Draining \<and> sy_task (sv_security s) = NoReload)
       (s\<lparr>sv_phase := Closing, sv_listener := None, sv_accept_task := NoAccept\<rparr>)"

definition end_close :: "'c service \<Rightarrow> 'c service option" where
  "end_close s =
     enabled (sv_phase s = Closing \<and> sv_connections s = [])
       (s\<lparr>sv_phase := Exited, sv_lifecycle := sv_lifecycle s @ [ServiceStopped]\<rparr>)"

definition on_security :: "('c security \<Rightarrow> 'c security option) \<Rightarrow> 'c service \<Rightarrow> 'c service option" where
  "on_security f s = map_option (\<lambda>y. s\<lparr>sv_security := y\<rparr>) (f (sv_security s))"

definition service_step :: "'c service_event \<Rightarrow> 'c service \<Rightarrow> 'c service option" where
  "service_step e s =
     (if sv_phase s \<in> {Exited, Killed} then None
      else (case e of
        Arrive \<Rightarrow> accept_client s
      | AcceptError name \<Rightarrow> accept_error name s
      | Snapshot t \<Rightarrow> if t \<in> set (sv_connections s) then on_security (take_snapshot t) s else None
      | Finish t \<Rightarrow> finish_connection t s
      | Files a c \<Rightarrow> on_security (\<lambda>y. Some (y\<lparr>sy_allowlist := a, sy_context_file := c\<rparr>)) s
      | Hangup \<Rightarrow> hangup s
      | Reload \<Rightarrow> on_security reload_step s
      | Interrupt \<Rightarrow> interrupt s
      | BeginClose \<Rightarrow> begin_close s
      | EndClose \<Rightarrow> end_close s))"

fun service_run :: "'c service_event list \<Rightarrow> 'c service \<Rightarrow> 'c service option" where
  "service_run [] s = Some s"
| "service_run (e # es) s = Option.bind (service_step e s) (service_run es)"

interpretation service: event_process service_step service_run
  by unfold_locales simp_all

lemmas service_step_defs = service_step_def accept_client_def accept_error_def finish_connection_def hangup_def interrupt_def
  begin_close_def end_close_def on_security_def enabled_def

section \<open>The invariant\<close>

definition connections_inv :: "'c service \<Rightarrow> bool" where
  "connections_inv s \<longleftrightarrow>
     distinct (sv_connections s @ sv_finished s) \<and> set (sv_connections s) \<union> set (sv_finished s) = {..<sv_accepted s}"

definition phase_inv :: "'c service \<Rightarrow> bool" where
  "phase_inv s \<longleftrightarrow>
     (sv_phase s \<in> {Running, Draining} \<longrightarrow> sv_listener s \<noteq> None \<and> sv_accept_task s \<noteq> NoAccept) \<and>
     (sv_phase s \<in> {Closing, Exited} \<longrightarrow>
        sv_listener s = None \<and> sv_accept_task s = NoAccept \<and> sy_task (sv_security s) = NoReload) \<and>
     (sv_signal s = Installed \<longrightarrow> sv_phase s = Running) \<and> (sv_signal s = Removed \<longrightarrow> sv_phase s \<noteq> Running)"

definition log_inv :: "'c service \<Rightarrow> bool" where
  "log_inv s \<longleftrightarrow>
     (\<exists>host port. sv_lifecycle s = ServiceStarted host port # (if sv_phase s = Exited then [ServiceStopped] else [])) \<and>
     (sv_phase s = Exited \<longrightarrow> sv_connections s = [])"

definition service_inv :: "'c service \<Rightarrow> bool" where
  "service_inv s \<longleftrightarrow>
     security_inv (sv_security s) \<and> connections_inv s \<and> phase_inv s \<and> log_inv s \<and>
     (\<forall>t. sy_snapshot (sv_security s) t \<noteq> None \<longrightarrow> t < sv_accepted s)"

lemma boot_inv:
  assumes "boot listen signals loaded a c = Inr s"
  shows "service_inv s"
  using assms
  by (auto simp: boot_def start_service_def new_service_def service_port_def service_inv_def connections_inv_def phase_inv_def
      log_inv_def res_simps dest: open_server_inv) (auto simp: open_server_def res_simps split: if_splits)

lemma files_inv: "security_inv y \<Longrightarrow> security_inv (y\<lparr>sy_allowlist := a, sy_context_file := c\<rparr>)"
  by (simp add: security_inv_def)

lemma security_step_inv:
  assumes "service_step e s = Some s'" and "security_inv (sv_security s)"
  shows "security_inv (sv_security s')"
proof (cases e)
  case (Snapshot t)
  then have "sec_step (OpenConnection t) (sv_security s) = Some (sv_security s')"
    using assms(1) by (auto simp: service_step_def on_security_def split: if_splits)
  then show ?thesis using assms(2) by (rule sec_step_inv)
next
  case Hangup
  then have "sv_security s' = sv_security s \<or> sec_step Sighup (sv_security s) = Some (sv_security s')"
    using assms(1) by (auto simp: service_step_def hangup_def split: if_splits signal_state.splits)
  then show ?thesis using assms(2) sec_step_inv by metis
next
  case Reload
  then have "sec_step ReloadStep (sv_security s) = Some (sv_security s')"
    using assms(1) by (auto simp: service_step_def on_security_def split: if_splits)
  then show ?thesis using assms(2) by (rule sec_step_inv)
qed (use assms in \<open>auto simp: service_step_defs files_inv split: if_splits\<close>)

lemma reload_step_task: "sy_task y = NoReload \<Longrightarrow> reload_step y = None"
  by (simp add: reload_step_def)

lemma take_snapshot_task: "take_snapshot t y = Some y' \<Longrightarrow> sy_task y' = sy_task y"
  by (auto simp: take_snapshot_def split: option.splits)

lemma connections_same:
  assumes "service_step e s = Some s'" and "e \<noteq> Arrive" and "\<And>t. e \<noteq> Finish t"
  shows "sv_connections s' = sv_connections s \<and> sv_finished s' = sv_finished s \<and> sv_accepted s' = sv_accepted s"
  using assms by (cases e) (auto simp: service_step_defs split: if_splits signal_state.splits)

lemma connections_step_inv:
  assumes "service_step e s = Some s'" and "connections_inv s"
  shows "connections_inv s'"
proof (cases e)
  case Arrive
  moreover have "set (sv_connections s) \<subseteq> {..<sv_accepted s}" "set (sv_finished s) \<subseteq> {..<sv_accepted s}"
    using assms(2) by (auto simp: connections_inv_def)
  ultimately show ?thesis
    using assms by (auto simp: service_step_def accept_client_def enabled_def connections_inv_def subset_iff split: if_splits)
next
  case (Finish t)
  then have t: "t \<in> set (sv_connections s)"
    and s': "s' = s\<lparr>sv_connections := remove1 t (sv_connections s), sv_finished := sv_finished s @ [t]\<rparr>"
    using assms(1) by (simp_all add: service_step_def finish_connection_def enabled_def split: if_splits)
  have d: "distinct (sv_connections s)" "set (sv_connections s) \<inter> set (sv_finished s) = {}" "distinct (sv_finished s)"
    and u: "set (sv_connections s) \<union> set (sv_finished s) = {..<sv_accepted s}"
    using assms(2) by (simp_all add: connections_inv_def)
  have r: "set (remove1 t (sv_connections s)) = set (sv_connections s) - {t}" using d(1) by simp
  have "set (sv_connections s) - {t} \<union> insert t (set (sv_finished s)) = {..<sv_accepted s}" using t u by blast
  with r d t show ?thesis unfolding s' connections_inv_def by auto
qed (use assms connections_same [OF assms(1)] in \<open>simp_all add: connections_inv_def\<close>)

lemma phase_step_inv:
  assumes "service_step e s = Some s'" and "phase_inv s"
  shows "phase_inv s'"
proof (cases e)
  case Hangup
  with assms show ?thesis
    by (cases "sv_phase s"; cases "sv_signal s") (auto simp: service_step_def hangup_def phase_inv_def)
next
  case Interrupt
  with assms show ?thesis
    by (cases "sv_phase s"; cases "sv_signal s") (auto simp: service_step_def interrupt_def enabled_def phase_inv_def)
next
  case Reload
  with assms show ?thesis
    by (cases "sv_phase s") (auto simp: service_step_def on_security_def phase_inv_def reload_step_task)
next
  case (Snapshot t)
  with assms show ?thesis
    by (cases "sv_phase s") (auto simp: service_step_def on_security_def phase_inv_def dest: take_snapshot_task split: if_splits)
qed (use assms in \<open>clarsimp simp: service_step_defs phase_inv_def split: if_splits\<close>)+

lemma log_step_inv:
  assumes "service_step e s = Some s'" and "log_inv s"
  shows "log_inv s'"
proof (cases e)
  case Hangup
  with assms show ?thesis
    by (cases "sv_phase s"; cases "sv_signal s") (auto simp: service_step_def hangup_def log_inv_def)
qed (use assms in \<open>auto simp: service_step_defs log_inv_def split: if_splits\<close>)

lemma snapshot_step:
  assumes "service_step e s = Some s'"
  shows "sv_accepted s \<le> sv_accepted s' \<and>
    (\<forall>t. sy_snapshot (sv_security s') t \<noteq> None \<longrightarrow> sy_snapshot (sv_security s) t \<noteq> None \<or> t \<in> set (sv_connections s))"
proof (cases e)
  case Reload
  with assms show ?thesis
    by (auto simp: service_step_def on_security_def reload_step_def reload_failed_def publish_def
        split: if_splits reload_task.splits sum.splits)
next
  case Hangup
  with assms show ?thesis
    by (auto simp: service_step_def hangup_def request_reload_def split: if_splits signal_state.splits reload_task.splits)
next
  case (Snapshot t)
  with assms show ?thesis
    by (auto simp: service_step_def on_security_def take_snapshot_def split: if_splits option.splits)
qed (use assms in \<open>auto simp: service_step_defs split: if_splits\<close>)

lemma service_step_inv:
  assumes "service_step e s = Some s'" and "service_inv s"
  shows "service_inv s'"
proof -
  have "set (sv_connections s) \<subseteq> {..<sv_accepted s}"
    using assms(2) by (auto simp: service_inv_def connections_inv_def)
  then have "t < sv_accepted s'" if "sy_snapshot (sv_security s') t \<noteq> None" for t
    using snapshot_step [OF assms(1)] assms(2) that unfolding service_inv_def by fastforce
  then show ?thesis
    using assms security_step_inv connections_step_inv phase_step_inv log_step_inv unfolding service_inv_def by metis
qed

lemma service_run_inv: "service_run es s = Some s' \<Longrightarrow> service_inv s \<Longrightarrow> service_inv s'"
  by (rule service.run_invariant) (auto dest: service_step_inv)

end
