(* ===== verification/Collector_Service_Properties.thy ===== *)
theory Collector_Service_Properties
  imports Collector_Service Collector_Setup_Properties
begin

text \<open>
  Properties of the collector process: what a shutdown leaves, that it completes, what an error of the accept
  loop does, and the TLS context every connection works with.
\<close>

section \<open>A sample process\<close>

definition sample_fresh :: "(nat, nat) tls_context" where
  "sample_fresh = \<lparr>tx_minimum_version = TLSv1_2, tx_verify_mode = CERT_NONE, tx_verify_flags = 32768, tx_locations = [], tx_cert_chain = None\<rparr>"

definition sample_listen :: "family \<Rightarrow> pystr \<Rightarrow> int \<Rightarrow> string + int" where
  "sample_listen family host port = Inr port"

definition sample_build :: "string + (nat, nat) tls_context" where
  "sample_build = build_server_tls_context sample_fresh (\<lambda>file. Inr 0) (\<lambda>certfile keyfile. Inr 1) sample_config"

definition sample_service :: "(nat, nat) tls_context service" where
  "sample_service = projr (boot sample_listen True (Inr sample_config) (LoadedYaml (sample_nodes ''node-1'')) sample_build)"

lemma sample_built:
  "sample_build = Inr \<lparr>tx_minimum_version = TLSv1_2, tx_verify_mode = CERT_REQUIRED, tx_verify_flags = 32772,
     tx_locations = [0, 0], tx_cert_chain = Some 1\<rparr>"
  by (simp add: sample_build_def build_server_tls_context_def sample_fresh_def VERIFY_CRL_CHECK_LEAF_def)

lemma sample_boot:
  "boot sample_listen True (Inr sample_config) (LoadedYaml (sample_nodes ''node-1'')) sample_build = Inr sample_service"
  unfolding sample_service_def sample_built
  by (simp add: boot_def open_server_def load_security_state_def sample_nodes_load start_service_def new_service_def
      service_port_def sample_listen_def)

lemma sample_service_fields:
  "sv_listener sample_service = Some 8443 \<and> sv_accept_task sample_service = Accepting \<and> sv_connections sample_service = [] \<and>
   sv_accepted sample_service = 0 \<and> sv_signal sample_service = Installed \<and> sv_phase sample_service = Running \<and>
   sv_lifecycle sample_service = [ServiceStarted (lit ''0.0.0.0'') 8443] \<and>
   sv_finished sample_service = [] \<and> sy_task (sv_security sample_service) = NoReload \<and> sy_snapshot (sv_security sample_service) 0 = None"
  unfolding sample_service_def sample_built
  by (simp add: boot_def open_server_def load_security_state_def sample_nodes_load start_service_def new_service_def
      service_port_def sample_listen_def sample_config_def)

lemma sample_service_files:
  "sy_allowlist (sv_security sample_service) = LoadedYaml (sample_nodes ''node-1'') \<and>
   sy_context_file (sv_security sample_service) = sample_build \<and> (\<exists>tls. sample_build = Inr tls)"
  unfolding sample_service_def sample_built
  by (simp add: boot_def open_server_def load_security_state_def sample_nodes_load start_service_def new_service_def
      service_port_def sample_listen_def)

section \<open>Shutting down\<close>

text \<open>The events the process makes by itself once it was interrupted.\<close>

definition internal_event :: "'c service_event \<Rightarrow> bool" where
  "internal_event e \<longleftrightarrow> (case e of Reload \<Rightarrow> True | BeginClose \<Rightarrow> True | Finish t \<Rightarrow> True | EndClose \<Rightarrow> True | _ \<Rightarrow> False)"

fun task_left :: "'c reload_task \<Rightarrow> nat" where
  "task_left NoReload = 0"
| "task_left Started = 3"
| "task_left (HasNodes nodes) = 2"
| "task_left (HasBoth nodes tls) = 1"

definition shutdown_left :: "'c service \<Rightarrow> nat" where
  "shutdown_left s =
     (if sv_phase s = Draining then 2 + task_left (sy_task (sv_security s)) + length (sv_connections s)
      else if sv_phase s = Closing then 1 + task_left (sy_task (sv_security s)) + length (sv_connections s) else 0)"

lemma reload_progress:
  assumes "sy_task y \<noteq> NoReload"
  obtains y' where "reload_step y = Some y'"
proof -
  have "\<exists>y'. reload_step y = Some y'"
    using assms
    by (cases "sy_task y"; cases "load_enrolled_nodes (sy_allowlist y)"; cases "sy_context_file y")
      (auto simp: reload_step_def reload_failed_def publish_def)
  with that show thesis by blast
qed

lemma shutdown_progress:
  assumes "sv_phase s \<in> {Draining, Closing}"
  obtains e s' where "internal_event e" and "service_step e s = Some s'"
proof (cases "sv_phase s = Draining")
  case True
  show thesis
  proof (cases "sy_task (sv_security s) = NoReload")
    case idle: True
    show thesis
      by (rule that [of BeginClose "s\<lparr>sv_phase := Closing, sv_listener := None, sv_accept_task := NoAccept\<rparr>"])
        (use True idle in \<open>simp_all add: internal_event_def service_step_defs\<close>)
  next
    case False
    then obtain y where y: "reload_step (sv_security s) = Some y" by (rule reload_progress)
    show thesis
      by (rule that [of Reload "s\<lparr>sv_security := y\<rparr>"])
        (use True y in \<open>simp_all add: internal_event_def service_step_defs\<close>)
  qed
next
  case False
  then have c: "sv_phase s = Closing" using assms by simp
  show thesis
  proof (cases "sv_connections s")
    case Nil
    show thesis
      by (rule that [of EndClose "s\<lparr>sv_phase := Exited, sv_lifecycle := sv_lifecycle s @ [ServiceStopped]\<rparr>"])
        (use c Nil in \<open>simp_all add: internal_event_def service_step_defs\<close>)
  next
    case (Cons t ts)
    show thesis
      by (rule that [of "Finish t" "s\<lparr>sv_connections := ts, sv_finished := sv_finished s @ [t]\<rparr>"])
        (use c Cons in \<open>simp_all add: internal_event_def service_step_defs\<close>)
  qed
qed

lemma reload_decreases: "reload_step y = Some y' \<Longrightarrow> task_left (sy_task y') < task_left (sy_task y)"
  by (auto simp: reload_step_def reload_failed_def publish_def split: reload_task.splits sum.splits)

definition going_down :: "'c service \<Rightarrow> bool" where
  "going_down s \<longleftrightarrow> sv_phase s = Draining \<or> sv_phase s = Closing \<or> sv_phase s = Exited"

lemma shutdown_decreases:
  assumes "service_step e s = Some s'" and "internal_event e" and "going_down s"
  shows "shutdown_left s' < shutdown_left s \<and> going_down s' \<and> sv_accepted s' = sv_accepted s"
proof (cases e)
  case (Finish t)
  then have t: "t \<in> set (sv_connections s)" using assms(1) by (simp add: service_step_defs split: if_splits)
  then have "0 < length (sv_connections s)" by (rule length_pos_if_in_set)
  then have "length (remove1 t (sv_connections s)) < length (sv_connections s)" using t by (simp add: length_remove1)
  then show ?thesis
    using assms Finish by (auto simp: service_step_defs going_down_def shutdown_left_def split: if_splits)
next
  case Reload
  with assms(1) obtain y where y: "reload_step (sv_security s) = Some y" "s' = s\<lparr>sv_security := y\<rparr>" "sv_phase s \<noteq> Exited"
    by (auto simp: service_step_defs split: if_splits)
  then show ?thesis using reload_decreases [OF y(1)] assms(3) by (auto simp: going_down_def shutdown_left_def)
qed (use assms in \<open>auto simp: internal_event_def service_step_defs going_down_def shutdown_left_def split: if_splits\<close>)

lemma shutdown_run_bounded:
  assumes "service_run fs s = Some s'" and "list_all internal_event fs" and "going_down s"
  shows "length fs + shutdown_left s' \<le> shutdown_left s \<and> going_down s' \<and> sv_accepted s' = sv_accepted s"
  using assms
proof (induction fs arbitrary: s)
  case (Cons e fs)
  then obtain s1 where e: "service_step e s = Some s1" "service_run fs s1 = Some s'" by (auto simp: bind_eq_Some_conv)
  from shutdown_decreases [OF e(1)] Cons.prems have "shutdown_left s1 < shutdown_left s" "going_down s1" "sv_accepted s1 = sv_accepted s"
    by auto
  with Cons.IH [OF e(2)] Cons.prems(2) show ?case by simp
qed simp

lemma shutdown_not_stuck:
  assumes "going_down s" and "\<And>e. internal_event e \<Longrightarrow> service_step e s = None"
  shows "sv_phase s = Exited"
proof (rule ccontr)
  assume "sv_phase s \<noteq> Exited"
  then have "sv_phase s \<in> {Draining, Closing}" using assms(1) by (auto simp: going_down_def)
  then show False by (rule shutdown_progress) (use assms(2) in auto)
qed

lemma exited_done:
  assumes "service_inv s" and "sv_phase s = Exited"
  shows "sv_connections s = [] \<and> set (sv_finished s) = {..<sv_accepted s} \<and> distinct (sv_finished s) \<and>
    sv_listener s = None \<and> sy_task (sv_security s) = NoReload \<and>
    (\<exists>host port. sv_lifecycle s = [ServiceStarted host port, ServiceStopped])"
  using assms by (auto simp: service_inv_def connections_inv_def phase_inv_def log_inv_def)

text \<open>
  When the process has exited, every connection it ever accepted was handled to its end, exactly once, no reload is
  pending, the listener is closed, and the log says once that the collector started and, last, that it stopped.
\<close>

theorem exit_leaves_nothing:
  assumes "boot listen signals loaded a c = Inr s0" and "service_run es s0 = Some s" and "sv_phase s = Exited"
  shows "sv_connections s = [] \<and> set (sv_finished s) = {..<sv_accepted s} \<and> distinct (sv_finished s) \<and>
    sv_listener s = None \<and> sy_task (sv_security s) = NoReload \<and>
    (\<exists>host port. sv_lifecycle s = [ServiceStarted host port, ServiceStopped])"
  using exited_done [OF service_run_inv [OF assms(2) boot_inv [OF assms(1)]] assms(3)] .

theorem exit_leaves_nothing_witness:
  "\<exists>s. service_run [Arrive, Snapshot 0, Interrupt, BeginClose, Finish 0, EndClose] sample_service = Some s \<and> sv_finished s = [0] \<and>
     sv_connections s = [] \<and> sv_lifecycle s = [ServiceStarted (lit ''0.0.0.0'') 8443, ServiceStopped]"
proof -
  obtain s where s: "service_run [Arrive, Snapshot 0, Interrupt, BeginClose, Finish 0, EndClose] sample_service = Some s"
    "sv_phase s = Exited" "sv_accepted s = 1" "sv_finished s = [0]"
    "sv_lifecycle s = [ServiceStarted (lit ''0.0.0.0'') 8443, ServiceStopped]"
    using sample_service_fields by (simp add: service_step_defs take_snapshot_def)
  with exit_leaves_nothing [OF sample_boot s(1,2)] show ?thesis by blast
qed

text \<open>
  C38. A shutdown completes. Once the process was interrupted, by one signal, however its own events are ordered, there are at most
  three for the reload, one for each open connection and two for closing, and when none is left to take, the process has exited and
  every connection it ever accepted has been handled to its end. The end of a connection's handler is one of the events, so handlers
  are taken to be able to end.
\<close>

theorem shutdown_completes:
  assumes "boot listen signals loaded a c = Inr s0" and "service_run es s0 = Some s" and "sv_phase s = Draining"
    and "service_run fs s = Some s'" and "list_all internal_event fs"
  shows "length fs \<le> 5 + length (sv_connections s) \<and>
    ((\<forall>e. internal_event e \<longrightarrow> service_step e s' = None) \<longrightarrow>
       sv_phase s' = Exited \<and> sv_connections s' = [] \<and> set (sv_finished s') = {..<sv_accepted s})"
proof -
  have "going_down s" using assms(3) by (simp add: going_down_def)
  with assms(4,5) have r: "length fs + shutdown_left s' \<le> shutdown_left s" "going_down s'" "sv_accepted s' = sv_accepted s"
    using shutdown_run_bounded by blast+
  have "service_inv s'" by (rule service_run_inv [OF assms(4) service_run_inv [OF assms(2) boot_inv [OF assms(1)]]])
  then have "sv_phase s' = Exited \<Longrightarrow> sv_connections s' = [] \<and> set (sv_finished s') = {..<sv_accepted s}"
    using exited_done r(3) by metis
  moreover have "task_left y \<le> 3" for y :: "'a reload_task" by (cases y) auto
  then have "shutdown_left s \<le> 5 + length (sv_connections s)" using assms(3) by (simp add: shutdown_left_def)
  ultimately show ?thesis using r(1) shutdown_not_stuck [OF r(2)] by auto
qed

theorem shutdown_completes_witness:
  "\<exists>s s'. service_run [Arrive, Hangup, Interrupt] sample_service = Some s \<and>
     service_run [Reload, Finish 0, Reload, Reload, BeginClose, EndClose] s = Some s' \<and> sv_phase s' = Exited \<and> sv_finished s' = [0]"
proof -
  obtain s where s: "service_run [Arrive, Hangup, Interrupt] sample_service = Some s" "sv_phase s = Draining"
    "sv_connections s = [0]" "sv_finished s = []" "sv_accepted s = 1"
    "sv_security s = request_reload (sv_security sample_service)"
    using sample_service_fields by (simp add: service_step_defs)
  obtain tls where tls: "sy_context_file (sv_security sample_service) = Inr tls" using sample_service_files by auto
  obtain s' where s': "service_run [Reload, Finish 0, Reload, Reload, BeginClose, EndClose] s = Some s'" "sv_finished s' = [0]"
    "sv_phase s' = Exited"
    using s(2-6) sample_service_files [THEN conjunct1] tls sample_service_fields
    by (simp add: service_step_defs request_reload_def reload_step_def publish_def sample_nodes_load)
  have "list_all internal_event [Reload, Finish 0, Reload, Reload, BeginClose, EndClose :: (nat, nat) tls_context service_event]"
    by (simp add: internal_event_def)
  note fin = shutdown_completes [OF sample_boot s(1,2) s'(1) this]
  have "service_step e s' = None" for e using s'(3) by (simp add: service_step_def)
  with fin s s' show ?thesis by blast
qed

section \<open>An error of the accept loop\<close>

text \<open>\<open>dead_since s\<close>: the accept task is not running, and the process went on from \<open>s\<close> in this way.\<close>

definition dead_since :: "'c service \<Rightarrow> 'c service \<Rightarrow> bool" where
  "dead_since s s' \<longleftrightarrow>
     sv_accepted s' = sv_accepted s \<and> sv_accept_task s' \<noteq> Accepting \<and>
     (sv_phase s' = Running \<longrightarrow> sv_phase s = Running \<and> sv_accept_task s' = sv_accept_task s \<and>
        sv_listener s' = sv_listener s \<and> sv_lifecycle s' = sv_lifecycle s)"

lemma dead_step: "service_step e s1 = Some s2 \<Longrightarrow> dead_since s s1 \<Longrightarrow> dead_since s s2"
  by (cases e) (auto simp: service_step_defs dead_since_def split: if_splits signal_state.splits)

lemma dead_run: "service_run es s = Some s' \<Longrightarrow> sv_accept_task s \<noteq> Accepting \<Longrightarrow> dead_since s s'"
  by (rule service.run_invariant) (auto dest: dead_step simp: dead_since_def)

lemma failed_state:
  assumes "service_step (AcceptError name) s = Some s1" and "service_inv s"
  shows "sv_accepted s1 = sv_accepted s \<and> sv_accept_task s1 \<noteq> Accepting \<and>
    (sv_phase s1 = Running \<longrightarrow> sv_accept_task s1 = AcceptFailed name \<and> sv_listener s1 \<noteq> None \<and> sv_lifecycle s1 = sv_lifecycle s)"
  using assms
  by (auto simp: service_step_def accept_error_def enabled_def service_inv_def phase_inv_def split: if_splits)

text \<open>
  C39. One \<^verbatim>\<open>OSError\<close> of \<^verbatim>\<open>sock_accept\<close> ends the service: whatever happens afterwards no connection is accepted, and as long as the
  process runs, its listener stays open, the log of the process says nothing of it, and starting again is refused.
\<close>

theorem accept_error_is_silent:
  assumes "boot listen signals loaded a c = Inr s0" and "service_run es s0 = Some s"
    and "service_step (AcceptError name) s = Some s1" and "service_run fs s1 = Some s'"
  shows "sv_accepted s' = sv_accepted s \<and> service_step Arrive s' = None \<and>
    (sv_phase s' = Running \<longrightarrow> sv_accept_task s' = AcceptFailed name \<and> sv_lifecycle s' = sv_lifecycle s \<and>
       start_service listen config s' = Inl AlreadyRunning)"
proof -
  have "service_inv s" by (rule service_run_inv [OF assms(2) boot_inv [OF assms(1)]])
  note f = failed_state [OF assms(3) this]
  then have d: "dead_since s1 s'" using assms(4) by (intro dead_run) auto
  then have "service_step Arrive s' = None"
    by (simp add: dead_since_def service_step_def accept_client_def enabled_def)
  with d f show ?thesis by (auto simp: dead_since_def start_service_def)
qed

theorem accept_error_is_silent_witness:
  "\<exists>s1. service_step (AcceptError ''OSError'') sample_service = Some s1 \<and> sv_phase s1 = Running \<and> sv_listener s1 = Some 8443 \<and>
     service_step Arrive s1 = None \<and> sv_lifecycle s1 = [ServiceStarted (lit ''0.0.0.0'') 8443]"
proof -
  obtain s1 where s1: "service_step (AcceptError ''OSError'') sample_service = Some s1" "sv_phase s1 = Running"
    "sv_listener s1 = Some 8443" "sv_lifecycle s1 = sv_lifecycle sample_service"
    using sample_service_fields by (simp add: service_step_defs)
  have "service_run [] sample_service = Some sample_service" "service_run [] s1 = Some s1" by simp_all
  from accept_error_is_silent [OF sample_boot this(1) s1(1) this(2)] s1 sample_service_fields show ?thesis by auto
qed

section \<open>The TLS contexts in use\<close>

definition contexts_satisfy :: "('c \<Rightarrow> bool) \<Rightarrow> 'c security \<Rightarrow> bool" where
  "contexts_satisfy P y \<longleftrightarrow>
     (\<forall>p \<in> set (sy_published y). P (snd p)) \<and> (\<forall>nodes tls. sy_task y = HasBoth nodes tls \<longrightarrow> P tls) \<and>
     (\<forall>tls. sy_context_file y = Inr tls \<longrightarrow> P tls)"

definition file_satisfies :: "('c \<Rightarrow> bool) \<Rightarrow> 'c service_event \<Rightarrow> bool" where
  "file_satisfies P e \<longleftrightarrow> (case e of Files a c \<Rightarrow> (\<forall>tls. c = Inr tls \<longrightarrow> P tls) | _ \<Rightarrow> True)"

lemma reload_contexts: "reload_step y = Some y' \<Longrightarrow> contexts_satisfy P y \<Longrightarrow> contexts_satisfy P y'"
  by (auto simp: reload_step_def reload_failed_def publish_def contexts_satisfy_def split: reload_task.splits sum.splits)

lemma contexts_same:
  "sy_published y' = sy_published y \<Longrightarrow> sy_context_file y' = sy_context_file y \<Longrightarrow>
   (\<And>nodes tls. sy_task y' = HasBoth nodes tls \<Longrightarrow> sy_task y = HasBoth nodes tls) \<Longrightarrow> contexts_satisfy P y \<Longrightarrow> contexts_satisfy P y'"
  by (simp add: contexts_satisfy_def)

lemma step_contexts:
  assumes "service_step e s = Some s'" and "contexts_satisfy P (sv_security s)" and "file_satisfies P e"
  shows "contexts_satisfy P (sv_security s')"
proof (cases e)
  case Reload
  with assms show ?thesis by (auto simp: service_step_def on_security_def intro: reload_contexts split: if_splits)
next
  case (Snapshot t)
  with assms show ?thesis
    by (auto simp: service_step_def on_security_def take_snapshot_def intro: contexts_same split: if_splits option.splits)
next
  case Hangup
  with assms show ?thesis
    by (auto simp: service_step_def hangup_def request_reload_def intro: contexts_same split: if_splits signal_state.splits reload_task.splits)
next
  case (Files a c)
  with assms show ?thesis
    by (auto simp: service_step_def on_security_def contexts_satisfy_def file_satisfies_def split: if_splits)
qed (use assms in \<open>auto simp: service_step_defs split: if_splits\<close>)

lemma boot_contexts:
  assumes "boot listen signals loaded a c = Inr s" and "\<And>tls. c = Inr tls \<Longrightarrow> P tls"
  shows "contexts_satisfy P (sv_security s)"
  using assms
  by (auto simp: boot_def start_service_def new_service_def service_port_def open_server_def load_security_state_def
      contexts_satisfy_def res_simps)

text \<open>
  C37. Every connection the process ever serves, after whatever reloads, works with a TLS context that requires a client
  certificate, refuses versions below TLS 1.2, has the flag that checks the certificate against the revocation list, and
  has at least two verify locations (the authority and the revocation list are what is loaded there) and a certificate chain, and with a
  non-empty allow-list without duplicates.
\<close>

theorem connections_use_strict_contexts:
  assumes "boot listen signals (Inr config) a (build_server_tls_context fresh load_ca load_chain config) = Inr s0"
    and "service_run es s0 = Some s"
    and "\<And>a' c'. Files a' c' \<in> set es \<Longrightarrow> \<exists>load_ca' load_chain'. c' = build_server_tls_context fresh load_ca' load_chain' config"
    and "sy_snapshot (sv_security s) t = Some (nodes, tls)"
  shows "context_strict tls \<and> enrolled_ok nodes \<and> t < sv_accepted s"
proof -
  have files: "file_satisfies context_strict e" if "e \<in> set es" for e
  proof (cases e)
    case (Files a' c')
    with assms(3) that obtain ca chain where "c' = build_server_tls_context fresh ca chain config" by blast
    then have "context_strict tls" if "c' = Inr tls" for tls
      using that built_context by metis
    with Files show ?thesis by (simp add: file_satisfies_def)
  qed (simp_all add: file_satisfies_def)
  have "contexts_satisfy context_strict (sv_security s)"
  proof (rule service.run_invariant [OF assms(2), of "\<lambda>s. contexts_satisfy context_strict (sv_security s)"])
    show "contexts_satisfy context_strict (sv_security s0)"
      using assms(1) by (rule boot_contexts) (use built_context in blast)
  qed (use step_contexts files in blast)
  moreover have "service_inv s" by (rule service_run_inv [OF assms(2) boot_inv [OF assms(1)]])
  then have "(nodes, tls) \<in> set (sy_published (sv_security s))" "enrolled_ok nodes" "t < sv_accepted s"
    using assms(4) by (fastforce simp: service_inv_def security_inv_def)+
  ultimately show ?thesis by (auto simp: contexts_satisfy_def)
qed

theorem connections_use_strict_contexts_witness:
  "\<exists>s nodes tls. service_run [Arrive, Snapshot 0] sample_service = Some s \<and> sy_snapshot (sv_security s) 0 = Some (nodes, tls) \<and>
     context_strict tls \<and> enrolled_ok nodes"
proof -
  obtain s where s: "service_run [Arrive, Snapshot 0] sample_service = Some s"
    "sy_snapshot (sv_security s) 0 = Some (sy_enrolled_nodes (sv_security sample_service), sy_tls_context (sv_security sample_service))"
    using sample_service_fields by (simp add: service_step_defs take_snapshot_def)
  have "context_strict (sy_tls_context (sv_security sample_service)) \<and> enrolled_ok (sy_enrolled_nodes (sv_security sample_service)) \<and>
      0 < sv_accepted s"
    by (rule connections_use_strict_contexts [OF sample_boot [unfolded sample_build_def] s(1) _ s(2)]) simp
  with s show ?thesis by blast
qed

end
