(* ===== verification/Anchor_Command.thy ===== *)
theory Anchor_Command
  imports Anchor_Properties
begin

text \<open>
  The command line of \<^verbatim>\<open>src/forensics/anchor_worker.py\<close>, with the paths of \<^verbatim>\<open>src/forensics/logger.py\<close> it uses. The options
  arrive as \<^verbatim>\<open>argparse\<close> split them; \<open>resolve\<close> is \<^verbatim>\<open>expanduser().resolve()\<close>.
\<close>

section \<open>The paths of the log\<close>



section \<open>Integers of the command line\<close>








section \<open>The options\<close>







section \<open>The command\<close>







section \<open>What the command does\<close>





section \<open>Decimal options are read\<close>





section \<open>Properties\<close>









end
