(* ===== verification/Float_Check.thy ===== *)
theory Float_Check
  imports Py_Json_Ascii_Roundtrip Py_Json_Wf
begin

text \<open>
  The rendering of floats, \<^verbatim>\<open>src/forensics/float_canonical.py\<close>, and the command that checks it against the test vectors
  and the Rust program, \<^verbatim>\<open>src/forensics/check_float_canonicalization.py\<close>. The lines the Rust program prints are an
  argument, and so is the text Python gives a value that is not text.
\<close>

section \<open>The rendering\<close>

datatype float_exn = FloatTypeError | FloatValueError

definition canonicalize_float :: "pyval \<Rightarrow> float_exn + pystr" where
  "canonicalize_float v =
     (case v of
        PFloat x \<Rightarrow> if f64_isfinite x then Inr (float_text x) else Inl FloatValueError
      | _ \<Rightarrow> Inl FloatTypeError)"

section \<open>The vectors\<close>

text \<open>
  What can leave the command: \<^verbatim>\<open>OSError\<close> or \<^verbatim>\<open>UnicodeDecodeError\<close> of the read, the errors of \<^verbatim>\<open>json.loads\<close>, the
  \<^verbatim>\<open>ValueError\<close> of the version and of \<^verbatim>\<open>bytes.fromhex\<close>, \<^verbatim>\<open>struct.error\<close>, \<^verbatim>\<open>KeyError\<close>, the \<^verbatim>\<open>TypeError\<close> or
  \<^verbatim>\<open>AttributeError\<close> of a value of another type, the \<^verbatim>\<open>SystemExit\<close> of a missing or failing \<^verbatim>\<open>cargo\<close>, and what else
  \<^verbatim>\<open>subprocess.run\<close> raises.
\<close>

datatype check_exn =
    VectorsUnreadable
  | VectorsJson json_error
  | VectorsVersion
  | VectorsKey string
  | VectorsType
  | BadHex
  | BadLength
  | CargoMissing
  | CargoFailed int
  | CargoRaises

definition vector_item :: "pydict \<Rightarrow> string \<Rightarrow> check_exn + pyval" where
  "vector_item d k = (case dget d k of None \<Rightarrow> Inl (VectorsKey k) | Some v \<Rightarrow> Inr v)"

text \<open>\<^verbatim>\<open>value != 1\<close>: the float \<^verbatim>\<open>1.0\<close> and \<^verbatim>\<open>True\<close> are equal to 1.\<close>

fun equals_one :: "pyval \<Rightarrow> bool" where
  "equals_one (PInt n) = (n = 1)"
| "equals_one (PBool b) = b"
| "equals_one (PFloat x) = (x = f64_one)"
| "equals_one _ = False"

text \<open>Unpacking \<^verbatim>\<open>[*value]\<close>: a list, the keys of an object, the characters of a text.\<close>

definition unpack_items :: "pyval \<Rightarrow> check_exn + pyval list" where
  "unpack_items v =
     (case v of
        PList vs \<Rightarrow> Inr vs
      | PDict d \<Rightarrow> Inr (map (\<lambda>k. PStr (key_text k)) (dkeys d))
      | PStr s \<Rightarrow> Inr (map (\<lambda>c. PStr [c]) s)
      | _ \<Rightarrow> Inl VectorsType)"

text \<open>The file is its text, \<open>None\<close> when reading it raises.\<close>

definition read_vectors :: "pystr option \<Rightarrow> check_exn + pyval list" where
  "read_vectors file =
     (case file of
        None \<Rightarrow> Inl VectorsUnreadable
      | Some text \<Rightarrow>
          rbind (rmap_err VectorsJson (loads_text text)) (\<lambda>document.
            case document of
              PDict d \<Rightarrow>
                rbind (raise_if (\<not> (case dget d ''format_version'' of None \<Rightarrow> False | Some v \<Rightarrow> equals_one v)) VectorsVersion) (\<lambda>_.
                rbind (rbind (vector_item d ''valid_vectors'') unpack_items) (\<lambda>valid.
                rbind (rbind (vector_item d ''invalid_vectors'') unpack_items) (\<lambda>invalid.
                  Inr (valid @ invalid))))
            | _ \<Rightarrow> Inl VectorsType))"

text \<open>\<^verbatim>\<open>vector[k]\<close> raises \<^verbatim>\<open>TypeError\<close> unless the vector is an object.\<close>

definition subscript :: "pyval \<Rightarrow> string \<Rightarrow> check_exn + pyval" where
  "subscript v k = (case v of PDict d \<Rightarrow> vector_item d k | _ \<Rightarrow> Inl VectorsType)"

text \<open>\<^verbatim>\<open>str(value)\<close> and the truth of a value.\<close>

definition py_str :: "(pyval \<Rightarrow> pystr) \<Rightarrow> pyval \<Rightarrow> pystr" where
  "py_str show_other v = (case v of PStr s \<Rightarrow> s | _ \<Rightarrow> show_other v)"

fun truthy :: "pyval \<Rightarrow> bool" where
  "truthy PNone = False"
| "truthy (PBool b) = b"
| "truthy (PInt n) = (n \<noteq> 0)"
| "truthy (PFloat x) = (f64_mag x \<noteq> 0)"
| "truthy (PStr s) = (s \<noteq> [])"
| "truthy (PList vs) = (vs \<noteq> [])"
| "truthy (PDict d) = (d \<noteq> [])"
| "truthy (POther t) = True"

definition is_ascii_space :: "nat \<Rightarrow> bool" where
  "is_ascii_space c \<longleftrightarrow> c = 32 \<or> (9 \<le> c \<and> c \<le> 13)"

text \<open>\<^verbatim>\<open>bytes.fromhex\<close>: pairs of digits, white space between the pairs; \<open>None\<close> is \<^verbatim>\<open>ValueError\<close>.\<close>

fun bytes_fromhex :: "pystr \<Rightarrow> bytestr option" where
  "bytes_fromhex [] = Some []"
| "bytes_fromhex [a] = (if is_ascii_space a then Some [] else None)"
| "bytes_fromhex (a # b # r) =
     (if is_ascii_space a then bytes_fromhex (b # r)
      else (case (hex_val a, hex_val b) of
        (Some x, Some y) \<Rightarrow> map_option (Cons (byte_of (16 * x + y))) (bytes_fromhex r)
      | _ \<Rightarrow> None))"

text \<open>\<^verbatim>\<open>struct.unpack(">d", data)\<close>.\<close>

definition unpack_double :: "bytestr \<Rightarrow> f64 option" where
  "unpack_double bs =
     (if length bs = 8 then Some (word_of_nat (foldl (\<lambda>n b. n * 256 + unat b) 0 bs)) else None)"

definition vector_float :: "pystr \<Rightarrow> check_exn + f64" where
  "vector_float bits_hex =
     (case bytes_fromhex bits_hex of
        None \<Rightarrow> Inl BadHex
      | Some bs \<Rightarrow> (case unpack_double bs of None \<Rightarrow> Inl BadLength | Some x \<Rightarrow> Inr x))"

definition REJECTED :: pystr where
  "REJECTED = lit ''<rejected>''"

section \<open>The lines\<close>

fun rmap_list :: "('a \<Rightarrow> 'e + 'b) \<Rightarrow> 'a list \<Rightarrow> 'e + 'b list" where
  "rmap_list f [] = Inr []"
| "rmap_list f (x # xs) = rbind (f x) (\<lambda>y. rbind (rmap_list f xs) (\<lambda>ys. Inr (y # ys)))"

definition python_line :: "(pyval \<Rightarrow> pystr) \<Rightarrow> pyval \<Rightarrow> check_exn + pystr" where
  "python_line show_other vector =
     rbind (subscript vector ''binary64_hex'') (\<lambda>hex.
       (let bits_hex = py_str show_other hex in
        rbind (vector_float bits_hex) (\<lambda>x.
          Inr (bits_hex @ [9] @
            (case canonicalize_float (PFloat x) of Inl e \<Rightarrow> REJECTED | Inr rendered \<Rightarrow> rendered)))))"

definition python_lines :: "(pyval \<Rightarrow> pystr) \<Rightarrow> pyval list \<Rightarrow> check_exn + pystr list" where
  "python_lines show_other vectors = rmap_list (python_line show_other) vectors"

definition expected_line :: "(pyval \<Rightarrow> pystr) \<Rightarrow> pyval \<Rightarrow> check_exn + pystr" where
  "expected_line show_other vector =
     rbind (subscript vector ''binary64_hex'') (\<lambda>hex.
     rbind (subscript vector ''canonical'') (\<lambda>canonical.
       Inr (py_str show_other hex @ [9] @ (if truthy canonical then py_str show_other canonical else REJECTED))))"

definition expected_lines :: "(pyval \<Rightarrow> pystr) \<Rightarrow> pyval list \<Rightarrow> check_exn + pystr list" where
  "expected_lines show_other vectors = rmap_list (expected_line show_other) vectors"

text \<open>
  The outcome of \<^verbatim>\<open>cargo run\<close> on the hexadecimal texts, each through \<^verbatim>\<open>str\<close>: no such command, another error of
  starting it or of reading its output, a failing exit, or its lines.
\<close>

datatype cargo = NoCargo | CargoError | CargoExit int | CargoPrints "pystr list"

definition rust_lines :: "(pyval \<Rightarrow> pystr) \<Rightarrow> (pystr list \<Rightarrow> cargo) \<Rightarrow> pyval list \<Rightarrow> check_exn + pystr list" where
  "rust_lines show_other run_cargo vectors =
     rbind (rmap_list (\<lambda>vector. rbind (subscript vector ''binary64_hex'') (\<lambda>hex. Inr (py_str show_other hex))) vectors) (\<lambda>args.
       case run_cargo args of
         NoCargo \<Rightarrow> Inl CargoMissing
       | CargoError \<Rightarrow> Inl CargoRaises
       | CargoExit code \<Rightarrow> Inl (CargoFailed code)
       | CargoPrints lines \<Rightarrow> Inr lines)"

text \<open>\<^verbatim>\<open>_diff\<close> without what it writes to the error output.\<close>

definition diff_lines :: "pystr list \<Rightarrow> pystr list \<Rightarrow> bool" where
  "diff_lines expected actual \<longleftrightarrow> actual = expected"

text \<open>The exit code, and for the code 0 the numbers of vectors and of canonical ones that are printed.\<close>

definition check_main ::
    "(pyval \<Rightarrow> pystr) \<Rightarrow> (pystr list \<Rightarrow> cargo) \<Rightarrow> pystr option \<Rightarrow> check_exn + nat \<times> (nat \<times> nat) option" where
  "check_main show_other run_cargo file =
     rbind (read_vectors file) (\<lambda>vectors.
     rbind (expected_lines show_other vectors) (\<lambda>expected.
     rbind (python_lines show_other vectors) (\<lambda>python.
     rbind (rust_lines show_other run_cargo vectors) (\<lambda>rust.
       (let passed = list_all id [diff_lines expected python, diff_lines expected rust, diff_lines python rust] in
        if \<not> passed then Inr (1, None)
        else rbind (rmap_list (\<lambda>vector. subscript vector ''canonical'') vectors) (\<lambda>cs.
          Inr (0, Some (length vectors, length (filter (\<lambda>c. c \<noteq> PNone) cs)))))))))"

section \<open>A passed check\<close>

lemma rmap_list_Inr: "rmap_list f xs = Inr ys \<longleftrightarrow> list_all2 (\<lambda>x y. f x = Inr y) xs ys"
  by (induction xs arbitrary: ys) (auto simp: res_simps list_all2_Cons1)

text \<open>What a passed check says of one vector.\<close>

definition vector_agrees :: "(pyval \<Rightarrow> pystr) \<Rightarrow> pyval \<Rightarrow> bool" where
  "vector_agrees show_other vector \<longleftrightarrow>
     (\<exists>d hex canonical x. vector = PDict d \<and> dget d ''binary64_hex'' = Some hex \<and> dget d ''canonical'' = Some canonical \<and>
        vector_float (py_str show_other hex) = Inr x \<and>
        (if truthy canonical then py_str show_other canonical else REJECTED) =
          (if f64_isfinite x then float_text x else REJECTED))"

lemma expected_line_fields:
  assumes "expected_line show_other vector = Inr line"
  obtains d hex canonical where "vector = PDict d" and "dget d ''binary64_hex'' = Some hex" and "dget d ''canonical'' = Some canonical"
    and "line = py_str show_other hex @ [9] @ (if truthy canonical then py_str show_other canonical else REJECTED)"
  using assms
  by (auto simp: expected_line_def subscript_def vector_item_def res_simps split: pyval.splits option.splits)

lemma python_line_float:
  assumes "python_line show_other (PDict d) = Inr line" and "dget d ''binary64_hex'' = Some hex"
  obtains x where "vector_float (py_str show_other hex) = Inr x"
    and "line = py_str show_other hex @ [9] @ (if f64_isfinite x then float_text x else REJECTED)"
  using assms
  by (auto simp: python_line_def subscript_def vector_item_def canonicalize_float_def Let_def res_simps split: sum.splits if_splits)

lemma vector_lines_agree:
  assumes "expected_line show_other vector = Inr line" and "python_line show_other vector = Inr line"
  shows "vector_agrees show_other vector"
proof -
  obtain d hex canonical where v: "vector = PDict d" "dget d ''binary64_hex'' = Some hex" "dget d ''canonical'' = Some canonical"
    and e: "line = py_str show_other hex @ [9] @ (if truthy canonical then py_str show_other canonical else REJECTED)"
    by (rule expected_line_fields [OF assms(1)])
  obtain x where x: "vector_float (py_str show_other hex) = Inr x"
    and p: "line = py_str show_other hex @ [9] @ (if f64_isfinite x then float_text x else REJECTED)"
    using assms(2) v(1,2) by (auto elim: python_line_float)
  have "(if truthy canonical then py_str show_other canonical else REJECTED) = (if f64_isfinite x then float_text x else REJECTED)"
    using e p by (simp only: same_append_eq append_Cons append_Nil list.inject)
  then show ?thesis
    unfolding vector_agrees_def using v x by blast
qed

lemma cargo_prints:
  assumes "rust_lines show_other run_cargo vectors = Inr ls"
  obtains hexes where "run_cargo hexes = CargoPrints ls"
proof -
  obtain hexes where "(case run_cargo hexes of NoCargo \<Rightarrow> Inl CargoMissing | CargoError \<Rightarrow> Inl CargoRaises
      | CargoExit code \<Rightarrow> Inl (CargoFailed code) | CargoPrints lines \<Rightarrow> Inr lines) = Inr ls"
    using assms unfolding rust_lines_def res_simps by blast
  then show thesis using that by (cases "run_cargo hexes") simp_all
qed

lemma passed_vectors:
  assumes "check_main show_other run_cargo file = Inr (0, out)"
  obtains vectors ls hexes where "read_vectors file = Inr vectors" and "list_all (vector_agrees show_other) vectors"
    and "python_lines show_other vectors = Inr ls" and "expected_lines show_other vectors = Inr ls"
    and "run_cargo hexes = CargoPrints ls"
proof -
  obtain vectors e p r where s: "read_vectors file = Inr vectors" "expected_lines show_other vectors = Inr e"
    "python_lines show_other vectors = Inr p" "rust_lines show_other run_cargo vectors = Inr r" "e = p" "r = p"
    using assms by (auto simp: check_main_def Let_def diff_lines_def res_simps split: if_splits)
  have "list_all2 (\<lambda>v l. expected_line show_other v = Inr l) vectors p" "list_all2 (\<lambda>v l. python_line show_other v = Inr l) vectors p"
    using s(2,3,5) by (simp_all add: expected_lines_def python_lines_def rmap_list_Inr)
  then have "list_all (vector_agrees show_other) vectors"
    by (auto simp: list_all2_conv_all_nth list_all_length intro: vector_lines_agree)
  moreover obtain hexes where "run_cargo hexes = CargoPrints p"
    using cargo_prints [OF s(4)] s(6) by blast
  ultimately show thesis using that s by blast
qed

section \<open>Reading the rendered text back\<close>

lemma loads_float_text: "f64_isfinite x \<Longrightarrow> loads_text (float_text x) = Inr (PFloat x)"
  using loads_text_canon [of "PFloat x" "float_text x"] by simp

lemma float_text_not_rejected: "f64_isfinite x \<Longrightarrow> float_text x \<noteq> REJECTED"
proof
  assume f: "f64_isfinite x" and "float_text x = REJECTED"
  with loads_float_text [OF f] have "loads_text REJECTED = Inr (PFloat x)" by simp
  then show False
    by (simp add: loads_text_def REJECTED_def lit_def skip_ws_def is_ws_def scan_once.simps scan_constant_def strip_prefix_def
        scan_number_def match_int_def is_digit_def)
qed

lemma canonicalize_float_Inr: "canonicalize_float v = Inr t \<longleftrightarrow> (\<exists>x. v = PFloat x \<and> f64_isfinite x \<and> t = float_text x)"
  by (auto simp: canonicalize_float_def split: pyval.splits)


text \<open>What the check says of a vector whose text is \<open>hex\<close>, given the lines of the Rust program.\<close>

definition vector_verdict :: "pystr list \<Rightarrow> pystr \<Rightarrow> pyval \<Rightarrow> bool" where
  "vector_verdict rust hex canonical \<longleftrightarrow>
     (\<exists>x. vector_float hex = Inr x \<and>
        (if f64_isfinite x then canonical = PStr (float_text x) \<and> hex @ [9] @ float_text x \<in> set rust
         else canonical \<in> {PNone, PStr [], PStr REJECTED} \<and> hex @ [9] @ REJECTED \<in> set rust))"

definition canonical_field :: "pyval \<Rightarrow> bool" where
  "canonical_field v \<longleftrightarrow> (case v of PNone \<Rightarrow> True | PStr s \<Rightarrow> True | _ \<Rightarrow> False)"

lemma agreeing_verdict:
  assumes "vector_agrees show_other (PDict d)" and "dget d ''binary64_hex'' = Some (PStr hex)"
    and "dget d ''canonical'' = Some canonical" and "canonical_field canonical"
    and "expected_line show_other (PDict d) = Inr line" and "line \<in> set rust"
  shows "vector_verdict rust hex canonical"
proof -
  obtain x where x: "vector_float hex = Inr x"
    and c: "(if truthy canonical then py_str show_other canonical else REJECTED) = (if f64_isfinite x then float_text x else REJECTED)"
    using assms(1-3) by (auto simp: vector_agrees_def py_str_def)
  have l: "line = hex @ [9] @ (if truthy canonical then py_str show_other canonical else REJECTED)"
    using assms(2,3,5) by (auto simp: expected_line_def subscript_def vector_item_def py_str_def res_simps)
  show ?thesis
    unfolding vector_verdict_def using x c l assms(4,6) float_text_not_rejected [of x]
    by (auto simp: canonical_field_def py_str_def split: pyval.splits if_splits)
qed

lemma list_all2_member:
  assumes "list_all2 P xs ys" and "x \<in> set xs"
  obtains y where "P x y" and "y \<in> set ys"
proof -
  have "\<exists>y\<in>set ys. P x y" using assms by (induction rule: list_all2_induct) auto
  with that show thesis by blast
qed

text \<open>The file of the witness, a vector for 0 and one for a NaN, and a program that prints their lines.\<close>

definition sample_document :: pyval where
  "sample_document = PDict
     [(KStr (lit ''format_version''), PInt 1),
      (KStr (lit ''invalid_vectors''), PList [PDict [(KStr (lit ''binary64_hex''), PStr (lit ''7ff8000000000000'')), (KStr (lit ''canonical''), PNone)]]),
      (KStr (lit ''valid_vectors''), PList [PDict [(KStr (lit ''binary64_hex''), PStr (lit ''0000000000000000'')), (KStr (lit ''canonical''), PStr (lit ''0.0''))]])]"

definition sample_vectors_file :: pystr where
  "sample_vectors_file = the (canon_text sample_document)"

definition sample_cargo :: "pystr list \<Rightarrow> cargo" where
  "sample_cargo args = CargoPrints [lit ''0000000000000000'' @ [9] @ lit ''0.0'', lit ''7ff8000000000000'' @ [9] @ REJECTED]"

lemma sample_document_read: "loads_text sample_vectors_file = Inr sample_document"
proof -
  have "loads_text sample_vectors_file = Inr (norm_val sample_document)"
  proof (rule loads_text_canon)
    have "canon_text sample_document \<noteq> None" by code_simp
    then show "canon_text sample_document = Some sample_vectors_file" by (auto simp: sample_vectors_file_def)
    show "wf_val sample_document" by (simp add: sample_document_def wf_lit)
  qed
  moreover have "norm_val sample_document = sample_document" by code_simp
  ultimately show ?thesis by simp
qed

definition sample_vectors :: "pyval list" where
  "sample_vectors =
     [PDict [(KStr (lit ''binary64_hex''), PStr (lit ''0000000000000000'')), (KStr (lit ''canonical''), PStr (lit ''0.0''))],
      PDict [(KStr (lit ''binary64_hex''), PStr (lit ''7ff8000000000000'')), (KStr (lit ''canonical''), PNone)]]"

lemma sample_vectors_read: "read_vectors (Some sample_vectors_file) = Inr sample_vectors"
proof -
  have "read_vectors (Some sample_vectors_file) =
      rbind (rmap_err VectorsJson (Inr sample_document)) (\<lambda>document. case document of
        PDict d \<Rightarrow>
                rbind (raise_if (\<not> (case dget d ''format_version'' of None \<Rightarrow> False | Some v \<Rightarrow> equals_one v)) VectorsVersion) (\<lambda>_.
                rbind (rbind (vector_item d ''valid_vectors'') unpack_items) (\<lambda>valid.
                rbind (rbind (vector_item d ''invalid_vectors'') unpack_items) (\<lambda>invalid.
                  Inr (valid @ invalid))))
            | _ \<Rightarrow> Inl VectorsType)"
    by (simp only: read_vectors_def option.case sample_document_read)
  also have "\<dots> = Inr sample_vectors" by code_simp
  finally show ?thesis .
qed

lemma sample_bytes_zero: "bytes_fromhex (lit ''0000000000000000'') = Some [0,0,0,0,0,0,0,0]"
  by (simp add: lit_def hex_val_def byte_of_def is_ascii_space_def)

lemma sample_bytes_nan: "bytes_fromhex (lit ''7ff8000000000000'') = Some [0x7f,0xf8,0,0,0,0,0,0]"
  by (simp add: lit_def hex_val_def byte_of_def is_ascii_space_def)

lemma sample_zero: "vector_float (lit ''0000000000000000'') = Inr 0"
  by (simp add: vector_float_def sample_bytes_zero unpack_double_def)

lemma sample_nan: "vector_float (lit ''7ff8000000000000'') = Inr 0x7ff8000000000000"
  by (simp add: vector_float_def sample_bytes_nan unpack_double_def)

lemma sample_zero_finite: "f64_isfinite 0"
  by (simp add: f64_isfinite_def f64_mag_def inf_mag_def)

lemma sample_nan_not_finite: "\<not> f64_isfinite 0x7ff8000000000000"
  by (simp add: f64_isfinite_def f64_mag_def inf_mag_def)

lemma sample_zero_text: "float_text 0 = lit ''0.0''"
  by (simp add: float_text_def f64_mag_def f64_neg_def)

lemma sample_expected: "expected_lines (\<lambda>v. []) sample_vectors = Inr [lit ''0000000000000000'' @ [9] @ lit ''0.0'', lit ''7ff8000000000000'' @ [9] @ REJECTED]"
  by (simp add: sample_vectors_def expected_lines_def expected_line_def subscript_def vector_item_def dget_def py_str_def)

lemma sample_python: "python_lines (\<lambda>v. []) sample_vectors = Inr [lit ''0000000000000000'' @ [9] @ lit ''0.0'', lit ''7ff8000000000000'' @ [9] @ REJECTED]"
  by (simp add: sample_vectors_def python_lines_def python_line_def subscript_def vector_item_def dget_def py_str_def sample_zero sample_nan canonicalize_float_def sample_zero_finite sample_nan_not_finite sample_zero_text)

lemma sample_rust: "rust_lines (\<lambda>v. []) sample_cargo sample_vectors = Inr [lit ''0000000000000000'' @ [9] @ lit ''0.0'', lit ''7ff8000000000000'' @ [9] @ REJECTED]"
  by (simp add: sample_vectors_def rust_lines_def subscript_def vector_item_def dget_def sample_cargo_def)

lemma sample_check_passes: "check_main (\<lambda>v. []) sample_cargo (Some sample_vectors_file) = Inr (0, Some (2, 1))"
  by (simp add: check_main_def sample_vectors_read sample_expected sample_python sample_rust diff_lines_def) (simp add: sample_vectors_def subscript_def vector_item_def dget_def)

text \<open>
  C34. What a check that exits with 0 says of each vector: its bytes are a binary64 value; when the value is finite, the canonical
  text of the vector is the shortest round-trip text that the encoder writes, and otherwise the vector has no canonical text; and the lines
  of the Rust program, one for each vector, contain the same verdict.
\<close>

theorem passed_check_verdicts:
  assumes "check_main show_other run_cargo file = Inr (0, out)" and "read_vectors file = Inr vectors"
    and "PDict d \<in> set vectors" and "dget d ''binary64_hex'' = Some (PStr hex)"
    and "dget d ''canonical'' = Some canonical" and "canonical_field canonical"
  shows "\<exists>args rust. run_cargo args = CargoPrints rust \<and> length rust = length vectors \<and> vector_verdict rust hex canonical"
proof -
  obtain ls args where all: "list_all (vector_agrees show_other) vectors" and e: "expected_lines show_other vectors = Inr ls"
    and r: "run_cargo args = CargoPrints ls"
    by (rule passed_vectors [OF assms(1)]) (use assms(2) in auto)
  have l2: "list_all2 (\<lambda>v l. expected_line show_other v = Inr l) vectors ls"
    using e by (simp add: expected_lines_def rmap_list_Inr)
  then obtain line where "expected_line show_other (PDict d) = Inr line" "line \<in> set ls"
    using assms(3) by (rule list_all2_member)
  then have "vector_verdict ls hex canonical"
    using all assms(3-6) by (intro agreeing_verdict) (auto simp: list_all_iff)
  with r list_all2_lengthD [OF l2] show ?thesis by metis
qed



theorem passed_check_verdicts_witness:
  "vector_verdict [lit ''0000000000000000'' @ [9] @ lit ''0.0'', lit ''7ff8000000000000'' @ [9] @ REJECTED]
     (lit ''0000000000000000'') (PStr (lit ''0.0''))"
proof -
  have "\<exists>args rust. sample_cargo args = CargoPrints rust \<and> length rust = length sample_vectors \<and>
      vector_verdict rust (lit ''0000000000000000'') (PStr (lit ''0.0''))"
    by (rule passed_check_verdicts [OF sample_check_passes sample_vectors_read,
          of "[(KStr (lit ''binary64_hex''), PStr (lit ''0000000000000000'')), (KStr (lit ''canonical''), PStr (lit ''0.0''))]"])
      (simp_all add: sample_vectors_def dget_def canonical_field_def lit_def)
  then show ?thesis by (auto simp: sample_cargo_def)
qed

text \<open>
  \<^verbatim>\<open>canonicalize_float\<close> accepts exactly the finite floats; its text is the one the canonical encoder of the chain writes, and
  reading it back gives the identical bits, so that two floats never share a text.
\<close>

theorem canonical_float_roundtrip:
  "canonicalize_float v = Inr t \<longleftrightarrow> (\<exists>x. v = PFloat x \<and> f64_isfinite x) \<and> canon_text v = Some t \<and> loads_text t = Inr v"
  by (auto simp: canonicalize_float_Inr loads_float_text)

end
