(* ===== verification/Keys.thy ===== *)
theory Keys
  imports Prelude
begin

unbundle bit_operations_syntax

text \<open>
  The signing keys of \<^verbatim>\<open>src/forensics/keys.py\<close>: how the key files are created, read and, when the second of a pair fails,
  removed. The \<^verbatim>\<open>cryptography\<close> library is a record of functions, \<open>resolve\<close> is
  \<^verbatim>\<open>Path(path).expanduser().resolve()\<close>, and the outcomes of the calls of the operating system are arguments. Other
  processes may create files between the calls.
\<close>

section \<open>Files\<close>

type_synonym file_mode = "9 word"

datatype dir_entry = KeyFile bytestr file_mode | OtherEntry

type_synonym disk = "pystr \<Rightarrow> dir_entry option"

datatype key_exn = KeyFileExists | KeyOSError | KeyPathError | KeyPasswordEmpty | KeyLibraryError | KeyTypeError

text \<open>
  \<open>ki_mkdir\<close> and \<open>ki_open\<close> say that the call raises for a reason of its own; \<open>ki_cut = Some n\<close> that writing, flushing,
  \<^verbatim>\<open>fsync\<close> or closing raises with \<open>n\<close> bytes in the file; \<open>ki_race\<close> holds the entries other processes create before the
  file is opened, where there was none.
\<close>

record save_io =
  ki_mkdir :: bool
  ki_open :: bool
  ki_cut :: "nat option"
  ki_race :: disk

definition others_create :: "disk \<Rightarrow> disk \<Rightarrow> disk" where
  "others_create new disk = new ++ disk"

text \<open>Opening with \<^verbatim>\<open>O_CREAT | O_EXCL\<close>, and writing.\<close>

definition create_exclusive :: "file_mode \<Rightarrow> save_io \<Rightarrow> pystr \<Rightarrow> bytestr \<Rightarrow> disk \<Rightarrow> (key_exn + unit) \<times> disk" where
  "create_exclusive mode io path data disk0 =
     (let disk = others_create (ki_race io) disk0 in
      if ki_open io then (Inl KeyOSError, disk)
      else if disk path \<noteq> None then (Inl KeyFileExists, disk)
      else (case ki_cut io of
              None \<Rightarrow> (Inr (), disk(path \<mapsto> KeyFile data mode))
            | Some n \<Rightarrow> (Inl KeyOSError, disk(path \<mapsto> KeyFile (take n data) mode))))"

text \<open>\<^verbatim>\<open>os.open(path, flags, 0o600)\<close> under the umask of the process.\<close>

definition write_secret_exclusive :: "file_mode \<Rightarrow> save_io \<Rightarrow> pystr \<Rightarrow> bytestr \<Rightarrow> disk \<Rightarrow> (key_exn + unit) \<times> disk" where
  "write_secret_exclusive umask io path data disk = create_exclusive (384 AND NOT umask) io path data disk"

section \<open>The library\<close>

text \<open>
  \<open>private_pem\<close> is \<^verbatim>\<open>private_bytes\<close> with no encryption or the best available one, \<open>None\<close> when it raises; the loaders give
  \<open>None\<close> when they raise, and \<open>Some None\<close> for a key of another type.
\<close>

record ('k, 'u) key_library =
  private_pem :: "'k \<Rightarrow> bytestr option \<Rightarrow> bytestr option"
  public_key :: "'k \<Rightarrow> 'u"
  public_pem :: "'u \<Rightarrow> bytestr"
  load_pem_private_key :: "bytestr \<Rightarrow> bytestr option \<Rightarrow> 'k option option"
  load_pem_public_key :: "bytestr \<Rightarrow> 'u option option"

section \<open>Saving and loading\<close>

definition save_private_key ::
    "('k, 'u) key_library \<Rightarrow> (pystr \<Rightarrow> pystr option) \<Rightarrow> file_mode \<Rightarrow> save_io \<Rightarrow> 'k \<Rightarrow> pystr \<Rightarrow> bytestr option \<Rightarrow> disk \<Rightarrow>
      (key_exn + pystr) \<times> disk" where
  "save_private_key lib resolve umask io private_key path password disk =
     (case resolve path of
        None \<Rightarrow> (Inl KeyPathError, disk)
      | Some target \<Rightarrow>
          if ki_mkdir io then (Inl KeyOSError, disk)
          else if password = Some [] then (Inl KeyPasswordEmpty, disk)
          else (case private_pem lib private_key password of
                  None \<Rightarrow> (Inl KeyLibraryError, disk)
                | Some encoded \<Rightarrow>
                    (case write_secret_exclusive umask io target encoded disk of
                       (Inl e, disk') \<Rightarrow> (Inl e, disk')
                     | (Inr u, disk') \<Rightarrow> (Inr target, disk'))))"

text \<open>\<^verbatim>\<open>target.open("xb")\<close> creates the file with the mode \<^verbatim>\<open>0o666\<close> under the umask.\<close>

definition save_public_key ::
    "('k, 'u) key_library \<Rightarrow> (pystr \<Rightarrow> pystr option) \<Rightarrow> file_mode \<Rightarrow> save_io \<Rightarrow> 'u \<Rightarrow> pystr \<Rightarrow> disk \<Rightarrow> (key_exn + pystr) \<times> disk" where
  "save_public_key lib resolve umask io key path disk =
     (case resolve path of
        None \<Rightarrow> (Inl KeyPathError, disk)
      | Some target \<Rightarrow>
          if ki_mkdir io then (Inl KeyOSError, disk)
          else (case create_exclusive (438 AND NOT umask) io target (public_pem lib key) disk of
                  (Inl e, disk') \<Rightarrow> (Inl e, disk')
                | (Inr u, disk') \<Rightarrow> (Inr target, disk')))"

text \<open>\<^verbatim>\<open>read_bytes\<close>: the system finds the file at the resolved path; \<open>unreadable\<close> says that it refuses to read it.\<close>

definition read_key_bytes :: "(pystr \<Rightarrow> pystr option) \<Rightarrow> bool \<Rightarrow> pystr \<Rightarrow> disk \<Rightarrow> key_exn + bytestr" where
  "read_key_bytes resolve unreadable path disk =
     (case resolve path of
        None \<Rightarrow> Inl KeyPathError
      | Some target \<Rightarrow>
          (case disk target of
             Some (KeyFile data mode) \<Rightarrow> if unreadable then Inl KeyOSError else Inr data
           | _ \<Rightarrow> Inl KeyOSError))"

definition of_its_type :: "'a option option \<Rightarrow> key_exn + 'a" where
  "of_its_type loaded =
     (case loaded of None \<Rightarrow> Inl KeyLibraryError | Some None \<Rightarrow> Inl KeyTypeError | Some (Some key) \<Rightarrow> Inr key)"

definition load_private_key ::
    "('k, 'u) key_library \<Rightarrow> (pystr \<Rightarrow> pystr option) \<Rightarrow> bool \<Rightarrow> pystr \<Rightarrow> bytestr option \<Rightarrow> disk \<Rightarrow> key_exn + 'k" where
  "load_private_key lib resolve unreadable path password disk =
     rbind (read_key_bytes resolve unreadable path disk) (\<lambda>data. of_its_type (load_pem_private_key lib data password))"

definition load_public_key ::
    "('k, 'u) key_library \<Rightarrow> (pystr \<Rightarrow> pystr option) \<Rightarrow> bool \<Rightarrow> pystr \<Rightarrow> disk \<Rightarrow> key_exn + 'u" where
  "load_public_key lib resolve unreadable path disk =
     rbind (read_key_bytes resolve unreadable path disk) (\<lambda>data. of_its_type (load_pem_public_key lib data))"

section \<open>A pair\<close>

text \<open>
  \<open>pi_exists_private\<close> and \<open>pi_exists_public\<close> say that \<^verbatim>\<open>exists\<close> raises, \<open>pi_unlink\<close> that \<^verbatim>\<open>unlink\<close> does. The generated key is an
  argument.
\<close>

record pair_io =
  pi_exists_private :: bool
  pi_exists_public :: bool
  pi_private :: save_io
  pi_public :: save_io
  pi_unlink :: bool

definition generate_and_save_keypair ::
    "('k, 'u) key_library \<Rightarrow> (pystr \<Rightarrow> pystr option) \<Rightarrow> file_mode \<Rightarrow> pair_io \<Rightarrow> 'k \<Rightarrow> pystr \<Rightarrow> pystr \<Rightarrow> bytestr option \<Rightarrow> disk \<Rightarrow>
      (key_exn + pystr \<times> pystr) \<times> disk" where
  "generate_and_save_keypair lib resolve umask io key private_key_path public_key_path password disk =
     (case (resolve private_key_path, resolve public_key_path) of
        (Some private_target, Some public_target) \<Rightarrow>
          if pi_exists_private io then (Inl KeyOSError, disk)
          else if disk private_target \<noteq> None then (Inl KeyFileExists, disk)
          else if pi_exists_public io then (Inl KeyOSError, disk)
          else if disk public_target \<noteq> None then (Inl KeyFileExists, disk)
          else
            (case save_private_key lib resolve umask (pi_private io) key private_target password disk of
               (Inl e, disk1) \<Rightarrow> (Inl e, disk1)
             | (Inr p, disk1) \<Rightarrow>
                 (case save_public_key lib resolve umask (pi_public io) (public_key lib key) public_target disk1 of
                    (Inl e, disk2) \<Rightarrow>
                      if pi_unlink io then (Inl KeyOSError, disk2) else (Inl e, disk2(private_target := None))
                  | (Inr q, disk2) \<Rightarrow> (Inr (private_target, public_target), disk2)))
      | _ \<Rightarrow> (Inl KeyPathError, disk))"

section \<open>What saving leaves on the disk\<close>

text \<open>Resolving a resolved path gives it back.\<close>

definition resolve_stable :: "(pystr \<Rightarrow> pystr option) \<Rightarrow> bool" where
  "resolve_stable resolve \<longleftrightarrow> (\<forall>p t. resolve p = Some t \<longrightarrow> resolve t = Some t)"

lemma others_create_le [intro, simp]: "disk \<subseteq>\<^sub>m others_create new disk"
  by (simp add: others_create_def)

lemma create_exclusive_cases:
  assumes "create_exclusive mode io path data disk = (r, disk')"
  obtains (raised) e where "r = Inl e" and "disk' = others_create (ki_race io) disk"
    | (cut) n where "r = Inl KeyOSError" and "ki_cut io = Some n" and "disk path = None"
        and "disk' = (others_create (ki_race io) disk)(path \<mapsto> KeyFile (take n data) mode)"
    | (written) "r = Inr ()" and "disk path = None" and "disk' = (others_create (ki_race io) disk)(path \<mapsto> KeyFile data mode)"
  using assms
  by (auto simp: create_exclusive_def others_create_def Let_def map_add_None split: if_splits option.splits)

lemma create_exclusive_le:
  assumes "create_exclusive mode io path data disk = (r, disk')"
  shows "disk \<subseteq>\<^sub>m disk'"
  using assms by (cases rule: create_exclusive_cases) (auto simp: map_le_def others_create_def map_add_def)

lemma save_private_key_Inr:
  assumes "save_private_key lib resolve umask io key path password disk = (Inr t, disk')"
  obtains enc where "resolve path = Some t" and "private_pem lib key password = Some enc" and "disk t = None"
    and "disk' = (others_create (ki_race io) disk)(t \<mapsto> KeyFile enc (384 AND NOT umask))"
proof -
  obtain enc where "resolve path = Some t" "private_pem lib key password = Some enc"
    "create_exclusive (384 AND NOT umask) io t enc disk = (Inr (), disk')"
    using assms by (auto simp: save_private_key_def write_secret_exclusive_def split: option.splits if_splits prod.splits sum.splits)
  then show thesis using that by (auto elim: create_exclusive_cases)
qed

lemma save_public_key_Inr:
  assumes "save_public_key lib resolve umask io key path disk = (Inr t, disk')"
  shows "resolve path = Some t" and "disk t = None"
    and "disk' = (others_create (ki_race io) disk)(t \<mapsto> KeyFile (public_pem lib key) (438 AND NOT umask))"
proof -
  have "resolve path = Some t \<and> create_exclusive (438 AND NOT umask) io t (public_pem lib key) disk = (Inr (), disk')"
    using assms by (auto simp: save_public_key_def split: option.splits if_splits prod.splits sum.splits)
  then show "resolve path = Some t" and "disk t = None"
    and "disk' = (others_create (ki_race io) disk)(t \<mapsto> KeyFile (public_pem lib key) (438 AND NOT umask))"
    by (auto elim: create_exclusive_cases)
qed

lemma save_private_key_le:
  assumes "save_private_key lib resolve umask io key path password disk = (r, disk')"
  shows "disk \<subseteq>\<^sub>m disk'"
  using assms
  by (auto simp: save_private_key_def write_secret_exclusive_def split: option.splits if_splits prod.splits sum.splits
      dest: create_exclusive_le)

lemma save_public_key_le:
  assumes "save_public_key lib resolve umask io key path disk = (r, disk')"
  shows "disk \<subseteq>\<^sub>m disk'"
  using assms
  by (auto simp: save_public_key_def split: option.splits if_splits prod.splits sum.splits dest: create_exclusive_le)

lemma secret_mode: "(384 AND NOT umask) AND 63 = (0 :: file_mode)"
proof -
  have "(384 AND NOT umask) AND 63 = ((384 :: file_mode) AND 63) AND NOT umask" by (simp only: ac_simps)
  also have "(384 :: file_mode) AND 63 = 0" by simp
  finally show ?thesis by simp
qed

lemma keypair_Inr:
  assumes "generate_and_save_keypair lib resolve umask io key p q password disk = (Inr ab, disk')"
    and "resolve_stable resolve"
  obtains a b disk1 where "ab = (a, b)" and "resolve p = Some a" and "resolve q = Some b" and "disk a = None" and "disk b = None"
    and "save_private_key lib resolve umask (pi_private io) key a password disk = (Inr a, disk1)"
    and "save_public_key lib resolve umask (pi_public io) (public_key lib key) b disk1 = (Inr b, disk')"
proof -
  obtain a b disk1 a' b' where s: "ab = (a, b)" "resolve p = Some a" "resolve q = Some b" "disk a = None" "disk b = None"
    "save_private_key lib resolve umask (pi_private io) key a password disk = (Inr a', disk1)"
    "save_public_key lib resolve umask (pi_public io) (public_key lib key) b disk1 = (Inr b', disk')"
    using assms(1)
    by (auto simp: generate_and_save_keypair_def split: option.splits if_splits prod.splits sum.splits)
  have "resolve a = Some a" "resolve b = Some b" using assms(2) s(2,3) by (auto simp: resolve_stable_def)
  then have "a' = a" "b' = b" using save_public_key_Inr(1) [OF s(7)] s(6) by (auto elim: save_private_key_Inr)
  with s that show thesis by blast
qed

lemma keypair_le:
  assumes "generate_and_save_keypair lib resolve umask io key p q password disk = (r, disk')"
  shows "disk \<subseteq>\<^sub>m disk'"
proof -
  have undo: "disk \<subseteq>\<^sub>m disk2(a := None)"
    if "disk a = None" "save_private_key lib resolve umask (pi_private io) key a password disk = (x, disk1)"
      "save_public_key lib resolve umask (pi_public io) (public_key lib key) b disk1 = (y, disk2)" for a b x y disk1 disk2
    using that save_private_key_le [OF that(2)] save_public_key_le [OF that(3)] by (auto simp: map_le_def dom_def)
  have both: "disk \<subseteq>\<^sub>m disk2"
    if "save_private_key lib resolve umask (pi_private io) key a password disk = (x, disk1)"
      "save_public_key lib resolve umask (pi_public io) (public_key lib key) b disk1 = (y, disk2)" for a b x y disk1 disk2
    using save_private_key_le [OF that(1)] save_public_key_le [OF that(2)] by (rule map_le_trans)
  show ?thesis
    using assms
    by (auto simp: generate_and_save_keypair_def split: option.splits if_splits prod.splits sum.splits
        intro: undo both save_private_key_le)
qed

text \<open>What a caller finds after a pair has been saved.\<close>

definition pair_on_disk ::
    "('k, 'u) key_library \<Rightarrow> file_mode \<Rightarrow> 'k \<Rightarrow> bytestr option \<Rightarrow> pystr \<times> pystr \<Rightarrow> disk \<Rightarrow> bool" where
  "pair_on_disk lib umask key password targets disk \<longleftrightarrow>
     (case targets of (a, b) \<Rightarrow>
        a \<noteq> b \<and>
        (\<exists>enc mode. private_pem lib key password = Some enc \<and> disk a = Some (KeyFile enc mode) \<and> mode AND 63 = 0) \<and>
        disk b = Some (KeyFile (public_pem lib (public_key lib key)) (438 AND NOT umask)))"

lemma keypair_saved:
  assumes "generate_and_save_keypair lib resolve umask io key p q password disk = (Inr ab, disk')"
    and "resolve_stable resolve"
  shows "pair_on_disk lib umask key password ab disk'"
proof -
  obtain a b disk1 where ab: "ab = (a, b)" and s: "save_private_key lib resolve umask (pi_private io) key a password disk = (Inr a, disk1)"
    and t: "save_public_key lib resolve umask (pi_public io) (public_key lib key) b disk1 = (Inr b, disk')"
    using assms by (rule keypair_Inr)
  obtain enc where e: "private_pem lib key password = Some enc"
    and d: "disk1 a = Some (KeyFile enc (384 AND NOT umask))"
    using s by (auto elim: save_private_key_Inr)
  have "disk' a = disk1 a" using save_public_key_le [OF t] d by (auto simp: map_le_def dom_def)
  with e d ab save_public_key_Inr [OF t] secret_mode [of umask] show ?thesis
    by (auto simp: pair_on_disk_def)
qed

lemma create_exclusive_uncut:
  assumes "create_exclusive mode io path data disk = (Inl e, disk')" and "ki_cut io = None"
  shows "disk' = others_create (ki_race io) disk"
  using assms by (auto elim: create_exclusive_cases)

lemma save_private_key_uncut:
  assumes "save_private_key lib resolve umask io key path password disk = (Inl e, disk')" and "ki_cut io = None"
  shows "disk' = disk \<or> disk' = others_create (ki_race io) disk"
  using assms
  by (auto simp: save_private_key_def write_secret_exclusive_def split: option.splits if_splits prod.splits sum.splits
      dest: create_exclusive_uncut)

lemma keypair_failed:
  assumes "generate_and_save_keypair lib resolve umask io key p q password disk = (Inl e, disk')"
    and "ki_cut (pi_private io) = None" and "\<not> pi_unlink io"
    and "resolve p = Some a" and "ki_race (pi_private io) a = None"
  shows "disk' a = disk a"
  using assms
  by (auto simp: generate_and_save_keypair_def others_create_def map_add_def split: option.splits if_splits prod.splits sum.splits
      dest!: save_private_key_uncut)

text \<open>A library and a run in which every call succeeds.\<close>

definition sample_library :: "(bytestr, bytestr) key_library" where
  "sample_library =
     \<lparr>private_pem = (\<lambda>k password. Some k), public_key = (\<lambda>k. 4 # k), public_pem = id,
      load_pem_private_key = (\<lambda>enc password. Some (Some enc)), load_pem_public_key = (\<lambda>enc. Some (Some enc))\<rparr>"

definition sample_save :: save_io where
  "sample_save = \<lparr>ki_mkdir = False, ki_open = False, ki_cut = None, ki_race = Map.empty\<rparr>"

definition sample_pair :: pair_io where
  "sample_pair = \<lparr>pi_exists_private = False, pi_exists_public = False, pi_private = sample_save, pi_public = sample_save, pi_unlink = False\<rparr>"

definition sample_disk :: disk where
  "sample_disk = [[1] \<mapsto> KeyFile [1, 2, 3] 384, [2] \<mapsto> KeyFile [4, 1, 2, 3] 420]"

lemma sample_resolve_stable: "resolve_stable Some"
  by (simp add: resolve_stable_def)

lemma sample_pair_saved:
  "generate_and_save_keypair sample_library Some 18 sample_pair [1, 2, 3] [1] [2] None Map.empty = (Inr ([1], [2]), sample_disk)"
  by (simp add: generate_and_save_keypair_def save_private_key_def save_public_key_def write_secret_exclusive_def create_exclusive_def
      others_create_def sample_library_def sample_pair_def sample_save_def sample_disk_def)

text \<open>
  C35. Saving a key pair changes and removes no file that was there, whatever goes wrong and whatever other processes create. When it returns,
  the paths it returns are the resolved ones, they differ, the first file holds the encoded private key and
  gives no permission to the group or to others under any umask, and the second holds the public key. When it raises, the private path is as
  before, unless writing the private file was cut short, the file was created by another process or could not be removed.
\<close>

theorem keypair_overwrites_nothing:
  assumes "generate_and_save_keypair lib resolve umask io key p q password disk = (r, disk')" and "resolve_stable resolve"
  shows "disk \<subseteq>\<^sub>m disk' \<and>
     (case r of
        Inr ab \<Rightarrow> resolve p = Some (fst ab) \<and> resolve q = Some (snd ab) \<and> pair_on_disk lib umask key password ab disk'
      | Inl e \<Rightarrow> \<forall>a. ki_cut (pi_private io) = None \<and> \<not> pi_unlink io \<and> resolve p = Some a \<and> ki_race (pi_private io) a = None \<longrightarrow>
          disk' a = disk a)"
proof (cases r)
  case (Inl e)
  with assms(1) keypair_le [OF assms(1)] show ?thesis by (auto dest: keypair_failed)
next
  case (Inr ab)
  then have g: "generate_and_save_keypair lib resolve umask io key p q password disk = (Inr ab, disk')" using assms(1) by simp
  have "resolve p = Some (fst ab) \<and> resolve q = Some (snd ab)" using g assms(2) by (rule keypair_Inr) simp
  with keypair_saved [OF g assms(2)] keypair_le [OF g] Inr show ?thesis by simp
qed

theorem keypair_overwrites_nothing_witness:
  "pair_on_disk sample_library 18 [1, 2, 3] None ([1], [2]) sample_disk"
  using keypair_overwrites_nothing [OF sample_pair_saved sample_resolve_stable] by simp

section \<open>The saved keys load\<close>

text \<open>What the library documents: each loader reads what its counterpart wrote.\<close>

definition library_roundtrip :: "('k, 'u) key_library \<Rightarrow> bool" where
  "library_roundtrip lib \<longleftrightarrow>
     (\<forall>k password enc. private_pem lib k password = Some enc \<longrightarrow> load_pem_private_key lib enc password = Some (Some k)) \<and>
     (\<forall>u. load_pem_public_key lib (public_pem lib u) = Some (Some u))"

text \<open>
  What a successful call saved loads back, with the same password and from any later disk that still has the files: the
  private key is the generated one and the public key is its counterpart, given that the loaders of the library read what it wrote.
\<close>

theorem saved_keypair_loads:
  assumes "generate_and_save_keypair lib resolve umask io key p q password disk = (Inr ab, disk')" and "resolve_stable resolve"
    and "library_roundtrip lib" and "disk' \<subseteq>\<^sub>m later"
  shows "load_private_key lib resolve False p password later = Inr key \<and>
     load_public_key lib resolve False q later = Inr (public_key lib key)"
proof -
  obtain a b where ab: "ab = (a, b)" "resolve p = Some a" "resolve q = Some b"
    using assms(1,2) by (rule keypair_Inr)
  obtain enc mode where e: "private_pem lib key password = Some enc" "later a = Some (KeyFile enc mode)"
    "later b = Some (KeyFile (public_pem lib (public_key lib key)) (438 AND NOT umask))"
    using keypair_saved [OF assms(1,2)] assms(4) ab(1) by (auto simp: pair_on_disk_def map_le_def dom_def)
  then show ?thesis
    using ab(2,3) assms(3)
    by (simp add: load_private_key_def load_public_key_def read_key_bytes_def of_its_type_def library_roundtrip_def)
qed

theorem saved_keypair_loads_witness:
  "load_private_key sample_library Some False [1] None sample_disk = Inr [1, 2, 3] \<and>
   load_public_key sample_library Some False [2] sample_disk = Inr [4, 1, 2, 3]"
  using saved_keypair_loads [OF sample_pair_saved sample_resolve_stable, of sample_disk]
  by (simp add: library_roundtrip_def sample_library_def)

section \<open>A half-written key\<close>

text \<open>Nothing but the write of the private key goes wrong.\<close>

definition only_write_cut :: "pair_io \<Rightarrow> nat \<Rightarrow> bool" where
  "only_write_cut io n \<longleftrightarrow>
     \<not> pi_exists_private io \<and> \<not> pi_exists_public io \<and> \<not> ki_mkdir (pi_private io) \<and> \<not> ki_open (pi_private io) \<and>
     ki_race (pi_private io) = Map.empty \<and> ki_cut (pi_private io) = Some n"

text \<open>
  C36. When writing the private key is cut after \<open>n\<close> bytes, the call raises \<^verbatim>\<open>OSError\<close> and the first \<open>n\<close> bytes stay in the file: only a
  failure of the public key is cleaned up. Every later call on these paths then raises \<^verbatim>\<open>FileExistsError\<close> and changes nothing, so that the operator
  has to delete the half-written key by hand.
\<close>

theorem half_written_key_stays:
  assumes "only_write_cut io n" and "resolve_stable resolve" and "resolve p = Some a" and "resolve q = Some b"
    and "disk a = None" and "disk b = None" and "private_pem lib key password = Some enc" and "password \<noteq> Some []"
  shows "generate_and_save_keypair lib resolve umask io key p q password disk =
       (Inl KeyOSError, disk(a \<mapsto> KeyFile (take n enc) (384 AND NOT umask))) \<and>
     (\<forall>io' key' password'. \<not> pi_exists_private io' \<longrightarrow>
        generate_and_save_keypair lib resolve umask io' key' p q password' (disk(a \<mapsto> KeyFile (take n enc) (384 AND NOT umask))) =
        (Inl KeyFileExists, disk(a \<mapsto> KeyFile (take n enc) (384 AND NOT umask))))"
proof -
  have "resolve a = Some a" using assms(2,3) by (auto simp: resolve_stable_def)
  then show ?thesis
    using assms
    by (simp add: generate_and_save_keypair_def save_private_key_def write_secret_exclusive_def create_exclusive_def
        others_create_def only_write_cut_def)
qed

theorem half_written_key_stays_witness:
  "generate_and_save_keypair sample_library Some 18 (sample_pair\<lparr>pi_private := sample_save\<lparr>ki_cut := Some 1\<rparr>\<rparr>) [1, 2, 3] [1] [2] None
     Map.empty = (Inl KeyOSError, [[1] \<mapsto> KeyFile [1] 384])"
  using half_written_key_stays [of "sample_pair\<lparr>pi_private := sample_save\<lparr>ki_cut := Some 1\<rparr>\<rparr>" 1 Some "[1]" "[1]" "[2]" "[2]"
      Map.empty sample_library "[1, 2, 3]" None "[1, 2, 3]" 18]
  by (simp add: sample_resolve_stable only_write_cut_def sample_pair_def sample_save_def sample_library_def)

end
