(* ===== verification/Spec2Isabelle.thy ===== *)
theory Spec2Isabelle
  imports Forensic_Properties Collector_Properties Anchor_Properties Ocsf_Properties Collector_Setup_Properties
    Collector_Service_Properties Anchor_Command Float_Check Keys
begin

text \<open>
  VESTRIX records events of WiFi sensing nodes in a tamper-evident forensic log. This library models the
  Python programs that receive, store, check and anchor the events.

  \<^bold>\<open>The program.\<close> Nodes send events over mutual TLS to the collector (\<^verbatim>\<open>src/collector/vestrix_collector\<close>),
  which authenticates them, refuses replays and hands each accepted event to the forensic log
  (\<^verbatim>\<open>src/forensics\<close>). The log is a file of canonical JSON records, one per line, each with the SHA-256 hash of
  its predecessor and a signature. Writers in several processes share it under a file lock; a verifier checks
  it; a worker submits the hash of the last record to OpenTimestamps and follows the proof through the states
  of a database table. A mapper (\<^verbatim>\<open>src/soc-integration/ocsf\<close>) turns alerts into OCSF and Wazuh events. The collector calls \<^verbatim>\<open>log_event\<close>, which calls the reader for the tip; the verifier and
  the worker call the same reader.

  \<^bold>\<open>The theories.\<close>
  \<^item> \<^verbatim>\<open>Prelude\<close>: results (\<open>Inl\<close> an exception, \<open>Inr\<close> a value) with \<open>rbind\<close>, \<open>raise_if\<close>, \<open>rfold\<close>; Python text as a
    list of code points, bytes as words; UTF-8, decimal and hexadecimal text.
  \<^item> \<^verbatim>\<open>Py_Float\<close>, \<^verbatim>\<open>Py_Float_Arith\<close>: IEEE doubles as 64-bit words, parsed from decimals, printed as the shortest
    decimal, and added, multiplied and compared. \<^verbatim>\<open>Py_Json\<close>: \<^verbatim>\<open>json.loads\<close> and \<^verbatim>\<open>json.dumps\<close>, with the round trip in
    \<^verbatim>\<open>Py_Json_Roundtrip\<close> and what a parsed value can be in \<^verbatim>\<open>Py_Json_Wf\<close>, whose interface \<open>scanned_values\<close> carries a property
    through the scanner; \<^verbatim>\<open>Py_Json_Ascii\<close> and \<^verbatim>\<open>Py_Json_Ascii_Roundtrip\<close> do the same for output with \<^verbatim>\<open>ensure_ascii\<close>, and
    \<^verbatim>\<open>Py_Json_Surrogates\<close> shows that whatever is parsed from UTF-8 survives it. \<^verbatim>\<open>Py_Datetime\<close>, \<^verbatim>\<open>Py_Datetime_Order\<close>:
    \<^verbatim>\<open>fromisoformat\<close>, \<^verbatim>\<open>isoformat\<close>, the instants and their order. \<^verbatim>\<open>Sha256\<close>: the hash function, executable.
  \<^item> \<^verbatim>\<open>Record_Format\<close> models \<^verbatim>\<open>_format.py\<close>: the validators of events and records and the canonical bytes.
  \<^item> \<^verbatim>\<open>Chain_Interfaces\<close>: the interfaces \<open>line_codec\<close> and \<open>hash_chain\<close>, interpreted in \<^verbatim>\<open>Chain_Store\<close>, which models
    \<^verbatim>\<open>_store.py\<close>: the loop of \<^verbatim>\<open>iter_validated_records\<close> with the body of its consumer, and \<^verbatim>\<open>chain_tip\<close>.
  \<^item> \<^verbatim>\<open>Chain_Logger\<close> models \<^verbatim>\<open>logger.py\<close> as one call, \<^verbatim>\<open>Chain_Processes\<close> as steps of several processes that may die
    at any step. \<^verbatim>\<open>Chain_Check\<close> models \<^verbatim>\<open>chain_check.py\<close>. \<^verbatim>\<open>Samples\<close> and \<^verbatim>\<open>Forensic_Properties\<close> hold concrete
    records and the properties.
  \<^item> \<^verbatim>\<open>Collector_Models\<close> models \<^verbatim>\<open>models.py\<close> and \<^verbatim>\<open>forensics.py\<close>, \<^verbatim>\<open>Collector_Server\<close> the allow-list, the framing
    and the handler of \<^verbatim>\<open>server.py\<close> with the interface \<open>replay_register\<close>; \<^verbatim>\<open>Collector_Processes\<close> is the threads
    of the connections as steps; \<^verbatim>\<open>Collector_Properties\<close> the properties.
  \<^item> \<^verbatim>\<open>Collector_Config\<close> models \<^verbatim>\<open>config.py\<close>; \<^verbatim>\<open>Collector_Reload\<close> the security state of \<^verbatim>\<open>server.py\<close> with the reload
    task of \<^verbatim>\<open>__main__.py\<close>, as steps; \<^verbatim>\<open>Collector_Log\<close> the formatter of \<^verbatim>\<open>logging.py\<close> with the records the server
    logs; \<^verbatim>\<open>Collector_Setup_Properties\<close> their properties. \<open>event_process\<close> is the interface of a process driven by events.
  \<^item> \<^verbatim>\<open>Collector_Service\<close> models the TLS context, \<^verbatim>\<open>start\<close>, \<^verbatim>\<open>close\<close> and the accept loop of \<^verbatim>\<open>server.py\<close> and \<^verbatim>\<open>_run\<close> of
    \<^verbatim>\<open>__main__.py\<close> as a process driven by events, \<^verbatim>\<open>Collector_Service_Properties\<close> its properties.
  \<^item> \<^verbatim>\<open>Anchor\<close> models \<^verbatim>\<open>anchor.py\<close>; \<^verbatim>\<open>Anchor_Store\<close> the \<^verbatim>\<open>LifecycleStore\<close> of \<^verbatim>\<open>anchor_worker.py\<close>, with the interface
    \<open>lifecycle_store\<close>; \<^verbatim>\<open>Anchor_Worker\<close> the retry delay, the processing of a job and \<^verbatim>\<open>run_once\<close>;
    \<^verbatim>\<open>Anchor_Processes\<close> several workers as steps. \<^verbatim>\<open>Anchor_Delay\<close>, \<^verbatim>\<open>Anchor_Invariant\<close> and \<^verbatim>\<open>Anchor_Run\<close> hold the
    lemmas, \<^verbatim>\<open>Anchor_Samples\<close> concrete runs, \<^verbatim>\<open>Anchor_Properties\<close> the properties. \<^verbatim>\<open>Anchor_Command\<close> models the
    options and \<^verbatim>\<open>main\<close> of the worker and the paths of \<^verbatim>\<open>logger.py\<close>.
  \<^item> \<^verbatim>\<open>Ocsf_Mapper\<close> models \<^verbatim>\<open>mapper.py\<close>: the validator of alerts, the two output formats and \<^verbatim>\<open>main\<close>.
    \<^verbatim>\<open>Ocsf_Alerts\<close> states what an alert must satisfy, \<^verbatim>\<open>Ocsf_Score\<close> and \<^verbatim>\<open>Ocsf_Outputs\<close> hold the lemmas on scores and
    events, \<^verbatim>\<open>Ocsf_Roundtrip\<close> those on printed events, \<^verbatim>\<open>Ocsf_Properties\<close> the properties.
  \<^item> \<^verbatim>\<open>Float_Check\<close> models \<^verbatim>\<open>float_canonical.py\<close> and \<^verbatim>\<open>check_float_canonicalization.py\<close>, \<^verbatim>\<open>Keys\<close> models
    \<^verbatim>\<open>keys.py\<close>, each with its properties.

  \<^bold>\<open>State.\<close> The chain file is \<open>bytestr option\<close> (\<open>None\<close>: it does not exist). \<open>collector\<close> holds the last sequence
  numbers, the chain file and the decisions logged. \<open>anchor_world\<close> holds the rows of the table and the proof
  files; \<open>security\<close> the allow-list and TLS context in force, the reload task and the snapshots of the connections;
  \<open>service\<close> the listener, the accept task, the connections and the phase of the collector; \<open>disk\<close> the key files with
  their modes. What the outside decides (lock obtained or not, outcome of a write, what a socket delivers, the
  clock, the random sample, the answer of a calendar) is an argument of the operation. Every exception that
  can leave a modelled function is a value of its result.

  \<^bold>\<open>What is shown.\<close> For the log: a validated event is appended and the new file verifies; the reader and the
  verifier accept exactly the files of linked canonical records; the tip commits to the whole history unless
  SHA-256 collides; refused and interrupted writes, and every interleaving of writers, keep a valid chain; the
  canonical bytes round-trip; which exceptions can leave. For the collector: an accepted event is
  authenticated, fresh and in the chain, none is accepted twice, every connection is decided exactly once.
  For the worker: proofs validate at every moment and, with one worker at a time, keep their attestations
  from an empty table on (\<open>worker_world\<close>), rows move only along the allowed transitions, a crash
  loses nothing, the retry window, and what goes wrong when two workers share a pending row. For the set-up of
  the collector: which documents the loader accepts, that a reload publishes a pair or changes nothing, that a
  signal during a reload is lost, that every decision is one line that reads back whatever a peer sends, that every connection works with
  a TLS context that demands and checks a client certificate, that a shutdown completes without dropping a
  connection, and that one error of the accept loop ends the service silently. For the mapper: the contract of
  the validator, which exceptions leave it, scores and severity in their ranges, the alert read back from the
  printed event. For floats: the text is the shortest that reads back, and what a passed check says of the vectors.
  For keys: nothing is overwritten, the private file is for its owner only, saved keys load, and what a
  cut write leaves.

  \<^bold>\<open>Loops.\<close> Every loop is a recursive function proved to terminate: over the lines of the file, over the jobs,
  over what the socket delivers (measured by its bytes) and, in the JSON scanner, over the rest of the text.
  No fuel is used.

  \<^bold>\<open>Arguments of the model.\<close> Ed25519, the \<^verbatim>\<open>cryptography\<close> library, PyYAML, \<^verbatim>\<open>Path.resolve\<close>, the opentimestamps
  library, the calendars and the output of the Rust program are arguments.
  What is assumed of them is a hypothesis of the property that uses it: a signature verifies under the key it
  was made with, a proof or key the library wrote is read back as it was, resolving a resolved path gives it
  back, and the proof file of a tip the worker reads is not a symbolic link, so that the resolved path keeps its name
  (\<open>proof_path_kept\<close>).

  \<^bold>\<open>Not modelled.\<close> The TLS handshake and the sockets themselves (their outcomes are arguments); how
  \<^verbatim>\<open>argparse\<close> splits a command line; a second interrupt during the shutdown; the text of a peer address; errors of
  SQLite itself; the order SQL gives rows of equal sequence; text that cannot be encoded; the recursion limit
  and the memory of the interpreter, so that no input is nested too deeply. The Rust verifier, the Wazuh files
  and the scripts are not Python. Firmware, pipeline and model training hold no code.
\<close>

end
